(* ===== verification/Prelude.thy ===== *)
theory Prelude
  imports Main "HOL-Library.Char_ord" "HOL-Library.List_Lexorder"
begin

text \<open>
  Shared vocabulary of the development: the types that stand for Go's basic types, Go's
  two-valued returns as sums, finite maps with Go's \<^verbatim>\<open>map\<close> operations, and the generic lemmas
  on lists the components share.
\<close>

section \<open>Types\<close>

text \<open>
  A Go \<^verbatim>\<open>string\<close> and a \<^verbatim>\<open>[]byte\<close> are both sequences of bytes; HOL's \<open>char\<close> is an 8-bit
  value, so both are \<open>string\<close>. Instants and durations are nanosecond counts.
\<close>

type_synonym bytes = string
type_synonym nanos = int

text \<open>
  \<^verbatim>\<open>error\<close> values are only ever compared with \<^verbatim>\<open>nil\<close> or printed, so an error is its
  message. A Go result \<^verbatim>\<open>(T, error)\<close> is a sum with the error on the left.
\<close>

type_synonym go_error = string
type_synonym 'a result = "go_error + 'a"

text \<open>Facts that unfold the guards of a component, and facts that carry an invariant.\<close>

named_theorems guard_defs \<open>definitions of the input checks\<close>
named_theorems inv_intros \<open>introduction rules of component invariants\<close>

definition is_ok :: "'a result \<Rightarrow> bool" where
  "is_ok r = (case r of Inl _ \<Rightarrow> False | Inr _ \<Rightarrow> True)"

lemma is_ok_simps [simp]: "is_ok (Inr x)" "\<not> is_ok (Inl e)"
  by (simp_all add: is_ok_def)

lemma is_okE: "is_ok r \<Longrightarrow> (\<And>x. r = Inr x \<Longrightarrow> P) \<Longrightarrow> P"
  by (cases r) auto

abbreviation byte_val :: "char \<Rightarrow> nat" where
  "byte_val c \<equiv> of_char c"

section \<open>Go maps\<close>

text \<open>
  A Go \<^verbatim>\<open>map[K]V\<close> is an association list whose keys are distinct: \<open>gm_get\<close> is the
  two-valued read, \<open>gm_set\<close> an assignment, \<open>gm_del\<close> the builtin \<^verbatim>\<open>delete\<close>, \<open>length\<close> the
  builtin \<^verbatim>\<open>len\<close>. The list order stands for Go's unspecified iteration order: no lemma of the
  development depends on it.
\<close>

type_synonym ('k, 'v) gomap = "('k \<times> 'v) list"

definition gm_get :: "('k, 'v) gomap \<Rightarrow> 'k \<Rightarrow> 'v option" where
  "gm_get m k = map_of m k"

definition gm_del :: "'k \<Rightarrow> ('k, 'v) gomap \<Rightarrow> ('k, 'v) gomap" where
  "gm_del k m = filter (\<lambda>kv. fst kv \<noteq> k) m"

definition gm_set :: "'k \<Rightarrow> 'v \<Rightarrow> ('k, 'v) gomap \<Rightarrow> ('k, 'v) gomap" where
  "gm_set k v m = (k, v) # gm_del k m"

definition gm_keys :: "('k, 'v) gomap \<Rightarrow> 'k list" where
  "gm_keys m = map fst m"

definition gm_inv :: "('k, 'v) gomap \<Rightarrow> bool" where
  "gm_inv m = distinct (gm_keys m)"

lemma gm_get_Nil [simp]: "gm_get [] k = None"
  by (simp add: gm_get_def)

lemma gm_inv_Nil [simp]: "gm_inv []"
  by (simp add: gm_inv_def gm_keys_def)

lemma gm_get_del [simp]: "gm_get (gm_del k m) k' = (if k' = k then None else gm_get m k')"
  by (induction m) (auto simp: gm_get_def gm_del_def)

lemma gm_get_set [simp]: "gm_get (gm_set k v m) k' = (if k' = k then Some v else gm_get m k')"
  by (auto simp: gm_set_def gm_get_def [of "_ # _"] gm_get_def [symmetric])

lemma set_gm_keys_del [simp]: "set (gm_keys (gm_del k m)) = set (gm_keys m) - {k}"
  by (auto simp: gm_keys_def gm_del_def)

lemma gm_inv_del [simp, intro]: "gm_inv m \<Longrightarrow> gm_inv (gm_del k m)"
  by (simp add: gm_inv_def gm_keys_def gm_del_def distinct_map_filter)

lemma gm_inv_set [simp, intro]: "gm_inv m \<Longrightarrow> gm_inv (gm_set k v m)"
  using gm_inv_del [of m k] set_gm_keys_del [of k m]
  by (simp add: gm_set_def gm_inv_def gm_keys_def)

lemma gm_get_None_iff: "gm_get m k = None \<longleftrightarrow> k \<notin> set (gm_keys m)"
  by (simp add: gm_get_def gm_keys_def map_of_eq_None_iff)

lemma gm_get_mem: "gm_get m k = Some v \<Longrightarrow> (k, v) \<in> set m"
  by (simp add: gm_get_def map_of_SomeD)

lemma gm_mem_get: "gm_inv m \<Longrightarrow> (k, v) \<in> set m \<Longrightarrow> gm_get m k = Some v"
  by (simp add: gm_inv_def gm_keys_def gm_get_def)

lemma gm_get_filter:
  "gm_inv m \<Longrightarrow> gm_get (filter P m) k =
     (case gm_get m k of None \<Rightarrow> None | Some v \<Rightarrow> if P (k, v) then Some v else None)"
proof (induction m)
  case Nil
  then show ?case by simp
next
  case (Cons kv m)
  obtain a b where kv: "kv = (a, b)" by (cases kv)
  from Cons.prems have inv: "gm_inv m" and fresh: "a \<notin> set (gm_keys m)"
    by (simp_all add: gm_inv_def gm_keys_def kv)
  from fresh have "gm_get m a = None"
    by (simp add: gm_get_None_iff)
  with Cons.IH [OF inv] show ?case
    by (auto simp: kv gm_get_def split: option.splits)
qed

lemma gm_inv_filter [simp, intro]: "gm_inv m \<Longrightarrow> gm_inv (filter P m)"
  by (simp add: gm_inv_def gm_keys_def distinct_map_filter)

lemma length_gm_del_le: "length (gm_del k m) \<le> length m"
  by (simp add: gm_del_def)

lemma gm_del_absent: "gm_get m k = None \<Longrightarrow> gm_del k m = m"
  by (force simp: gm_del_def gm_get_None_iff gm_keys_def intro: filter_True)

lemma length_gm_set_fresh: "gm_get m k = None \<Longrightarrow> length (gm_set k v m) = Suc (length m)"
  by (simp add: gm_set_def gm_del_absent)

section \<open>Lists\<close>

lemma list_all_conv_drop_take:
  "list_all P xs \<longleftrightarrow> list_all P (take n xs) \<and> list_all P (drop n xs)"
  by (metis append_take_drop_id list_all_append)

lemma list_all_mono_on:
  "list_all P xs \<Longrightarrow> (\<And>x. x \<in> set xs \<Longrightarrow> P x \<Longrightarrow> Q x) \<Longrightarrow> list_all Q xs"
  by (simp add: list_all_iff)

text \<open>Induction three elements at a time, as base64 consumes its input.\<close>

lemma chunk3_induct [case_names Nil one two chunk]:
  assumes "P []" "\<And>a. P [a]" "\<And>a b. P [a, b]" "\<And>a b c s. P s \<Longrightarrow> P (a # b # c # s)"
  shows "P s"
proof (induction s rule: length_induct)
  case (1 s)
  consider "s = []" | a where "s = [a]" | a b where "s = [a, b]" | a b c t where "s = a # b # c # t"
    by (metis neq_Nil_conv)
  then show ?case
    using "1" assms by cases auto
qed

end
