(* ===== verification/GoStrings.thy ===== *)
theory GoStrings
  imports Prelude
begin

text \<open>
  The functions of Go's \<^verbatim>\<open>strings\<close> and \<^verbatim>\<open>bytes\<close> packages the program calls, on byte
  strings: prefixes and suffixes, substring search, splitting, trimming, ASCII case folding.
\<close>

section \<open>Prefixes, suffixes, search\<close>

fun has_prefix :: "bytes \<Rightarrow> bytes \<Rightarrow> bool" where
  "has_prefix s [] = True"
| "has_prefix [] (p # ps) = False"
| "has_prefix (c # s) (p # ps) = (c = p \<and> has_prefix s ps)"

definition has_suffix :: "bytes \<Rightarrow> bytes \<Rightarrow> bool" where
  "has_suffix s p = (length p \<le> length s \<and> drop (length s - length p) s = p)"

lemma has_prefix_iff: "has_prefix s p \<longleftrightarrow> (\<exists>t. s = p @ t)"
  by (induction s p rule: has_prefix.induct) auto

lemma has_prefix_append [simp]: "has_prefix (p @ t) p"
  by (auto simp: has_prefix_iff)

lemma has_prefix_length: "has_prefix s p \<Longrightarrow> length p \<le> length s"
  by (auto simp: has_prefix_iff)

lemma has_prefix_take: "has_prefix s p \<longleftrightarrow> take (length p) s = p"
  by (metis append_eq_conv_conj has_prefix_iff)

lemma has_suffix_iff: "has_suffix s p \<longleftrightarrow> (\<exists>t. s = t @ p)"
proof
  assume "has_suffix s p"
  then show "\<exists>t. s = t @ p"
    by (metis append_take_drop_id has_suffix_def)
qed (auto simp: has_suffix_def)

text \<open>\<^verbatim>\<open>strings.Index\<close>: the least offset of an occurrence (\<open>None\<close> is Go's \<open>-1\<close>).\<close>

fun index_of :: "bytes \<Rightarrow> bytes \<Rightarrow> nat option" where
  "index_of [] p = (if p = [] then Some 0 else None)"
| "index_of (c # s) p =
     (if has_prefix (c # s) p then Some 0 else map_option Suc (index_of s p))"

definition contains :: "bytes \<Rightarrow> bytes \<Rightarrow> bool" where
  "contains s p = (index_of s p \<noteq> None)"

lemma index_of_Some:
  "index_of s p = Some i \<Longrightarrow> i \<le> length s \<and> has_prefix (drop i s) p"
  by (induction s arbitrary: i) (auto split: if_splits)

lemma index_of_least:
  "index_of s p = Some i \<Longrightarrow> j < i \<Longrightarrow> \<not> has_prefix (drop j s) p"
proof (induction s arbitrary: i j)
  case Nil
  then show ?case by (auto split: if_splits)
next
  case (Cons c s)
  then show ?case
    by (cases j) (auto split: if_splits)
qed

lemma index_of_None:
  "index_of s p = None \<Longrightarrow> \<not> has_prefix (drop j s) p"
proof (induction s arbitrary: j)
  case Nil
  then show ?case by (cases p) auto
next
  case (Cons c s)
  then show ?case by (cases j) (auto split: if_splits)
qed

lemma contains_iff: "contains s p \<longleftrightarrow> (\<exists>a b. s = a @ p @ b)"
proof
  assume "contains s p"
  then obtain i where "index_of s p = Some i"
    by (auto simp: contains_def)
  then have "has_prefix (drop i s) p"
    using index_of_Some by blast
  then obtain t where "drop i s = p @ t"
    by (auto simp: has_prefix_iff)
  then show "\<exists>a b. s = a @ p @ b"
    by (metis append_take_drop_id)
next
  assume "\<exists>a b. s = a @ p @ b"
  then obtain a b where s: "s = a @ p @ b" by blast
  show "contains s p"
  proof (rule ccontr)
    assume "\<not> contains s p"
    then have "\<not> has_prefix (drop (length a) s) p"
      by (simp add: contains_def index_of_None)
    then show False by (simp add: s)
  qed
qed

fun last_index_byte :: "bytes \<Rightarrow> char \<Rightarrow> nat option" where
  "last_index_byte [] c = None"
| "last_index_byte (x # s) c =
     (case last_index_byte s c of Some i \<Rightarrow> Some (Suc i) | None \<Rightarrow> if x = c then Some 0 else None)"

lemma last_index_byte_None: "last_index_byte s c = None \<longleftrightarrow> c \<notin> set s"
  by (induction s) (auto split: option.splits)

lemma last_index_byte_Some:
  "last_index_byte s c = Some i \<Longrightarrow> i < length s \<and> s ! i = c \<and> c \<notin> set (drop (Suc i) s)"
  by (induction s arbitrary: i) (auto split: option.splits if_splits simp: last_index_byte_None)

section \<open>Splitting and trimming\<close>

text \<open>\<^verbatim>\<open>strings.Split(s, sep)\<close> for a one-byte separator: never the empty list.\<close>

fun split_byte :: "char \<Rightarrow> bytes \<Rightarrow> bytes list" where
  "split_byte c [] = [[]]"
| "split_byte c (x # s) =
     (if x = c then [] # split_byte c s
      else (case split_byte c s of [] \<Rightarrow> [[x]] | p # ps \<Rightarrow> (x # p) # ps))"

definition join_byte :: "char \<Rightarrow> bytes list \<Rightarrow> bytes" where
  "join_byte c ps = (case ps of [] \<Rightarrow> [] | p # qs \<Rightarrow> p @ concat (map (\<lambda>q. c # q) qs))"

lemma split_byte_not_Nil [simp]: "split_byte c s \<noteq> []"
  by (cases s) (auto split: list.splits)

lemma join_split_byte [simp]: "join_byte c (split_byte c s) = s"
  by (induction s) (auto simp: join_byte_def split: list.splits)

lemma split_byte_no_sep: "p \<in> set (split_byte c s) \<Longrightarrow> c \<notin> set p"
  by (induction s arbitrary: p) (fastforce split: list.splits if_splits)+

lemma split_byte_set: "p \<in> set (split_byte c s) \<Longrightarrow> set p \<subseteq> set s"
  by (induction s arbitrary: p) (fastforce split: list.splits if_splits)+

text \<open>\<^verbatim>\<open>strings.TrimRight(s, cut)\<close> for a one-byte cut set.\<close>

definition trim_right_byte :: "char \<Rightarrow> bytes \<Rightarrow> bytes" where
  "trim_right_byte c s = rev (dropWhile (\<lambda>x. x = c) (rev s))"

text \<open>
  White space. \<^verbatim>\<open>strings.TrimSpace\<close> and \<^verbatim>\<open>bytes.TrimSpace\<close> cut Unicode white space:
  in ASCII the six bytes below, and beyond ASCII the code points whose UTF-8 encodings are
  listed in \<open>wide_spaces\<close> (U+0085, U+00A0, U+1680, U+2000 to U+200A, U+2028, U+2029, U+202F,
  U+205F, U+3000).
\<close>

definition ascii_space :: "char \<Rightarrow> bool" where
  "ascii_space c = (let n = byte_val c in n = 32 \<or> (9 \<le> n \<and> n \<le> 13))"

definition wide_spaces :: "bytes list" where
  "wide_spaces =
     map (map char_of)
       ([[0xC2, 0x85], [0xC2, 0xA0], [0xE1, 0x9A, 0x80], [0xE2, 0x80, 0xA8], [0xE2, 0x80, 0xA9],
         [0xE2, 0x80, 0xAF], [0xE2, 0x81, 0x9F], [0xE3, 0x80, 0x80]]
        @ map (\<lambda>b. [0xE2, 0x80, b]) [0x80, 0x81, 0x82, 0x83, 0x84, 0x85, 0x86, 0x87, 0x88, 0x89, 0x8A :: nat])"

definition wide_space_len :: "bytes list \<Rightarrow> bytes \<Rightarrow> nat" where
  "wide_space_len ws s = (case find (has_prefix s) ws of None \<Rightarrow> 0 | Some w \<Rightarrow> length w)"

text \<open>The spaces at the front of \<open>s\<close> are cut one code point at a time; the fuel \<open>length s\<close> is
  enough because every cut shortens \<open>s\<close>.\<close>

fun trim_left_fuel :: "nat \<Rightarrow> bytes list \<Rightarrow> bytes \<Rightarrow> bytes" where
  "trim_left_fuel 0 ws s = s"
| "trim_left_fuel (Suc n) ws s =
     (case s of [] \<Rightarrow> []
      | c # s' \<Rightarrow>
          if ascii_space c then trim_left_fuel n ws s'
          else if wide_space_len ws s = 0 then s
          else trim_left_fuel n ws (drop (wide_space_len ws s) s))"

definition trim_left_space :: "bytes \<Rightarrow> bytes" where
  "trim_left_space s = trim_left_fuel (length s) wide_spaces s"

definition trim_space :: "bytes \<Rightarrow> bytes" where
  "trim_space s =
     (let t = trim_left_space s
      in rev (trim_left_fuel (length t) (map rev wide_spaces) (rev t)))"

text \<open>A string that starts and ends with an ASCII character other than a space is left alone.\<close>

lemma wide_spaces_high:
  "list_all (\<lambda>w. w \<noteq> [] \<and> 128 \<le> byte_val (hd w)) wide_spaces"
  "list_all (\<lambda>w. w \<noteq> [] \<and> 128 \<le> byte_val (hd w)) (map rev wide_spaces)"
  unfolding wide_spaces_def by simp_all

lemma trim_left_fuel_id:
  assumes "s = c # t" and "byte_val c < 128" and "\<not> ascii_space c"
    and "list_all (\<lambda>w. w \<noteq> [] \<and> 128 \<le> byte_val (hd w)) ws"
  shows "trim_left_fuel n ws s = s"
proof -
  have "\<not> has_prefix (c # t) w" if "w \<in> set ws" for w
    using assms(2,4) that by (cases w) (auto simp: list_all_iff)
  then have "find (has_prefix (c # t)) ws = None"
    by (simp add: find_None_iff)
  then show ?thesis
    using assms by (cases n) (simp_all add: wide_space_len_def)
qed

lemma trim_space_id:
  assumes "s \<noteq> []" and "byte_val (hd s) < 128" and "\<not> ascii_space (hd s)"
    and "byte_val (last s) < 128" and "\<not> ascii_space (last s)"
  shows "trim_space s = s"
proof -
  have "trim_left_space s = s"
    unfolding trim_left_space_def using assms
    by (intro trim_left_fuel_id [where c = "hd s" and t = "tl s"] wide_spaces_high) simp_all
  moreover have "trim_left_fuel n (map rev wide_spaces) (rev s) = rev s" for n
  proof (rule trim_left_fuel_id [where c = "last s" and t = "rev (butlast s)"])
    show "rev s = last s # rev (butlast s)"
      using assms(1) by (metis append_butlast_last_id rev_eq_Cons_iff rev_rev_ident)
  qed (use assms wide_spaces_high in simp_all)
  ultimately show ?thesis
    by (simp add: trim_space_def Let_def)
qed

lemma trim_space_Nil [simp]: "trim_space [] = []"
  by (simp add: trim_space_def trim_left_space_def)

section \<open>ASCII case\<close>

text \<open>
  \<^verbatim>\<open>bytes.ToLower\<close> and \<^verbatim>\<open>strings.ToLower\<close> fold Unicode; the program compares the result with
  ASCII text only. Beyond ASCII exactly two code points have an ASCII lower case: U+0130 maps
  to \<^verbatim>\<open>i\<close> and U+212A (the Kelvin sign) to \<^verbatim>\<open>k\<close>. Other code points stay outside ASCII
  and keep their bytes here.
\<close>

definition lower_byte :: "char \<Rightarrow> char" where
  "lower_byte c = (let n = byte_val c in if 65 \<le> n \<and> n \<le> 90 then char_of (n + 32) else c)"

fun to_lower :: "bytes \<Rightarrow> bytes" where
  "to_lower [] = []"
| "to_lower (c # s) =
     (if has_prefix (c # s) (map char_of [0xC4, 0xB0 :: nat]) then CHR ''i'' # to_lower (drop 1 s)
      else if has_prefix (c # s) (map char_of [0xE2, 0x84, 0xAA :: nat]) then CHR ''k'' # to_lower (drop 2 s)
      else lower_byte c # to_lower s)"

lemma to_lower_ascii:
  "list_all (\<lambda>c. byte_val c < 128) s \<Longrightarrow> to_lower s = map lower_byte s"
proof (induction s)
  case Nil
  then show ?case by simp
next
  case (Cons c s)
  then have c: "byte_val c < 128" by simp
  then have "c \<noteq> char_of (0xC4 :: nat)" "c \<noteq> char_of (0xE2 :: nat)"
    by auto
  with Cons show ?case by (cases s) auto
qed

end
