(* ===== verification/Utf8.thy ===== *)
theory Utf8
  imports GoStrings
begin

text \<open>
  UTF-8 as Go reads it: \<^verbatim>\<open>utf8.DecodeRune\<close>, which a \<^verbatim>\<open>for _, r := range s\<close> loop runs over
  a string, \<^verbatim>\<open>utf8.Valid\<close> and \<^verbatim>\<open>utf8.EncodeRune\<close>. The main lemmas: a rune loop whose test
  treats every non-ASCII rune alike is a byte loop (\<open>runes_all_ascii\<close>, \<open>runes_all_wide\<close>), and
  decoding undoes encoding.
\<close>

section \<open>Decoding\<close>

abbreviation rune_error :: nat where
  "rune_error \<equiv> 0xFFFD"

definition cont_byte :: "nat \<Rightarrow> bool" where
  "cont_byte b = (0x80 \<le> b \<and> b \<le> 0xBF)"

definition between :: "nat \<Rightarrow> nat \<Rightarrow> nat \<Rightarrow> bool" where
  "between lo hi b = (lo \<le> b \<and> b \<le> hi)"

text \<open>
  One rune of a non-empty string and the bytes it takes; \<open>None\<close> where \<^verbatim>\<open>DecodeRune\<close> answers
  \<^verbatim>\<open>(RuneError, 1)\<close>. The bounds on the second byte exclude overlong forms, surrogates and
  code points beyond U+10FFFF.
\<close>

fun decode_bytes :: "nat list \<Rightarrow> (nat \<times> nat) option" where
  "decode_bytes [] = None"
| "decode_bytes (b0 # t) =
     (if b0 < 0x80 then Some (b0, 1)
      else if between 0xC2 0xDF b0 then
        (case t of b1 # _ \<Rightarrow>
            if cont_byte b1 then Some ((b0 - 0xC0) * 64 + (b1 - 0x80), 2) else None
         | _ \<Rightarrow> None)
      else if between 0xE0 0xEF b0 then
        (case t of b1 # b2 # _ \<Rightarrow>
            if between (if b0 = 0xE0 then 0xA0 else 0x80) (if b0 = 0xED then 0x9F else 0xBF) b1
               \<and> cont_byte b2
            then Some ((b0 - 0xE0) * 4096 + (b1 - 0x80) * 64 + (b2 - 0x80), 3) else None
         | _ \<Rightarrow> None)
      else if between 0xF0 0xF4 b0 then
        (case t of b1 # b2 # b3 # _ \<Rightarrow>
            if between (if b0 = 0xF0 then 0x90 else 0x80) (if b0 = 0xF4 then 0x8F else 0xBF) b1
               \<and> cont_byte b2 \<and> cont_byte b3
            then Some ((b0 - 0xF0) * 262144 + (b1 - 0x80) * 4096 + (b2 - 0x80) * 64 + (b3 - 0x80), 4)
            else None
         | _ \<Rightarrow> None)
      else None)"

definition decode_rune :: "bytes \<Rightarrow> (nat \<times> nat) option" where
  "decode_rune s = decode_bytes (map of_char (take 4 s))"

lemma decode_bytes_size:
  "decode_bytes bs = Some (r, n) \<Longrightarrow> 0 < n \<and> n \<le> length bs"
  by (cases bs) (auto split: if_splits list.splits)

lemma decode_rune_size: "decode_rune s = Some (r, n) \<Longrightarrow> 0 < n \<and> n \<le> length s"
  using decode_bytes_size by (fastforce simp: decode_rune_def)

text \<open>A rune of one byte is that ASCII byte; a longer rune and all its bytes are not ASCII.\<close>

lemma decode_bytes_ascii: "b < 0x80 \<Longrightarrow> decode_bytes (b # t) = Some (b, 1)"
  by simp

lemma decode_bytes_wide:
  "decode_bytes (b # t) = Some (r, n) \<Longrightarrow> \<not> b < 0x80 \<Longrightarrow>
     0x80 \<le> r \<and> (\<forall>x \<in> set (take n (b # t)). 0x80 \<le> x)"
  by (auto simp: between_def cont_byte_def split: if_splits list.splits)

text \<open>The runes a \<^verbatim>\<open>range\<close> loop over a string visits; \<^verbatim>\<open>RuneError\<close> for every undecodable byte.\<close>

function runes :: "bytes \<Rightarrow> nat list" where
  "runes s =
     (if s = [] then []
      else (case decode_rune s of
              None \<Rightarrow> rune_error # runes (drop 1 s)
            | Some (r, n) \<Rightarrow> r # runes (drop n s)))"
  by pat_completeness auto
termination
  by (relation "measure length") (auto dest: decode_rune_size)

declare runes.simps [simp del]

lemma runes_Nil [simp]: "runes [] = []"
  by (simp add: runes.simps)

lemma runes_eq_Nil [simp]: "runes s = [] \<longleftrightarrow> s = []"
  by (subst runes.simps) (auto split: option.splits)

function valid_utf8 :: "bytes \<Rightarrow> bool" where
  "valid_utf8 s =
     (if s = [] then True
      else (case decode_rune s of None \<Rightarrow> False | Some (r, n) \<Rightarrow> valid_utf8 (drop n s)))"
  by pat_completeness auto
termination
  by (relation "measure length") (auto dest: decode_rune_size)

declare valid_utf8.simps [simp del]

lemma valid_utf8_Nil [simp]: "valid_utf8 []"
  by (simp add: valid_utf8.simps)

lemma decode_rune_Cons_ascii [simp]:
  "byte_val c < 0x80 \<Longrightarrow> decode_rune (c # s) = Some (byte_val c, 1)"
  by (simp add: decode_rune_def)

lemma decode_rune_wide:
  assumes "decode_rune (c # s) = Some (r, n)" and "\<not> byte_val c < 0x80"
  shows "0x80 \<le> r \<and> list_all (\<lambda>x. \<not> byte_val x < 0x80) (take n (c # s))"
proof -
  let ?bs = "byte_val c # map of_char (take 3 s)"
  have d: "decode_bytes ?bs = Some (r, n)"
    using assms(1) by (simp add: decode_rune_def)
  then have w: "0x80 \<le> r" "\<forall>x \<in> set (take n ?bs). 0x80 \<le> x"
    using decode_bytes_wide assms(2) by blast+
  have "n \<le> length ?bs"
    using decode_bytes_size [OF d] by blast
  then have n4: "n \<le> 4" by simp
  have "take n ?bs = take n (map of_char (take 4 (c # s)))"
    by simp
  also have "\<dots> = map of_char (take n (c # s))"
    using n4 by (simp only: take_map take_take min_absorb1)
  finally have "\<forall>x \<in> set (take n (c # s)). (0x80 :: nat) \<le> of_char x"
    using w(2) by simp
  with w(1) show ?thesis
    by (simp add: list_all_iff not_less)
qed

lemma runes_Cons_ascii [simp]: "byte_val c < 0x80 \<Longrightarrow> runes (c # s) = byte_val c # runes s"
  by (subst runes.simps) simp

lemma valid_utf8_Cons_ascii [simp]: "byte_val c < 0x80 \<Longrightarrow> valid_utf8 (c # s) = valid_utf8 s"
  by (subst valid_utf8.simps) simp

section \<open>Rune loops as byte loops\<close>

text \<open>
  The induction every lemma on \<open>runes\<close> uses: the string is empty, starts with an ASCII byte, or
  starts with a chunk of \<open>n > 0\<close> bytes outside ASCII that stands for one rune outside ASCII.
\<close>

lemma runes_chunk_induct [case_names Nil ascii wide]:
  assumes "P []"
    and "\<And>c s. byte_val c < 0x80 \<Longrightarrow> P s \<Longrightarrow> P (c # s)"
    and "\<And>s n r. 0 < n \<Longrightarrow> n \<le> length s \<Longrightarrow> list_all (\<lambda>x. \<not> byte_val x < 0x80) (take n s) \<Longrightarrow>
           0x80 \<le> r \<Longrightarrow> runes s = r # runes (drop n s) \<Longrightarrow> P (drop n s) \<Longrightarrow> P s"
  shows "P s"
proof (induction s rule: length_induct)
  case (1 s)
  show ?case
  proof (cases s)
    case Nil
    with assms(1) show ?thesis by simp
  next
    case (Cons c t)
    show ?thesis
    proof (cases "byte_val c < 0x80")
      case True
      with Cons "1" show ?thesis by (simp add: assms(2))
    next
      case wide: False
      show ?thesis
      proof (cases "decode_rune s")
        case None
        with Cons have eq: "runes s = rune_error # runes (drop 1 s)"
          by (subst runes.simps) simp
        have "P (drop 1 s)" using "1" Cons by simp
        then show ?thesis
          using assms(3) [of 1 s rune_error] wide eq Cons by simp
      next
        case (Some rn)
        obtain r n where rn: "rn = (r, n)" by (cases rn)
        with Some have size: "0 < n" "n \<le> length s"
          using decode_rune_size by blast+
        from rn Some Cons have eq: "runes s = r # runes (drop n s)"
          by (subst runes.simps) simp
        from size have "P (drop n s)" using "1" by simp
        moreover have "0x80 \<le> r \<and> list_all (\<lambda>x. \<not> byte_val x < 0x80) (take n s)"
          using decode_rune_wide [of c t r n] Some rn Cons wide by simp
        ultimately show ?thesis
          using assms(3) [of n s r] size eq by blast
      qed
    qed
  qed
qed

lemma runes_all_ascii:
  assumes "\<And>r. 0x80 \<le> r \<Longrightarrow> \<not> P r"
  shows "list_all P (runes s) \<longleftrightarrow> list_all (\<lambda>c. P (byte_val c)) s"
proof (induction s rule: runes_chunk_induct)
  case (wide s n r)
  then obtain c t where s: "s = c # t" by (cases s) auto
  with wide have "\<not> byte_val c < 0x80" by (cases n) auto
  with assms have "\<not> P (byte_val c)" by simp
  then show ?case using wide s assms by simp
qed auto

lemma runes_all_wide:
  assumes "\<And>r. 0x80 \<le> r \<Longrightarrow> P r"
  shows "list_all P (runes s) \<longleftrightarrow> list_all (\<lambda>c. P (byte_val c)) s"
proof (induction s rule: runes_chunk_induct)
  case (wide s n r)
  then have "list_all (\<lambda>c. P (byte_val c)) (take n s)"
    by (auto simp: assms not_less elim!: list_all_mono_on)
  then show ?case
    using wide by (simp add: assms list_all_conv_drop_take [of _ s n])
qed auto

section \<open>Encoding\<close>

definition valid_rune :: "nat \<Rightarrow> bool" where
  "valid_rune r = (r < 0xD800 \<or> (0xDFFF < r \<and> r \<le> 0x10FFFF))"

definition encode_valid :: "nat \<Rightarrow> nat list" where
  "encode_valid r =
     (if r < 0x80 then [r]
      else if r < 0x800 then [0xC0 + r div 64, 0x80 + r mod 64]
      else if r < 0x10000 then [0xE0 + r div 4096, 0x80 + r div 64 mod 64, 0x80 + r mod 64]
      else [0xF0 + r div 262144, 0x80 + r div 4096 mod 64, 0x80 + r div 64 mod 64, 0x80 + r mod 64])"

definition encode_rune :: "nat \<Rightarrow> bytes" where
  "encode_rune r = map char_of (encode_valid (if valid_rune r then r else rune_error))"

lemma encode_valid_bytes:
  assumes "r \<le> 0x10FFFF" and "b \<in> set (encode_valid r)"
  shows "b < 256"
proof -
  have "r div 64 < 32" if "r < 0x800" using that by (simp add: div_less_iff_less_mult)
  moreover have "r div 4096 < 16" if "r < 0x10000" using that by (simp add: div_less_iff_less_mult)
  moreover have "r div 262144 < 5" using assms(1) by (simp add: div_less_iff_less_mult)
  moreover have "x mod 64 < 64" for x :: nat by simp
  moreover have "0x80 + x mod 64 < 256" for x :: nat
    using mod_less_divisor [of 64 x] by linarith
  ultimately show ?thesis
    using assms(2) by (auto simp: encode_valid_def split: if_splits)
qed

lemma rune_div64: fixes r :: nat shows "r div 64 = (r div 262144 * 64 + r div 4096 mod 64) * 64 + r div 64 mod 64"
proof -
  have q: "r div 4096 * 64 + r div 64 mod 64 = r div 64"
    using div_mult_mod_eq [of "r div 64" 64] by (simp add: div_mult2_eq [symmetric])
  have q': "r div 262144 * 64 + r div 4096 mod 64 = r div 4096"
    using div_mult_mod_eq [of "r div 4096" 64] by (simp add: div_mult2_eq [symmetric])
  show ?thesis by (simp only: q q')
qed

lemma rune_digits_2: assumes "128 \<le> r" "r < 2048" "r = ((d * 64 + c) * 64 + b) * 64 + a" "(a::nat) < 64" "b < 64" "c < 64"
 shows "d = 0 \<and> c = 0 \<and> 2 \<le> b \<and> b \<le> 31"
proof -
  have e: "r = d * 262144 + c * 4096 + b * 64 + a" using assms by (simp add: algebra_simps)
  have d: "d = 0" using assms(2) e by (cases d) auto
  have c: "c = 0" using assms(2) e by (cases c) auto
  have e2: "r = b * 64 + a" using e c d by simp
  have "2 \<le> b" "b \<le> 31" using assms(1,2,4) e2 by linarith+
  then show ?thesis using c d by blast
qed

lemma rune_digits_3: assumes "2048 \<le> r" "r < 65536" "r = ((d * 64 + c) * 64 + b) * 64 + a" "(a::nat) < 64" "b < 64" "c < 64"
 shows "d = 0 \<and> c \<le> 15 \<and> (c = 0 \<longrightarrow> 0x20 \<le> b) \<and> (r < 0xD800 \<longrightarrow> c = 13 \<longrightarrow> b < 0x20) \<and> (0xDFFF < r \<longrightarrow> c \<noteq> 13)"
proof -
  have e: "r = d * 262144 + c * 4096 + b * 64 + a" using assms by (simp add: algebra_simps)
  have d: "d = 0" using assms(2) e by (cases d) auto
  have e2: "r = c * 4096 + b * 64 + a" using e d by simp
  have "c \<le> 15" using assms e2 by linarith
  moreover have "c = 0 \<longrightarrow> 0x20 \<le> b" using assms(1,4) e2 by auto
  moreover have "r < 0xD800 \<longrightarrow> c = 13 \<longrightarrow> b < 0x20" using e2 by auto
  moreover have "0xDFFF < r \<longrightarrow> c \<noteq> 13" using assms(4,5) e2 by auto
  ultimately show ?thesis using d by blast
qed

lemma rune_digits_4: assumes "65536 \<le> r" "r \<le> 0x10FFFF" "r = ((d * 64 + c) * 64 + b) * 64 + a" "(a::nat) < 64" "b < 64" "c < 64"
 shows "d \<le> 4 \<and> (d = 0 \<longrightarrow> 0x10 \<le> c) \<and> (d = 4 \<longrightarrow> c < 0x10)"
proof -
  have e: "r = d * 262144 + c * 4096 + b * 64 + a" using assms by (simp add: algebra_simps)
  have "d \<le> 4" using assms(2) e by linarith
  moreover have "d = 0 \<longrightarrow> 0x10 \<le> c" using assms(1,4,5) e by auto
  moreover have "d = 4 \<longrightarrow> c < 0x10" using assms(2) e by auto
  ultimately show ?thesis by blast
qed

text \<open>The base-64 digits of a code point, as its encodings spell them.\<close>

lemma rune_digits:
  fixes r :: nat
  obtains a b c d where "r div 64 = (d * 64 + c) * 64 + b" "r mod 64 = a" "r div 64 mod 64 = b"
    "r div 4096 = d * 64 + c" "r div 4096 mod 64 = c" "r div 262144 = d"
    "r = ((d * 64 + c) * 64 + b) * 64 + a" "a < 64" "b < 64" "c < 64"
proof
  show "r div 64 = (r div 262144 * 64 + r div 4096 mod 64) * 64 + r div 64 mod 64"
    by (rule rune_div64)
  then show "r = ((r div 262144 * 64 + r div 4096 mod 64) * 64 + r div 64 mod 64) * 64 + r mod 64"
    using div_mult_mod_eq [of r 64] by metis
  show "r div 4096 = r div 262144 * 64 + r div 4096 mod 64"
    using div_mult_mod_eq [of "r div 4096" 64] by (simp add: div_mult2_eq [symmetric])
qed simp_all

lemma decode_encode_valid:
  assumes "valid_rune r"
  shows "decode_bytes (encode_valid r @ t) = Some (r, length (encode_valid r))"
proof -
  obtain a b c d where digits: "r div 64 = (d * 64 + c) * 64 + b" "r mod 64 = a"
      "r div 64 mod 64 = b" "r div 4096 = d * 64 + c" "r div 4096 mod 64 = c" "r div 262144 = d"
    and r: "r = ((d * 64 + c) * 64 + b) * 64 + a" and lt: "a < 64" "b < 64" "c < 64"
    by (rule rune_digits)
  consider "r < 0x80" | "0x80 \<le> r" "r < 0x800" | "0x800 \<le> r" "r < 0x10000"
    | "0x10000 \<le> r" "r \<le> 0x10FFFF"
    using assms unfolding valid_rune_def by linarith
  then show ?thesis
  proof cases
    case 1
    then show ?thesis by (simp add: encode_valid_def)
  next
    case 2
    with rune_digits_2 [OF _ _ r lt] have z: "d = 0" "c = 0" "2 \<le> b" "b \<le> 31" by blast+
    have "encode_valid r = [0xC0 + b, 0x80 + a]"
      using 2 by (simp add: encode_valid_def digits(2) digits(1) z)
    then show ?thesis
      using z lt by (simp add: between_def cont_byte_def r)
  next
    case 3
    with rune_digits_3 [OF _ _ r lt] assms
    have z: "d = 0" "c \<le> 15" "c = 0 \<Longrightarrow> 0x20 \<le> b" and s: "c = 13 \<Longrightarrow> b < 0x20"
      unfolding valid_rune_def by blast+
    have "encode_valid r = [0xE0 + c, 0x80 + b, 0x80 + a]"
      using 3 by (simp add: encode_valid_def digits(2,3,4) z(1))
    then show ?thesis
      using z s lt by (auto simp: between_def cont_byte_def r)
  next
    case 4
    with rune_digits_4 [OF _ _ r lt] have z: "d \<le> 4" "d = 0 \<Longrightarrow> 0x10 \<le> c" "d = 4 \<Longrightarrow> c < 0x10"
      by blast+
    have "encode_valid r = [0xF0 + d, 0x80 + c, 0x80 + b, 0x80 + a]"
      using 4 by (simp add: encode_valid_def digits(2,3,5,6))
    then show ?thesis
      using z lt by (auto simp: between_def cont_byte_def r)
  qed
qed

lemma length_encode_valid: "0 < length (encode_valid r) \<and> length (encode_valid r) \<le> 4"
  by (simp add: encode_valid_def)

lemma length_encode_rune: "0 < length (encode_rune r) \<and> length (encode_rune r) \<le> 4"
  using length_encode_valid by (simp only: encode_rune_def length_map)

lemma decode_rune_encode:
  assumes "valid_rune r"
  shows "decode_rune (encode_rune r @ s) = Some (r, length (encode_rune r))"
proof -
  have le: "r \<le> 0x10FFFF" using assms by (auto simp: valid_rune_def)
  have "map of_char (map char_of (encode_valid r) :: bytes) = encode_valid r"
    using encode_valid_bytes [OF le] by (simp add: map_idI)
  moreover have "take 4 (encode_rune r @ s) = encode_rune r @ take (4 - length (encode_rune r)) s"
    using length_encode_rune [of r] by simp
  ultimately show ?thesis
    using assms by (simp add: decode_rune_def encode_rune_def decode_encode_valid)
qed

lemma encode_rune_not_Nil [simp]: "encode_rune r \<noteq> []"
  by (simp add: encode_rune_def encode_valid_def)

lemma runes_encode [simp]: "valid_rune r \<Longrightarrow> runes (encode_rune r @ s) = r # runes s"
  by (subst runes.simps) (simp add: decode_rune_encode)

lemma valid_utf8_encode_append [simp]:
  "valid_utf8 (encode_rune r @ s) \<longleftrightarrow> valid_utf8 s"
proof -
  have "encode_rune r = encode_rune (if valid_rune r then r else rune_error)"
    by (simp add: encode_rune_def valid_rune_def)
  moreover have "valid_rune (if valid_rune r then r else rune_error)"
    by (simp add: valid_rune_def)
  ultimately show ?thesis
    by (subst valid_utf8.simps) (metis append_eq_conv_conj append_is_Nil_conv case_prod_conv
        decode_rune_encode encode_rune_not_Nil option.simps(5))
qed

text \<open>A valid string is the concatenation of its runes' encodings.\<close>

fun encode_runes :: "nat list \<Rightarrow> bytes" where
  "encode_runes [] = []"
| "encode_runes (r # rs) = encode_rune r @ encode_runes rs"

lemma valid_utf8_encode_runes [simp]: "valid_utf8 (encode_runes rs)"
  by (induction rs) auto

lemma runes_encode_runes: "list_all valid_rune rs \<Longrightarrow> runes (encode_runes rs) = rs"
  by (induction rs) auto

text \<open>
  Decoding accepts only what encoding writes, so a valid string is the encoding of its runes.
\<close>

lemma digit64:
  fixes a z :: nat
  assumes "z < 64"
  shows "(a * 64 + z) div 64 = a" and "(a * 64 + z) mod 64 = z"
  using assms by simp_all

text \<open>The three- and four-byte forms, over the digits that their bytes carry.\<close>

lemma encode_three:
  assumes "x \<le> 15" "y < 64" "z < 64" "x = 0 \<Longrightarrow> 32 \<le> y" "x = 13 \<Longrightarrow> y < 32" and r: "r = (x * 64 + y) * 64 + z"
  shows "valid_rune r \<and> encode_valid r = [0xE0 + x, 0x80 + y, 0x80 + z]"
proof -
  have lin: "r = x * 4096 + y * 64 + z" using r by (simp add: algebra_simps)
  have size: "0x800 \<le> r" "r < 0x10000"
    using lin assms(1-4) by linarith+
  have "x < 13 \<or> x = 13 \<or> 14 \<le> x" by linarith
  then have "r < 0xD800 \<or> 0xDFFF < r"
    using lin assms(2,3,5) by (elim disjE) linarith+
  with size have v: "valid_rune r" unfolding valid_rune_def by linarith
  have q: "r div 64 = x * 64 + y" "r mod 64 = z" unfolding r by (rule digit64 [OF assms(3)])+
  have "r div 4096 = r div 64 div 64" by (simp add: div_mult2_eq [symmetric])
  then have "r div 4096 = x" "r div 64 mod 64 = y" using q assms(2) by simp_all
  with size v q show ?thesis by (simp add: encode_valid_def)
qed

lemma encode_four:
  assumes "w \<le> 4" "x < 64" "y < 64" "z < 64" "w = 0 \<Longrightarrow> 16 \<le> x" "w = 4 \<Longrightarrow> x < 16"
    and r: "r = ((w * 64 + x) * 64 + y) * 64 + z"
  shows "valid_rune r \<and> encode_valid r = [0xF0 + w, 0x80 + x, 0x80 + y, 0x80 + z]"
proof -
  have lin: "r = w * 262144 + x * 4096 + y * 64 + z" using r by (simp add: algebra_simps)
  have size: "0x10000 \<le> r" "r \<le> 0x10FFFF"
    using lin assms(1-6) by linarith+
  have q: "r div 64 = (w * 64 + x) * 64 + y" "r mod 64 = z" unfolding r by (rule digit64 [OF assms(4)])+
  have q1: "r div 64 mod 64 = y" unfolding q by (rule digit64 [OF assms(3)])
  have "r div 4096 = r div 64 div 64" by (simp add: div_mult2_eq [symmetric])
  then have q2: "r div 4096 = w * 64 + x" unfolding q by (simp only: digit64 [OF assms(3)])
  then have q3: "r div 4096 mod 64 = x" by (simp only: digit64 [OF assms(2)])
  have "r div 262144 = r div 4096 div 64" by (simp add: div_mult2_eq [symmetric])
  then have "r div 262144 = w" unfolding q2 by (simp only: digit64 [OF assms(2)])
  with size q q1 q3 show ?thesis by (simp add: encode_valid_def valid_rune_def)
qed

lemma decode_bytes_canonical:
  assumes "decode_bytes bs = Some (r, n)"
  shows "valid_rune r \<and> take n bs = encode_valid r \<and> n = length (encode_valid r)"
proof -
  from assms obtain b0 t where bs: "bs = b0 # t" by (cases bs) auto
  consider "b0 < 0x80" | "\<not> b0 < 0x80" "between 0xC2 0xDF b0"
    | "\<not> b0 < 0x80" "\<not> between 0xC2 0xDF b0" "between 0xE0 0xEF b0"
    | "\<not> b0 < 0x80" "\<not> between 0xC2 0xDF b0" "\<not> between 0xE0 0xEF b0" "between 0xF0 0xF4 b0"
    using assms bs by (auto split: if_splits)
  then show ?thesis
  proof cases
    case 1
    with assms bs show ?thesis by (auto simp: valid_rune_def encode_valid_def)
  next
    case 2
    with assms bs obtain b1 u where t: "t = b1 # u" "cont_byte b1" "n = 2"
        "r = (b0 - 0xC0) * 64 + (b1 - 0x80)"
      by (auto split: list.splits if_splits)
    define x y where "x = b0 - 0xC0" and "y = b1 - 0x80"
    have xy: "b0 = 0xC0 + x" "b1 = 0x80 + y" "2 \<le> x" "x \<le> 31" "y < 64" "r = x * 64 + y"
      using 2 t by (auto simp: x_def y_def between_def cont_byte_def)
    then have "r < 0x800" "0x80 \<le> r" by simp_all
    with xy show ?thesis
      by (simp add: bs t(1,3) valid_rune_def encode_valid_def)
  next
    case 3
    with assms bs obtain b1 b2 u where t: "t = b1 # b2 # u" "n = 3"
        "between (if b0 = 0xE0 then 0xA0 else 0x80) (if b0 = 0xED then 0x9F else 0xBF) b1"
        "cont_byte b2" "r = (b0 - 0xE0) * 4096 + (b1 - 0x80) * 64 + (b2 - 0x80)"
      by (auto split: list.splits if_splits)
    then show ?thesis
      using 3 encode_three [of "b0 - 0xE0" "b1 - 0x80" "b2 - 0x80" r]
      by (auto simp: bs between_def cont_byte_def algebra_simps split: if_splits)
  next
    case 4
    with assms bs obtain b1 b2 b3 u where t: "t = b1 # b2 # b3 # u" "n = 4"
        "between (if b0 = 0xF0 then 0x90 else 0x80) (if b0 = 0xF4 then 0x8F else 0xBF) b1"
        "cont_byte b2" "cont_byte b3"
        "r = (b0 - 0xF0) * 262144 + (b1 - 0x80) * 4096 + (b2 - 0x80) * 64 + (b3 - 0x80)"
      by (auto split: list.splits if_splits)
    then show ?thesis
      using 4 encode_four [of "b0 - 0xF0" "b1 - 0x80" "b2 - 0x80" "b3 - 0x80" r]
      by (auto simp: bs between_def cont_byte_def algebra_simps split: if_splits)
  qed
qed

lemma decode_rune_canonical:
  assumes "decode_rune s = Some (r, n)"
  shows "valid_rune r" and "take n s = encode_rune r" and "n = length (encode_rune r)"
proof -
  have d: "decode_bytes (map of_char (take 4 s)) = Some (r, n)"
    using assms by (simp add: decode_rune_def)
  note c = decode_bytes_canonical [OF d]
  then show v: "valid_rune r" by blast
  have "n \<le> 4" using decode_bytes_size [OF d] by simp
  then have t: "map of_char (take n s) = encode_valid r"
    using c by (metis min_absorb1 take_map take_take)
  have "take n s = map char_of (map of_char (take n s) :: nat list)"
    by (simp add: o_def)
  then show "take n s = encode_rune r" by (simp only: t encode_rune_def v if_True)
  then show "n = length (encode_rune r)"
    using c by (simp add: encode_rune_def v)
qed

lemma valid_utf8_runes:
  "valid_utf8 s \<Longrightarrow> encode_runes (runes s) = s \<and> list_all valid_rune (runes s)"
proof (induction s rule: valid_utf8.induct)
  case (1 s)
  show ?case
  proof (cases "s = []")
    case True
    then show ?thesis by simp
  next
    case False
    with "1.prems" obtain r n where d: "decode_rune s = Some (r, n)" and v: "valid_utf8 (drop n s)"
      by (subst (asm) valid_utf8.simps) (auto split: option.splits)
    with "1.IH" False have IH: "encode_runes (runes (drop n s)) = drop n s"
      "list_all valid_rune (runes (drop n s))" by auto
    have "runes s = r # runes (drop n s)"
      using d False by (subst runes.simps) simp
    then show ?thesis
      using IH decode_rune_canonical(1,2) [OF d] by (metis append_take_drop_id encode_runes.simps(2) list.pred_inject(2))
  qed
qed

end
