(* ===== verification/Encodings.thy ===== *)
theory Encodings
  imports Utf8
begin

text \<open>
  The text encodings the program reads and writes: decimal integers (\<^verbatim>\<open>strconv.ParseInt\<close>,
  \<^verbatim>\<open>strconv.ParseUint\<close>), hexadecimal (\<^verbatim>\<open>encoding/hex\<close>) and base64 (\<^verbatim>\<open>encoding/base64\<close>,
  the standard padded and the raw URL alphabets, in strict mode), with their round trips.
\<close>

section \<open>Decimal integers\<close>

definition digit_val :: "char \<Rightarrow> nat option" where
  "digit_val c = (let n = byte_val c in if 48 \<le> n \<and> n \<le> 57 then Some (n - 48) else None)"

definition digit_char :: "nat \<Rightarrow> char" where
  "digit_char d = char_of (48 + d)"

fun digits_val :: "nat \<Rightarrow> bytes \<Rightarrow> nat option" where
  "digits_val acc [] = Some acc"
| "digits_val acc (c # s) =
     (case digit_val c of None \<Rightarrow> None | Some d \<Rightarrow> digits_val (acc * 10 + d) s)"

text \<open>\<^verbatim>\<open>ParseUint(s, 10, w)\<close>: a non-empty run of digits whose value fits in \<open>w\<close> bits.\<close>

definition parse_uint :: "nat \<Rightarrow> bytes \<Rightarrow> nat option" where
  "parse_uint w s =
     (if s = [] then None
      else (case digits_val 0 s of
              None \<Rightarrow> None
            | Some n \<Rightarrow> if n < 2 ^ w then Some n else None))"

text \<open>\<^verbatim>\<open>ParseInt(s, 10, w)\<close>: an optional sign, then digits within the range of the width.\<close>

definition parse_int :: "nat \<Rightarrow> bytes \<Rightarrow> int option" where
  "parse_int w s =
     (let (neg, t) = (case s of
                        [] \<Rightarrow> (False, s)
                      | c # r \<Rightarrow> if c = CHR ''+'' then (False, r)
                                 else if c = CHR ''-'' then (True, r) else (False, s))
      in if t = [] then None
         else (case digits_val 0 t of
                 None \<Rightarrow> None
               | Some n \<Rightarrow>
                   if neg then (if n \<le> 2 ^ (w - 1) then Some (- int n) else None)
                   else (if n < 2 ^ (w - 1) then Some (int n) else None)))"

fun show_nat :: "nat \<Rightarrow> bytes" where
  "show_nat n = (if n < 10 then [digit_char n] else show_nat (n div 10) @ [digit_char (n mod 10)])"

declare show_nat.simps [simp del]

lemma digit_val_char [simp]: "d < 10 \<Longrightarrow> digit_val (digit_char d) = Some d"
  by (simp add: digit_val_def digit_char_def)

lemma digits_val_append:
  "digits_val acc (s @ t) = (case digits_val acc s of None \<Rightarrow> None | Some a \<Rightarrow> digits_val a t)"
  by (induction s arbitrary: acc) (auto split: option.splits)

lemma digits_val_show_nat [simp]: "digits_val 0 (show_nat n) = Some n"
proof (induction n rule: show_nat.induct)
  case (1 n)
  show ?case
  proof (cases "n < 10")
    case True
    then show ?thesis by (simp add: show_nat.simps [of n])
  next
    case False
    with "1.IH" have "digits_val 0 (show_nat (n div 10)) = Some (n div 10)" by simp
    with False show ?thesis
      by (simp add: show_nat.simps [of n] digits_val_append)
  qed
qed

lemma show_nat_not_Nil [simp]: "show_nat n \<noteq> []"
  by (subst show_nat.simps) simp

lemma parse_uint_show_nat [simp]: "n < 2 ^ w \<Longrightarrow> parse_uint w (show_nat n) = Some n"
  by (simp add: parse_uint_def)

lemma show_nat_inj: "show_nat m = show_nat n \<longleftrightarrow> m = n"
  by (metis digits_val_show_nat option.inject)

lemma parse_uint_bound: "parse_uint w s = Some n \<Longrightarrow> n < 2 ^ w"
  by (auto simp: parse_uint_def split: if_splits option.splits)

section \<open>Hexadecimal\<close>

definition hex_char :: "nat \<Rightarrow> char" where
  "hex_char d = (if d < 10 then char_of (48 + d) else char_of (87 + d))"

definition hex_val :: "char \<Rightarrow> nat option" where
  "hex_val c =
     (let n = byte_val c
      in if 48 \<le> n \<and> n \<le> 57 then Some (n - 48)
         else if 97 \<le> n \<and> n \<le> 102 then Some (n - 87)
         else if 65 \<le> n \<and> n \<le> 70 then Some (n - 55) else None)"

definition hex_encode :: "bytes \<Rightarrow> bytes" where
  "hex_encode s = concat (map (\<lambda>c. [hex_char (byte_val c div 16), hex_char (byte_val c mod 16)]) s)"

fun hex_decode :: "bytes \<Rightarrow> bytes option" where
  "hex_decode [] = Some []"
| "hex_decode [c] = None"
| "hex_decode (a # b # s) =
     (case (hex_val a, hex_val b, hex_decode s) of
        (Some x, Some y, Some t) \<Rightarrow> Some (char_of (16 * x + y) # t)
      | _ \<Rightarrow> None)"

lemma hex_val_char [simp]: "d < 16 \<Longrightarrow> hex_val (hex_char d) = Some d"
  by (auto simp: hex_val_def hex_char_def)

lemma hex_encode_simps [simp]:
  "hex_encode [] = []"
  "hex_encode (c # s) = hex_char (byte_val c div 16) # hex_char (byte_val c mod 16) # hex_encode s"
  by (simp_all add: hex_encode_def)

lemma byte_val_div16: "byte_val c div 16 < 16"
  by (rule less_mult_imp_div_less) simp

lemma hex_decode_encode [simp]: "hex_decode (hex_encode s) = Some s"
  by (induction s) (simp_all add: byte_val_div16)

lemma length_hex_encode [simp]: "length (hex_encode s) = 2 * length s"
  by (induction s) simp_all

lemma hex_encode_inj [simp]: "hex_encode s = hex_encode t \<longleftrightarrow> s = t"
  by (metis hex_decode_encode option.inject)

lemma hex_char_range: "d < 16 \<Longrightarrow> hex_char d \<in> set ''0123456789abcdef''"
proof -
  have "\<forall>d \<in> set [0..<16]. hex_char d \<in> set ''0123456789abcdef''" by code_simp
  then show "d < 16 \<Longrightarrow> hex_char d \<in> set ''0123456789abcdef''" by auto
qed

lemma hex_encode_chars: "set (hex_encode s) \<subseteq> set ''0123456789abcdef''"
proof (induction s)
  case (Cons c s)
  then show ?case
    using hex_char_range [OF byte_val_div16 [of c]] hex_char_range [of "byte_val c mod 16"]
    by (simp only: hex_encode_simps list.set(2) insert_subset simp_thms mod_less_divisor zero_less_numeral)
qed simp

section \<open>Base64\<close>

text \<open>
  Both alphabets share their first 62 digits and differ in the last two. Go's decoders skip
  carriage returns and line feeds anywhere in the text; strict mode also demands that the bits
  left over in the last digit are zero.
\<close>

definition b64_char :: "char \<Rightarrow> char \<Rightarrow> nat \<Rightarrow> char" where
  "b64_char c62 c63 d =
     (if d < 26 then char_of (65 + d) else if d < 52 then char_of (71 + d)
      else if d < 62 then char_of (d - 4) else if d = 62 then c62 else c63)"

definition b64_val :: "char \<Rightarrow> char \<Rightarrow> char \<Rightarrow> nat option" where
  "b64_val c62 c63 c =
     (let n = byte_val c
      in if 65 \<le> n \<and> n \<le> 90 then Some (n - 65)
         else if 97 \<le> n \<and> n \<le> 122 then Some (n - 71)
         else if 48 \<le> n \<and> n \<le> 57 then Some (n + 4)
         else if c = c62 then Some 62 else if c = c63 then Some 63 else None)"

fun b64_encode :: "(nat \<Rightarrow> char) \<Rightarrow> bytes \<Rightarrow> bytes \<Rightarrow> bytes" where
  "b64_encode e pad [] = []"
| "b64_encode e pad [a] =
     (let x = byte_val a in [e (x div 4), e (x mod 4 * 16)] @ pad @ pad)"
| "b64_encode e pad [a, b] =
     (let x = byte_val a; y = byte_val b
      in [e (x div 4), e (x mod 4 * 16 + y div 16), e (y mod 16 * 4)] @ pad)"
| "b64_encode e pad (a # b # c # s) =
     (let x = byte_val a; y = byte_val b; z = byte_val c
      in [e (x div 4), e (x mod 4 * 16 + y div 16), e (y mod 16 * 4 + z div 64), e (z mod 64)]
           @ b64_encode e pad s)"

text \<open>The digits of the last group, strict: the unused low bits are zero.\<close>

definition b64_last2 :: "nat option \<Rightarrow> nat option \<Rightarrow> bytes option" where
  "b64_last2 p q =
     (case (p, q) of
        (Some p, Some q) \<Rightarrow> if q mod 16 = 0 then Some [char_of (p * 4 + q div 16)] else None
      | _ \<Rightarrow> None)"

definition b64_last3 :: "nat option \<Rightarrow> nat option \<Rightarrow> nat option \<Rightarrow> bytes option" where
  "b64_last3 p q r =
     (case (p, q, r) of
        (Some p, Some q, Some r) \<Rightarrow>
          if r mod 4 = 0
          then Some [char_of (p * 4 + q div 16), char_of (q mod 16 * 16 + r div 4)] else None
      | _ \<Rightarrow> None)"

definition b64_full :: "nat option \<Rightarrow> nat option \<Rightarrow> nat option \<Rightarrow> nat option \<Rightarrow> bytes option" where
  "b64_full p q r u =
     (case (p, q, r, u) of
        (Some p, Some q, Some r, Some u) \<Rightarrow>
          Some [char_of (p * 4 + q div 16), char_of (q mod 16 * 16 + r div 4), char_of (r mod 4 * 64 + u)]
      | _ \<Rightarrow> None)"

definition opt_append :: "bytes option \<Rightarrow> bytes option \<Rightarrow> bytes option" where
  "opt_append x y = (case (x, y) of (Some a, Some b) \<Rightarrow> Some (a @ b) | _ \<Rightarrow> None)"

fun b64_decode_pad :: "(char \<Rightarrow> nat option) \<Rightarrow> bytes \<Rightarrow> bytes option" where
  "b64_decode_pad v [] = Some []"
| "b64_decode_pad v (a # b # c # d # s) =
     (if c = CHR ''='' \<and> d = CHR ''='' \<and> s = [] then b64_last2 (v a) (v b)
      else if d = CHR ''='' \<and> s = [] then b64_last3 (v a) (v b) (v c)
      else opt_append (b64_full (v a) (v b) (v c) (v d)) (b64_decode_pad v s))"
| "b64_decode_pad v s = None"

fun b64_decode_raw :: "(char \<Rightarrow> nat option) \<Rightarrow> bytes \<Rightarrow> bytes option" where
  "b64_decode_raw v [] = Some []"
| "b64_decode_raw v [a] = None"
| "b64_decode_raw v [a, b] = b64_last2 (v a) (v b)"
| "b64_decode_raw v [a, b, c] = b64_last3 (v a) (v b) (v c)"
| "b64_decode_raw v (a # b # c # d # s) =
     opt_append (b64_full (v a) (v b) (v c) (v d)) (b64_decode_raw v s)"

definition no_newlines :: "bytes \<Rightarrow> bytes" where
  "no_newlines s = filter (\<lambda>c. c \<noteq> CHR 0x0A \<and> c \<noteq> CHR 0x0D) s"

definition std_encode :: "bytes \<Rightarrow> bytes" where
  "std_encode = b64_encode (b64_char CHR ''+'' CHR ''/'') ''=''"

definition std_decode_strict :: "bytes \<Rightarrow> bytes option" where
  "std_decode_strict s = b64_decode_pad (b64_val CHR ''+'' CHR ''/'') (no_newlines s)"

definition rawurl_encode :: "bytes \<Rightarrow> bytes" where
  "rawurl_encode = b64_encode (b64_char CHR ''-'' CHR ''_'') []"

definition rawurl_decode_strict :: "bytes \<Rightarrow> bytes option" where
  "rawurl_decode_strict s = b64_decode_raw (b64_val CHR ''-'' CHR ''_'') (no_newlines s)"

lemma b64_val_std: "d < 64 \<Longrightarrow> b64_val CHR ''+'' CHR ''/'' (b64_char CHR ''+'' CHR ''/'' d) = Some d"
  by (auto simp: b64_val_def b64_char_def Let_def)

lemma b64_val_url: "d < 64 \<Longrightarrow> b64_val CHR ''-'' CHR ''_'' (b64_char CHR ''-'' CHR ''_'' d) = Some d"
  by (auto simp: b64_val_def b64_char_def Let_def)

lemma b64_char_val:
  "b64_val c62 c63 c = Some d \<Longrightarrow> d < 64 \<and> b64_char c62 c63 d = c"
  by (auto simp: b64_val_def b64_char_def Let_def split: if_splits)

lemma sextets:
  fixes x y z :: nat
  assumes "x < 256" "y < 256" "z < 256"
  shows "x div 4 * 4 + (x mod 4 * 16 + y div 16) div 16 = x"
    "(x mod 4 * 16 + y div 16) mod 16 * 16 + (y mod 16 * 4 + z div 64) div 4 = y"
    "(y mod 16 * 4 + z div 64) mod 4 * 64 + z mod 64 = z"
    "x div 4 < 64" "x mod 4 * 16 + y div 16 < 64" "y mod 16 * 4 + z div 64 < 64" "z mod 64 < 64"
proof -
  have d: "y div 16 < 16" "z div 64 < 4" "x div 4 < 64"
    using assms by (simp_all add: div_less_iff_less_mult)
  have m: "x mod 4 < 4" "y mod 16 < 16" by simp_all
  show "x div 4 < 64" by (rule d)
  show "x mod 4 * 16 + y div 16 < 64" "y mod 16 * 4 + z div 64 < 64" using d m by linarith+
  show "z mod 64 < 64" by simp
  have "(x mod 4 * 16 + y div 16) div 16 = x mod 4" "(x mod 4 * 16 + y div 16) mod 16 = y div 16"
    "(y mod 16 * 4 + z div 64) div 4 = y mod 16" "(y mod 16 * 4 + z div 64) mod 4 = z div 64"
    using d by simp_all
  then show "x div 4 * 4 + (x mod 4 * 16 + y div 16) div 16 = x"
    "(x mod 4 * 16 + y div 16) mod 16 * 16 + (y mod 16 * 4 + z div 64) div 4 = y"
    "(y mod 16 * 4 + z div 64) mod 4 * 64 + z mod 64 = z"
    by simp_all
qed

text \<open>
  The round trips rest on the alphabet only through the laws below, so they are proved once
  for any alphabet and interpreted for the two the program uses.
\<close>

locale b64_alphabet =
  fixes e :: "nat \<Rightarrow> char" and v :: "char \<Rightarrow> nat option"
  assumes val_enc: "d < 64 \<Longrightarrow> v (e d) = Some d"
    and enc_val: "v c = Some d \<Longrightarrow> d < 64 \<and> e d = c"
    and no_pad: "v CHR ''='' = None"
    and no_lf: "v CHR 0x0A = None"
    and no_cr: "v CHR 0x0D = None"
begin

lemma enc_not_special:
  "d < 64 \<Longrightarrow> e d \<noteq> CHR ''='' \<and> e d \<noteq> CHR 0x0A \<and> e d \<noteq> CHR 0x0D"
  using val_enc [of d] no_pad no_lf no_cr by auto

lemma full_group:
  "b64_full (v (e (byte_val a div 4))) (v (e (byte_val a mod 4 * 16 + byte_val b div 16)))
     (v (e (byte_val b mod 16 * 4 + byte_val c div 64))) (v (e (byte_val c mod 64))) = Some [a, b, c]"
proof -
  have lt: "byte_val a < 256" "byte_val b < 256" "byte_val c < 256" by simp_all
  show ?thesis
    by (simp only: b64_full_def val_enc [OF sextets(4) [OF lt]] val_enc [OF sextets(5) [OF lt]]
        val_enc [OF sextets(6) [OF lt]] val_enc [OF sextets(7) [OF lt]]
        prod.case option.case sextets(1-3) [OF lt] char_of_char)
qed

lemma last3_group:
  "b64_last3 (v (e (byte_val a div 4))) (v (e (byte_val a mod 4 * 16 + byte_val b div 16)))
     (v (e (byte_val b mod 16 * 4))) = Some [a, b]"
proof -
  have lt: "byte_val a < 256" "byte_val b < 256" "(0 :: nat) < 256" by simp_all
  have z: "byte_val b mod 16 * 4 + 0 div 64 = byte_val b mod 16 * 4" by simp
  have m: "byte_val b mod 16 * 4 mod 4 = 0" by simp
  show ?thesis
    by (simp only: b64_last3_def val_enc [OF sextets(4) [OF lt]] val_enc [OF sextets(5) [OF lt]]
        val_enc [OF sextets(6) [OF lt, unfolded z]] m if_True simp_thms
        prod.case option.case sextets(1,2) [OF lt, unfolded z] char_of_char)
qed

lemma last2_group:
  "b64_last2 (v (e (byte_val a div 4))) (v (e (byte_val a mod 4 * 16))) = Some [a]"
proof -
  have lt: "byte_val a < 256" "(0 :: nat) < 256" "(0 :: nat) < 256" by simp_all
  have z: "byte_val a mod 4 * 16 + 0 div 16 = byte_val a mod 4 * 16" by simp
  have m: "byte_val a mod 4 * 16 mod 16 = 0" by simp
  show ?thesis
    by (simp only: b64_last2_def val_enc [OF sextets(4) [OF lt]]
        val_enc [OF sextets(5) [OF lt, unfolded z]] m if_True simp_thms
        prod.case option.case sextets(1) [OF lt, unfolded z] char_of_char)
qed

lemma enc_digit: 
   "e (byte_val c mod 64) \<noteq> CHR ''=''" 
   "e (byte_val b mod 16 * 4) \<noteq> CHR ''=''"
   "e (byte_val b mod 16 * 4 + byte_val c div 64) \<noteq> CHR ''=''"
proof -
  have lt: "(0 :: nat) < 256" "byte_val b < 256" "byte_val c < 256" by simp_all
  show "e (byte_val c mod 64) \<noteq> CHR ''=''" "e (byte_val b mod 16 * 4 + byte_val c div 64) \<noteq> CHR ''=''"
   using sextets(6,7) [OF lt] enc_not_special by blast+
  have "byte_val b mod 16 * 4 < 64" using sextets(6) [OF lt] by linarith
  then show "e (byte_val b mod 16 * 4) \<noteq> CHR ''=''" using enc_not_special by blast
qed

lemma decode_pad_encode: "b64_decode_pad v (b64_encode e ''='' s) = Some s"
proof (induction s rule: chunk3_induct)
  case (chunk a b c s)
  then show ?case
    by (simp add: Let_def enc_digit full_group opt_append_def)
qed (simp_all add: Let_def enc_digit last2_group last3_group)

lemma decode_raw_encode: "b64_decode_raw v (b64_encode e [] s) = Some s"
proof (induction s rule: chunk3_induct)
  case (chunk a b c s)
  then show ?case
    by (simp add: Let_def full_group opt_append_def)
qed (simp_all add: Let_def last2_group last3_group)

lemma no_newlines_group: "no_newlines (e d # s) = e d # no_newlines s" if "d < 64"
  using enc_not_special [OF that] by (simp add: no_newlines_def)

lemma sextet_bounds:
  "byte_val a div 4 < 64" "byte_val a mod 4 * 16 + byte_val b div 16 < 64"
  "byte_val b mod 16 * 4 + byte_val c div 64 < 64" "byte_val c mod 64 < 64"
  "byte_val a mod 4 * 16 < 64" "byte_val b mod 16 * 4 < 64"
proof -
  have lt: "byte_val a < 256" "byte_val b < 256" "byte_val c < 256" by simp_all
  show "byte_val a div 4 < 64" "byte_val a mod 4 * 16 + byte_val b div 16 < 64"
    "byte_val b mod 16 * 4 + byte_val c div 64 < 64" "byte_val c mod 64 < 64"
    by (rule sextets(4-7) [OF lt])+
  then show "byte_val a mod 4 * 16 < 64" "byte_val b mod 16 * 4 < 64" by linarith+
qed

lemma no_newlines_encode:
  "no_newlines pad = pad \<Longrightarrow> no_newlines (b64_encode e pad s) = b64_encode e pad s"
proof (induction s rule: chunk3_induct)
  case (two a b)
  then show ?case
    by (simp only: b64_encode.simps Let_def append_Cons append_Nil no_newlines_group [OF sextet_bounds(1)]
        no_newlines_group [OF sextet_bounds(2)] no_newlines_group [OF sextet_bounds(6)])
next
  case (one a)
  moreover have "no_newlines (pad @ pad) = pad @ pad"
    using one by (simp add: no_newlines_def)
  ultimately show ?case
    by (simp only: b64_encode.simps Let_def append_Cons append_Nil no_newlines_group [OF sextet_bounds(1)]
        no_newlines_group [OF sextet_bounds(5)])
next
  case (chunk a b c s)
  then show ?case
    by (simp only: b64_encode.simps Let_def append_Cons append_Nil no_newlines_group [OF sextet_bounds(1)]
        no_newlines_group [OF sextet_bounds(2)] no_newlines_group [OF sextet_bounds(3)]
        no_newlines_group [OF sextet_bounds(4)])
qed (simp add: no_newlines_def)

end

lemma length_b64_encode_pad:
  "length p = 1 \<Longrightarrow> length (b64_encode e p s) = 4 * ((length s + 2) div 3)"
proof (induction s rule: chunk3_induct)
  case (chunk a b c s)
  have "length (a # b # c # s) + 2 = (length s + 2) + 3" by simp
  then have "(length (a # b # c # s) + 2) div 3 = (length s + 2) div 3 + 1"
    by (simp only: div_add_self2 [of 3 "length s + 2"] zero_neq_numeral [symmetric] not_False_eq_True)
  with chunk show ?case by (simp add: Let_def)
qed (simp_all add: Let_def)

interpretation std64: b64_alphabet "b64_char CHR ''+'' CHR ''/''" "b64_val CHR ''+'' CHR ''/''"
  by unfold_locales (auto simp: b64_val_std dest: b64_char_val, simp_all add: b64_val_def)

interpretation url64: b64_alphabet "b64_char CHR ''-'' CHR ''_''" "b64_val CHR ''-'' CHR ''_''"
  by unfold_locales (auto simp: b64_val_url dest: b64_char_val, simp_all add: b64_val_def)

lemma no_newlines_pads [simp]: "no_newlines [] = []" "no_newlines ''='' = ''=''"
  by (simp_all add: no_newlines_def)

lemma std_decode_encode [simp]: "std_decode_strict (std_encode s) = Some s"
  by (simp add: std_decode_strict_def std_encode_def std64.no_newlines_encode std64.decode_pad_encode)

lemma rawurl_decode_encode [simp]: "rawurl_decode_strict (rawurl_encode s) = Some s"
  by (simp add: rawurl_decode_strict_def rawurl_encode_def url64.no_newlines_encode
      url64.decode_raw_encode)

end
