(* ===== verification/GoPath.thy ===== *)
theory GoPath
  imports Encodings
begin

text \<open>
  Slash-separated paths: \<^verbatim>\<open>path.Clean\<close>, \<^verbatim>\<open>path.IsAbs\<close>, \<^verbatim>\<open>filepath.Dir\<close> and \<^verbatim>\<open>filepath.Rel\<close>
  as the program uses them. The bridge runs on Linux, where \<^verbatim>\<open>path/filepath\<close> and \<^verbatim>\<open>path\<close> agree
  (the separator is the slash and volume names are empty).
\<close>

definition is_abs :: "bytes \<Rightarrow> bool" where
  "is_abs p = has_prefix p ''/''"

text \<open>
  \<^verbatim>\<open>Clean\<close> works on the elements between slashes: empty elements and \<^verbatim>\<open>.\<close> vanish, \<^verbatim>\<open>..\<close>
  removes the element before it, stays in front of a relative path and vanishes at the root. The
  accumulator holds the cleaned elements, last first.
\<close>

fun clean_elems :: "bool \<Rightarrow> bytes list \<Rightarrow> bytes list \<Rightarrow> bytes list" where
  "clean_elems rooted acc [] = rev acc"
| "clean_elems rooted acc (e # es) =
     (if e = [] \<or> e = ''.'' then clean_elems rooted acc es
      else if e = ''..'' then
        (case acc of
           [] \<Rightarrow> clean_elems rooted (if rooted then [] else [''..'']) es
         | a # acc' \<Rightarrow>
             if a = ''..'' then clean_elems rooted (''..'' # acc) es
             else clean_elems rooted acc' es)
      else clean_elems rooted (e # acc) es)"

definition path_clean :: "bytes \<Rightarrow> bytes" where
  "path_clean p =
     (let rooted = is_abs p;
          es = clean_elems rooted [] (split_byte CHR ''/'' p)
      in if rooted then ''/'' @ join_byte CHR ''/'' es
         else if es = [] then ''.'' else join_byte CHR ''/'' es)"

text \<open>\<^verbatim>\<open>filepath.Dir\<close>: everything up to the last slash, cleaned.\<close>

definition path_dir :: "bytes \<Rightarrow> bytes" where
  "path_dir p =
     (case last_index_byte p CHR ''/'' of
        None \<Rightarrow> ''.''
      | Some i \<Rightarrow> path_clean (take (Suc i) p))"

text \<open>
  \<^verbatim>\<open>filepath.Rel(base, target)\<close>: both paths are cleaned; after their longest common prefix of
  elements, one \<^verbatim>\<open>..\<close> for every element left of the base and then the rest of the target.
  \<open>None\<close> is its error: only one of them is absolute, or the rest of the base holds \<^verbatim>\<open>..\<close>.
\<close>

definition path_elems :: "bytes \<Rightarrow> bytes list" where
  "path_elems p = clean_elems (is_abs p) [] (split_byte CHR ''/'' p)"

fun strip_common :: "bytes list \<Rightarrow> bytes list \<Rightarrow> bytes list \<times> bytes list" where
  "strip_common (b # bs) (t # ts) =
     (if b = t then strip_common bs ts else (b # bs, t # ts))"
| "strip_common bs ts = (bs, ts)"

definition path_rel :: "bytes \<Rightarrow> bytes \<Rightarrow> bytes option" where
  "path_rel base target =
     (if is_abs base \<noteq> is_abs target then None
      else (let (bs, ts) = strip_common (path_elems base) (path_elems target)
            in if bs \<noteq> [] \<and> hd bs = ''..'' then None
               else if bs = [] \<and> ts = [] then Some ''.''
               else Some (join_byte CHR ''/'' (map (\<lambda>_. ''..'') bs @ ts))))"

section \<open>What a clean path looks like\<close>

definition plain_elem :: "bytes \<Rightarrow> bool" where
  "plain_elem e = (e \<noteq> [] \<and> e \<noteq> ''.'' \<and> e \<noteq> ''..'' \<and> CHR ''/'' \<notin> set e)"

lemma clean_elems_plain:
  "list_all plain_elem es \<Longrightarrow> clean_elems r acc es = rev acc @ es"
  by (induction es arbitrary: acc) (auto simp: plain_elem_def)

lemma clean_elems_rooted:
  "list_all (\<lambda>e. e \<noteq> [] \<and> e \<noteq> ''.'' \<and> e \<noteq> ''..'') acc \<Longrightarrow>
     list_all (\<lambda>e. e \<noteq> [] \<and> e \<noteq> ''.'' \<and> e \<noteq> ''..'') (clean_elems True acc es)"
  by (induction "True" acc es rule: clean_elems.induct) (auto split: list.splits)

lemma clean_elems_subset: "set (clean_elems r acc es) \<subseteq> insert ''..'' (set acc \<union> set es)"
  by (induction r acc es rule: clean_elems.induct) (auto split: list.splits if_splits)

lemma path_elems_plain: "is_abs p \<Longrightarrow> list_all plain_elem (path_elems p)"
proof -
  assume abs: "is_abs p"
  have "list_all (\<lambda>e. e \<noteq> [] \<and> e \<noteq> ''.'' \<and> e \<noteq> ''..'') (path_elems p)"
    using clean_elems_rooted [of "[]"] abs by (simp add: path_elems_def)
  moreover have "\<forall>e \<in> set (path_elems p). CHR ''/'' \<notin> set e"
    using clean_elems_subset [of "is_abs p" "[]" "split_byte CHR ''/'' p"]
    by (auto simp: path_elems_def dest: split_byte_no_sep)
  ultimately show ?thesis
    by (auto simp: list_all_iff plain_elem_def)
qed

lemma strip_common_split:
  "strip_common bs ts = (bs', ts') \<Longrightarrow> \<exists>c. bs = c @ bs' \<and> ts = c @ ts'"
proof (induction bs ts arbitrary: bs' ts' rule: strip_common.induct)
  case (1 b bs t ts)
  then show ?case
    by (cases "b = t") (fastforce intro: exI [of _ "_ # _"])+
qed auto

lemma split_byte_join:
  "ps \<noteq> [] \<Longrightarrow> list_all (\<lambda>p. c \<notin> set p) ps \<Longrightarrow> split_byte c (join_byte c ps) = ps"
proof (induction ps)
  case (Cons p ps)
  have front: "c \<notin> set p \<Longrightarrow> split_byte c (p @ c # s) = p # split_byte c s" for s
    by (induction p) auto
  have only: "c \<notin> set p \<Longrightarrow> split_byte c p = [p]"
    by (induction p) auto
  show ?case
  proof (cases ps)
    case Nil
    with Cons.prems only show ?thesis by (simp add: join_byte_def)
  next
    case (Cons q qs)
    with Cons.IH Cons.prems front show ?thesis
      by (simp add: join_byte_def)
  qed
qed simp

section \<open>Clean absolute paths\<close>

definition abs_path :: "bytes list \<Rightarrow> bytes" where
  "abs_path es = ''/'' @ join_byte CHR ''/'' es"

lemma abs_path_is_abs [simp]: "is_abs (abs_path es)"
  by (simp add: abs_path_def is_abs_def has_prefix_iff)

lemma split_abs_path:
  "list_all plain_elem es \<Longrightarrow> split_byte CHR ''/'' (abs_path es) = [] # (if es = [] then [[]] else es)"
proof -
  assume es: "list_all plain_elem es"
  have "list_all (\<lambda>p. CHR ''/'' \<notin> set p) es"
    using es by (auto simp: list_all_iff plain_elem_def)
  then show ?thesis
    using split_byte_join [of es "CHR ''/''"] by (simp add: abs_path_def join_byte_def)
qed

lemma path_elems_abs_path [simp]: "list_all plain_elem es \<Longrightarrow> path_elems (abs_path es) = es"
  by (simp add: path_elems_def split_abs_path clean_elems_plain)

lemma path_clean_abs_path [simp]: "list_all plain_elem es \<Longrightarrow> path_clean (abs_path es) = abs_path es"
  using path_elems_abs_path [of es]
  by (simp add: path_clean_def path_elems_def Let_def) (simp add: abs_path_def)

lemma clean_abs_iff:
  "is_abs p \<and> path_clean p = p \<longleftrightarrow> (\<exists>es. list_all plain_elem es \<and> p = abs_path es)"
proof
  assume p: "is_abs p \<and> path_clean p = p"
  then have "p = abs_path (path_elems p)"
    by (auto simp: path_clean_def path_elems_def abs_path_def Let_def)
  then show "\<exists>es. list_all plain_elem es \<and> p = abs_path es"
    using p path_elems_plain by blast
qed auto

lemma join_byte_snoc:
  "join_byte c (es @ [e]) = (if es = [] then e else join_byte c es @ c # e)"
  by (induction es) (auto simp: join_byte_def)

lemma last_index_byte_app: "c \<notin> set e \<Longrightarrow> last_index_byte (s @ c # e) c = Some (length s)"
  by (induction s) (auto simp: last_index_byte_None [THEN iffD2])

lemma split_byte_snoc: "split_byte c (s @ [c]) = split_byte c s @ [[]]"
  by (induction s) (auto split: list.splits)

lemma clean_elems_snoc: "clean_elems r acc (es @ [[]]) = clean_elems r acc es"
  by (induction r acc es rule: clean_elems.induct) (auto split: list.splits)

lemma path_dir_abs_path:
  assumes "list_all plain_elem (es @ [e])"
  shows "path_dir (abs_path (es @ [e])) = abs_path es"
proof -
  define d where "d = (if es = [] then [] else abs_path es)"
  have e: "CHR ''/'' \<notin> set e" and es: "list_all plain_elem es"
    using assms by (simp_all add: plain_elem_def)
  have p: "abs_path (es @ [e]) = d @ CHR ''/'' # e"
    by (simp add: d_def abs_path_def join_byte_snoc)
  have "is_abs (d @ ''/'')"
    by (simp add: d_def is_abs_def has_prefix_iff abs_path_def)
  moreover have "clean_elems True [] (split_byte CHR ''/'' (d @ ''/'')) = es"
    using es by (simp add: d_def split_byte_snoc clean_elems_snoc split_abs_path clean_elems_plain)
  ultimately have "path_clean (d @ ''/'') = abs_path es"
    by (simp add: path_clean_def abs_path_def)
  then show ?thesis
    by (simp add: p path_dir_def last_index_byte_app [OF e])
qed
end
