(* ===== verification/Names.thy ===== *)
theory Names
  imports GoPath Sha256
begin

text \<open>
  The syntactic checks of the broker (\<^verbatim>\<open>internal/broker/config.go\<close> and
  \<^verbatim>\<open>internal/broker/types.go\<close>): names, opaque secrets, internal host names, relative paths,
  numeric owners, file modes, and the state key of a lease. The loops range over runes in the
  code; the lemmas turn them into byte conditions and say what an accepted value excludes.
\<close>

section \<open>Definitions\<close>

definition name_rune :: "nat \<Rightarrow> bool" where
  "name_rune r =
     ((97 \<le> r \<and> r \<le> 122) \<or> (65 \<le> r \<and> r \<le> 90) \<or> (48 \<le> r \<and> r \<le> 57) \<or> r = 46 \<or> r = 95 \<or> r = 45)"

definition validName :: "bytes \<Rightarrow> nat \<Rightarrow> bool" where
  "validName v maximum =
     (if v = '''' \<or> v = ''.'' \<or> v = ''..'' \<or> length v > maximum then False
      else list_all name_rune (runes v))"

definition secret_rune :: "nat \<Rightarrow> bool" where
  "secret_rune r = (\<not> (r < 0x20 \<or> r = 0x7f))"

definition validOpaqueSecret :: "bytes \<Rightarrow> nat \<Rightarrow> bool" where
  "validOpaqueSecret v maximum =
     (if v = '''' \<or> length v > maximum then False else list_all secret_rune (runes v))"

definition host_rune :: "nat \<Rightarrow> bool" where
  "host_rune r = ((97 \<le> r \<and> r \<le> 122) \<or> (65 \<le> r \<and> r \<le> 90) \<or> (48 \<le> r \<and> r \<le> 57) \<or> r = 45)"

definition validInternalHostname :: "bytes \<Rightarrow> bool" where
  "validInternalHostname host =
     (if host = '''' \<or> length host > 63 \<or> contains host ''.'' \<or>
         hd host = CHR ''-'' \<or> last host = CHR ''-'' then False
      else list_all host_rune (runes host))"

definition validRelativePath :: "bytes \<Rightarrow> bool" where
  "validRelativePath v =
     (if v = '''' \<or> length v > 240 \<or> contains v [CHR 0x5C] \<or> is_abs v \<or> path_clean v \<noteq> v then False
      else (let parts = split_byte CHR ''/'' v
            in if length parts > 16 then False
               else list_all (\<lambda>part. \<not> (\<not> validName part 64 \<or> part = ''.'' \<or> part = ''..'')) parts))"

definition validOwnership :: "bytes \<Rightarrow> bool" where
  "validOwnership v =
     (if v = '''' then False
      else (case parse_int 32 v of None \<Rightarrow> False | Some n \<Rightarrow> 0 \<le> n))"

definition validReadOnlyMode :: "bytes \<Rightarrow> bool" where
  "validReadOnlyMode v = (v = ''0400'' \<or> v = ''0440'' \<or> v = ''0444'')"

definition leaseStateKey :: "bytes \<Rightarrow> bytes \<Rightarrow> bytes" where
  "leaseStateKey hostUUID volumeName = hex_encode (sha256 (hostUUID @ CHR 0x00 # volumeName))"

lemmas [guard_defs] =
  validName_def validOpaqueSecret_def validRelativePath_def validOwnership_def validReadOnlyMode_def

section \<open>Rune loops are byte loops\<close>

definition name_byte :: "char \<Rightarrow> bool" where
  "name_byte c = name_rune (byte_val c)"

definition secret_byte :: "char \<Rightarrow> bool" where
  "secret_byte c = (0x20 \<le> byte_val c \<and> byte_val c \<noteq> 0x7f)"

lemma validName_iff:
  "validName v m \<longleftrightarrow>
     v \<noteq> '''' \<and> v \<noteq> ''.'' \<and> v \<noteq> ''..'' \<and> length v \<le> m \<and> list_all name_byte v"
proof -
  have "list_all name_rune (runes v) \<longleftrightarrow> list_all (\<lambda>c. name_rune (byte_val c)) v"
    by (rule runes_all_ascii) (auto simp: name_rune_def)
  also have "\<dots> \<longleftrightarrow> list_all name_byte v"
    by (simp add: list_all_iff name_byte_def)
  finally show ?thesis
    by (auto simp: validName_def)
qed

lemma validOpaqueSecret_iff:
  "validOpaqueSecret v m \<longleftrightarrow> v \<noteq> '''' \<and> length v \<le> m \<and> list_all secret_byte v"
proof -
  have "list_all secret_rune (runes v) \<longleftrightarrow> list_all (\<lambda>c. secret_rune (byte_val c)) v"
    by (rule runes_all_wide) (auto simp: secret_rune_def)
  also have "\<dots> \<longleftrightarrow> list_all secret_byte v"
    by (auto simp: secret_rune_def secret_byte_def list_all_iff not_less)
  finally show ?thesis
    by (auto simp: validOpaqueSecret_def)
qed

lemma validInternalHostname_iff:
  "validInternalHostname h \<longleftrightarrow>
     h \<noteq> '''' \<and> length h \<le> 63 \<and> hd h \<noteq> CHR ''-'' \<and> last h \<noteq> CHR ''-'' \<and>
     list_all (\<lambda>c. host_rune (byte_val c)) h"
proof -
  have runes: "list_all host_rune (runes h) \<longleftrightarrow> list_all (\<lambda>c. host_rune (byte_val c)) h"
    by (rule runes_all_ascii) (auto simp: host_rune_def)
  have "\<not> contains h ''.''" if "list_all (\<lambda>c. host_rune (byte_val c)) h"
    using that by (auto simp: contains_iff host_rune_def)
  then show ?thesis
    using runes by (auto simp: validInternalHostname_def)
qed

lemma validName_not_Nil: "validName v m \<Longrightarrow> v \<noteq> ''''"
  by (simp add: validName_iff)

lemma validName_length: "validName v m \<Longrightarrow> length v \<le> m"
  by (simp add: validName_iff)

lemma validName_char: "validName v m \<Longrightarrow> c \<in> set v \<Longrightarrow> name_byte c"
  by (simp add: validName_iff list_all_iff)

lemma validName_no_slash: "validName v m \<Longrightarrow> CHR ''/'' \<notin> set v"
  using validName_char [of v m "CHR ''/''"] by (auto simp: name_byte_def name_rune_def)

lemma validName_no_nul: "validName v m \<Longrightarrow> CHR 0x00 \<notin> set v"
  using validName_char [of v m "CHR 0x00"] by (auto simp: name_byte_def name_rune_def)

lemma validName_plain_elem: "validName v m \<Longrightarrow> plain_elem v"
  using validName_no_slash by (auto simp: validName_iff plain_elem_def)

section \<open>Relative paths\<close>

text \<open>
  The characterisation of an accepted path: one to sixteen names joined by slashes. The checks
  for backslashes, absolute paths, cleanness and dot segments are implied by the names.
\<close>

lemma validRelativePath_parts:
  assumes "validRelativePath v"
  shows "v = join_byte CHR ''/'' (split_byte CHR ''/'' v)"
    and "list_all (\<lambda>p. validName p 64) (split_byte CHR ''/'' v)"
    and "length (split_byte CHR ''/'' v) \<le> 16" and "length v \<le> 240"
  using assms by (auto simp: validRelativePath_def Let_def list_all_iff split: if_splits)

lemma join_names_ok:
  assumes "ps \<noteq> []" and "list_all (\<lambda>p. validName p 64) ps"
  shows "path_clean (join_byte CHR ''/'' ps) = join_byte CHR ''/'' ps"
    and "\<not> is_abs (join_byte CHR ''/'' ps)"
    and "split_byte CHR ''/'' (join_byte CHR ''/'' ps) = ps"
    and "join_byte CHR ''/'' ps \<noteq> ''''"
    and "\<not> contains (join_byte CHR ''/'' ps) [CHR 0x5C]"
proof -
  from assms(2) have plain: "list_all plain_elem ps"
    by (auto simp: list_all_iff intro: validName_plain_elem)
  then have nosep: "list_all (\<lambda>p. CHR ''/'' \<notin> set p) ps"
    by (auto simp: list_all_iff plain_elem_def)
  show split: "split_byte CHR ''/'' (join_byte CHR ''/'' ps) = ps"
    by (rule split_byte_join [OF assms(1) nosep])
  obtain p qs where ps: "ps = p # qs" using assms(1) by (cases ps) auto
  with plain obtain c r where p: "p = c # r" "c \<noteq> CHR ''/''"
    by (cases p) (auto simp: plain_elem_def)
  then show "\<not> is_abs (join_byte CHR ''/'' ps)" and "join_byte CHR ''/'' ps \<noteq> ''''"
    by (simp_all add: ps join_byte_def is_abs_def)
  then show "path_clean (join_byte CHR ''/'' ps) = join_byte CHR ''/'' ps"
    using assms(1) by (simp add: path_clean_def split clean_elems_plain [OF plain])
  have "set (join_byte CHR ''/'' ps) \<subseteq> insert CHR ''/'' (\<Union> (set ` set ps))"
    by (auto simp: ps join_byte_def)
  moreover have "CHR 0x5C \<notin> set q" if "q \<in> set ps" for q
    using validName_char [of q 64 "CHR 0x5C"] that assms(2)
    by (auto simp: list_all_iff name_byte_def name_rune_def)
  ultimately have "CHR 0x5C \<notin> set (join_byte CHR ''/'' ps)" by auto
  then show "\<not> contains (join_byte CHR ''/'' ps) [CHR 0x5C]"
    by (auto simp: contains_iff)
qed

lemma validRelativePath_iff:
  "validRelativePath v \<longleftrightarrow>
     (\<exists>ps. ps \<noteq> [] \<and> length ps \<le> 16 \<and> list_all (\<lambda>p. validName p 64) ps \<and>
           length v \<le> 240 \<and> v = join_byte CHR ''/'' ps)"
proof
  assume "validRelativePath v"
  then show "\<exists>ps. ps \<noteq> [] \<and> length ps \<le> 16 \<and> list_all (\<lambda>p. validName p 64) ps \<and>
      length v \<le> 240 \<and> v = join_byte CHR ''/'' ps"
    using validRelativePath_parts split_byte_not_Nil by blast
next
  assume "\<exists>ps. ps \<noteq> [] \<and> length ps \<le> 16 \<and> list_all (\<lambda>p. validName p 64) ps \<and>
      length v \<le> 240 \<and> v = join_byte CHR ''/'' ps"
  then obtain ps where ps: "ps \<noteq> []" "length ps \<le> 16" "list_all (\<lambda>p. validName p 64) ps"
      "length v \<le> 240" "v = join_byte CHR ''/'' ps"
    by blast
  show "validRelativePath v"
    using ps join_names_ok [OF ps(1,3)]
    by (auto simp: validRelativePath_def list_all_iff validName_iff)
qed

section \<open>Owners and keys\<close>

lemma validOwnership_bound:
  assumes "validOwnership v"
  obtains n where "parse_int 32 v = Some (int n)" "n < 2 ^ 31"
proof -
  from assms obtain k where k: "parse_int 32 v = Some k" "0 \<le> k"
    by (auto simp: validOwnership_def split: if_splits option.splits)
  then have "nat k < 2 ^ 31"
    by (auto simp: parse_int_def Let_def split: if_splits option.splits list.splits)
  then show thesis using k that [of "nat k"] by simp
qed

lemma length_leaseStateKey [simp]: "length (leaseStateKey h v) = 64"
  by (simp add: leaseStateKey_def)

lemma leaseStateKey_decodes: "hex_decode (leaseStateKey h v) = Some (sha256 (h @ CHR 0x00 # v))"
  by (simp add: leaseStateKey_def)

text \<open>The separator is unambiguous: names hold no NUL byte, so the hashed message determines them.\<close>

lemma nul_separated:
  assumes "CHR 0x00 \<notin> set h" and "CHR 0x00 \<notin> set h'" and "h @ CHR 0x00 # v = h' @ CHR 0x00 # v'"
  shows "h = h' \<and> v = v'"
  using assms
proof (induction h arbitrary: h')
  case Nil
  then show ?case by (cases h') auto
next
  case (Cons c h)
  then show ?case by (cases h') auto
qed

end
