(* ===== verification/Http.thy ===== *)
theory Http
  imports Names
begin

text \<open>
  The HTTP vocabulary of the two upstream clients: URLs, requests and replies, the escaping of a
  path segment and of a query, and the bounded read of a reply (\<^verbatim>\<open>io.LimitReader\<close> under
  \<^verbatim>\<open>io.ReadAll\<close>). The transport is a function over an abstract network state: it is the network and
  the server behind it.
\<close>

record url =
  u_scheme :: bytes
  u_host :: bytes
  u_path :: bytes
  u_query :: bytes

record http_request =
  q_method :: bytes
  q_url :: url
  q_headers :: "(bytes \<times> bytes) list"
  q_body :: "bytes option"

text \<open>A reply's body is the bytes its reader delivers, and whether the reader then fails.\<close>

record http_reply =
  p_status :: nat
  p_data :: bytes
  p_broken :: bool

type_synonym 'w transport = "http_request \<Rightarrow> 'w \<Rightarrow> http_reply option \<times> 'w"

section \<open>Escaping\<close>

definition unreserved :: "char \<Rightarrow> bool" where
  "unreserved c =
     (let n = byte_val c in (97 \<le> n \<and> n \<le> 122) \<or> (65 \<le> n \<and> n \<le> 90) \<or> (48 \<le> n \<and> n \<le> 57) \<or>
        c \<in> set ''-_.~'')"

definition upper_hex :: "nat \<Rightarrow> char" where
  "upper_hex n = ''0123456789ABCDEF'' ! n"

definition percent :: "char \<Rightarrow> bytes" where
  "percent c = [CHR ''%'', upper_hex (byte_val c div 16), upper_hex (byte_val c mod 16)]"

definition path_escape :: "bytes \<Rightarrow> bytes" where
  "path_escape s = concat (map (\<lambda>c. if unreserved c \<or> c \<in> set ''$&+=:@'' then [c] else percent c) s)"

definition query_escape :: "bytes \<Rightarrow> bytes" where
  "query_escape s =
     concat (map (\<lambda>c. if unreserved c then [c] else if c = CHR '' '' then ''+'' else percent c) s)"

text \<open>\<^verbatim>\<open>url.Values.Encode\<close> for one value per key: keys in sorted order.\<close>

definition query_encode :: "(bytes \<times> bytes) list \<Rightarrow> bytes" where
  "query_encode kvs =
     join_byte CHR ''&'' (map (\<lambda>(k, v). query_escape k @ ''='' @ query_escape v) (sort_key fst kvs))"

lemma name_byte_unreserved: "name_byte c \<Longrightarrow> unreserved c"
proof -
  assume "name_byte c"
  then consider "97 \<le> byte_val c \<and> byte_val c \<le> 122" | "65 \<le> byte_val c \<and> byte_val c \<le> 90"
    | "48 \<le> byte_val c \<and> byte_val c \<le> 57" | "byte_val c = 46 \<or> byte_val c = 95 \<or> byte_val c = 45"
    by (auto simp: name_byte_def name_rune_def)
  then show ?thesis
  proof cases
    case 4
    then have "c = char_of (46 :: nat) \<or> c = char_of (95 :: nat) \<or> c = char_of (45 :: nat)"
      by (metis char_of_char)
    then show ?thesis
      by (auto simp: unreserved_def char_of_def bit_0)
  qed (simp_all add: unreserved_def Let_def)
qed

lemma path_escape_name [simp]: "validName v m \<Longrightarrow> path_escape v = v"
proof -
  assume v: "validName v m"
  have "concat (map (\<lambda>c. if unreserved c \<or> c \<in> set ''$&+=:@'' then [c] else percent c) v) =
      concat (map (\<lambda>c. [c]) v)"
    using validName_char [OF v] name_byte_unreserved by (intro arg_cong [of _ _ concat] map_cong) auto
  then show ?thesis by (simp add: path_escape_def)
qed

lemma query_escape_name [simp]: "validName v m \<Longrightarrow> query_escape v = v"
proof -
  assume v: "validName v m"
  have "concat (map (\<lambda>c. if unreserved c then [c] else if c = CHR '' '' then ''+'' else percent c) v) =
      concat (map (\<lambda>c. [c]) v)"
    using validName_char [OF v] name_byte_unreserved by (intro arg_cong [of _ _ concat] map_cong) auto
  then show ?thesis by (simp add: query_escape_def)
qed

section \<open>Reading a reply\<close>

definition read_limited :: "int \<Rightarrow> http_reply \<Rightarrow> bytes option" where
  "read_limited maximum reply =
     (let got = take (nat (maximum + 1)) (p_data reply);
          failed = p_broken reply \<and> length (p_data reply) < nat (maximum + 1)
      in if failed \<or> int (length got) > maximum then None else Some got)"

lemma read_limited_iff:
  "0 \<le> m \<Longrightarrow> read_limited m reply = Some b \<longleftrightarrow>
     b = p_data reply \<and> int (length b) \<le> m \<and> \<not> p_broken reply"
proof -
  assume m: "0 \<le> m"
  show ?thesis
  proof (cases "int (length (p_data reply)) \<le> m")
    case True
    then show ?thesis by (auto simp: read_limited_def Let_def)
  next
    case False
    then have "int (length (take (nat (m + 1)) (p_data reply))) > m"
      using m by simp
    then show ?thesis using False by (auto simp: read_limited_def Let_def)
  qed
qed

lemma read_limited_eq:
  "0 \<le> m \<Longrightarrow> read_limited m reply =
     (if int (length (p_data reply)) \<le> m \<and> \<not> p_broken reply then Some (p_data reply) else None)"
  using read_limited_iff [of m reply] by (cases "read_limited m reply") auto

end
