(* ===== verification/GoTime.thy ===== *)
theory GoTime
  imports Encodings "HOL-Library.Monad_Syntax"
begin

text \<open>
  The part of Go's \<^verbatim>\<open>time\<close> package the program uses: durations, RFC 3339 instants and the
  fixed UTC layout of the planner. An instant is a nanosecond count from the Unix epoch, a
  duration a nanosecond count in the range of an \<^verbatim>\<open>int64\<close>.
\<close>

section \<open>Durations\<close>

definition nanosecond :: nanos where "nanosecond = 1"
definition millisecond :: nanos where "millisecond = 1000000"
definition second :: nanos where "second = 1000000000"
definition minute :: nanos where "minute = 60 * second"
definition hour :: nanos where "hour = 60 * minute"

lemmas duration_defs = nanosecond_def millisecond_def second_def minute_def hour_def

definition min_duration :: nanos where "min_duration = - (2 ^ 63)"
definition max_duration :: nanos where "max_duration = 2 ^ 63 - 1"

text \<open>\<^verbatim>\<open>t.Sub(u)\<close> saturates at the ends of the duration range.\<close>

definition time_sub :: "nanos \<Rightarrow> nanos \<Rightarrow> nanos" where
  "time_sub t u = max min_duration (min max_duration (t - u))"

lemma time_sub_exact: "min_duration < time_sub t u \<Longrightarrow> time_sub t u < max_duration \<Longrightarrow> time_sub t u = t - u"
  by (auto simp: time_sub_def min_def max_def split: if_splits)

lemma time_sub_between:
  assumes "min_duration < a" and "b < max_duration"
  shows "a \<le> time_sub t u \<and> time_sub t u \<le> b \<longleftrightarrow> a \<le> t - u \<and> t - u \<le> b"
  using assms by (auto simp: time_sub_def min_def max_def)

text \<open>
  \<^verbatim>\<open>Duration.String\<close>: hours, minutes and seconds with the fraction's trailing zeros cut;
  below one second a smaller unit.
\<close>

fun strip_zeros :: "bytes \<Rightarrow> bytes" where
  "strip_zeros s = rev (dropWhile (\<lambda>c. c = CHR ''0'') (rev s))"

definition pad_left :: "nat \<Rightarrow> bytes \<Rightarrow> bytes" where
  "pad_left n s = replicate (n - length s) CHR ''0'' @ s"

definition frac_string :: "nat \<Rightarrow> nat \<Rightarrow> bytes" where
  "frac_string prec n =
     (let f = strip_zeros (pad_left prec (show_nat n)) in if f = [] then [] else CHR ''.'' # f)"

definition duration_string :: "nanos \<Rightarrow> bytes" where
  "duration_string d =
     (let u = nat \<bar>d\<bar>; sign = (if d < 0 then ''-'' else '''') in
      if u = 0 then ''0s''
      else if u < 1000 then sign @ show_nat u @ ''ns''
      else if u < 1000000 then
        sign @ show_nat (u div 1000) @ frac_string 3 (u mod 1000) @ map char_of [0xC2, 0xB5 :: nat] @ ''s''
      else if u < 1000000000 then sign @ show_nat (u div 1000000) @ frac_string 6 (u mod 1000000) @ ''ms''
      else
        (let total = u div 1000000000; s = total mod 60; m = total div 60 mod 60; h = total div 3600;
             secs = show_nat s @ frac_string 9 (u mod 1000000000) @ ''s''
         in sign @ (if h > 0 then show_nat h @ ''h'' @ show_nat m @ ''m'' @ secs
                    else if m > 0 then show_nat m @ ''m'' @ secs else secs)))"

section \<open>The calendar\<close>

definition is_leap :: "nat \<Rightarrow> bool" where
  "is_leap y = (y mod 4 = 0 \<and> (y mod 100 \<noteq> 0 \<or> y mod 400 = 0))"

definition days_in_month :: "nat \<Rightarrow> nat \<Rightarrow> nat" where
  "days_in_month y m =
     (if m = 2 then (if is_leap y then 29 else 28)
      else if m \<in> {4, 6, 9, 11} then 30 else 31)"

text \<open>Days from 0000-03-01 of the proleptic Gregorian calendar; years start in March.\<close>

definition days_of_civil :: "nat \<Rightarrow> nat \<Rightarrow> nat \<Rightarrow> int" where
  "days_of_civil y m d =
     (let y' = int y - (if m \<le> 2 then 1 else 0);
          mp = (if m > 2 then int m - 3 else int m + 9)
      in 365 * y' + y' div 4 - y' div 100 + y' div 400 + (153 * mp + 2) div 5 + int d - 1)"

definition unix_epoch_days :: int where "unix_epoch_days = 719468"

definition civil_of_days :: "int \<Rightarrow> int \<times> int \<times> int" where
  "civil_of_days z =
     (let era = z div 146097; doe = z mod 146097;
          yoe = (doe - doe div 1460 + doe div 36524 - doe div 146096) div 365;
          doy = doe - (365 * yoe + yoe div 4 - yoe div 100);
          mp = (5 * doy + 2) div 153;
          d = doy - (153 * mp + 2) div 5 + 1;
          m = (if mp < 10 then mp + 3 else mp - 9)
      in (yoe + era * 400 + (if m \<le> 2 then 1 else 0), m, d))"

section \<open>Parsing\<close>

text \<open>
  \<^verbatim>\<open>getnum(s, fixed)\<close>: two digits, or one where the layout does not fix the width. The hour
  of \<^verbatim>\<open>15\<close> is not fixed, so \<^verbatim>\<open>T5:04:05Z\<close> is read.
\<close>

definition getnum :: "bool \<Rightarrow> bytes \<Rightarrow> (nat \<times> bytes) option" where
  "getnum fixed s =
     (case s of
        [] \<Rightarrow> None
      | a # r \<Rightarrow>
          (case digit_val a of
             None \<Rightarrow> None
           | Some x \<Rightarrow>
               (case r of
                  [] \<Rightarrow> if fixed then None else Some (x, r)
                | b # r' \<Rightarrow>
                    (case digit_val b of
                       None \<Rightarrow> if fixed then None else Some (x, r)
                     | Some y \<Rightarrow> Some (10 * x + y, r')))))"

definition expect :: "char \<Rightarrow> bytes \<Rightarrow> bytes option" where
  "expect c s = (case s of [] \<Rightarrow> None | x # r \<Rightarrow> if x = c then Some r else None)"

definition get_year :: "bytes \<Rightarrow> (nat \<times> bytes) option" where
  "get_year s =
     (if length s < 4 then None
      else map_option (\<lambda>y. (y, drop 4 s)) (digits_val 0 (take 4 s)))"

definition is_digit :: "char \<Rightarrow> bool" where
  "is_digit c = (digit_val c \<noteq> None)"

text \<open>The optional fraction: a period or comma and at least one digit; nine digits count.\<close>

definition get_fraction :: "bytes \<Rightarrow> nat \<times> bytes" where
  "get_fraction s =
     (case s of
        p # c # r \<Rightarrow>
          if (p = CHR ''.'' \<or> p = CHR '','') \<and> is_digit c
          then (let ds = takeWhile is_digit (c # r); kept = take 9 ds
                in (the (digits_val 0 kept) * 10 ^ (9 - length kept), dropWhile is_digit (c # r)))
          else (0, s)
      | _ \<Rightarrow> (0, s))"

record civil =
  year :: nat
  month :: nat
  day :: nat
  hours :: nat
  minutes :: nat
  seconds :: nat
  nanosecs :: nat

definition get_civil :: "bytes \<Rightarrow> (civil \<times> bytes) option" where
  "get_civil s0 =
     do { (y, s1) \<leftarrow> get_year s0; s2 \<leftarrow> expect CHR ''-'' s1;
          (mo, s3) \<leftarrow> getnum True s2; s4 \<leftarrow> expect CHR ''-'' s3;
          (d, s5) \<leftarrow> getnum True s4; s6 \<leftarrow> expect CHR ''T'' s5;
          (h, s7) \<leftarrow> getnum False s6; s8 \<leftarrow> expect CHR '':'' s7;
          (mi, s9) \<leftarrow> getnum True s8; s10 \<leftarrow> expect CHR '':'' s9;
          (se, s11) \<leftarrow> getnum True s10;
          (let (ns, s12) = get_fraction s11 in
           if 1 \<le> mo \<and> mo \<le> 12 \<and> h < 24 \<and> mi < 60 \<and> se < 60 \<and> 1 \<le> d \<and> d \<le> days_in_month y mo
           then Some (\<lparr>year = y, month = mo, day = d, hours = h, minutes = mi, seconds = se,
                       nanosecs = ns\<rparr>, s12)
           else None) }"

definition instant_of :: "civil \<Rightarrow> int \<Rightarrow> nanos" where
  "instant_of c offset =
     ((days_of_civil (year c) (month c) (day c) - unix_epoch_days) * 86400
        + int (hours c) * 3600 + int (minutes c) * 60 + int (seconds c) - offset) * second
      + int (nanosecs c)"

text \<open>The zone of \<^verbatim>\<open>Z07:00\<close> in seconds east of UTC: \<^verbatim>\<open>Z\<close>, or a sign, hours and minutes.\<close>

definition get_zone :: "bytes \<Rightarrow> (int \<times> bytes) option" where
  "get_zone s =
     (case s of
        [] \<Rightarrow> None
      | z # r \<Rightarrow>
          if z = CHR ''Z'' then Some (0, r)
          else if length s < 6 \<or> s ! 3 \<noteq> CHR '':'' then None
          else
            do { (h, _) \<leftarrow> getnum True (take 2 r); (m, _) \<leftarrow> getnum True (take 2 (drop 4 s));
                 (if h > 24 \<or> m > 60 then None
                  else if z = CHR ''+'' then Some (int ((h * 60 + m) * 60), drop 6 s)
                  else if z = CHR ''-'' then Some (- int ((h * 60 + m) * 60), drop 6 s)
                  else None) })"

text \<open>\<^verbatim>\<open>time.Parse\<close> with \<^verbatim>\<open>RFC3339\<close> or \<^verbatim>\<open>RFC3339Nano\<close>: the same language.\<close>

definition parse_rfc3339 :: "bytes \<Rightarrow> nanos option" where
  "parse_rfc3339 s =
     do { (c, r) \<leftarrow> get_civil s; (off, r') \<leftarrow> get_zone r;
          (if r' = [] then Some (instant_of c off) else None) }"

text \<open>\<^verbatim>\<open>time.Parse\<close> with the planner's layout, whose final \<^verbatim>\<open>Z\<close> is literal.\<close>

definition parse_utc_seconds :: "bytes \<Rightarrow> nanos option" where
  "parse_utc_seconds s =
     do { (c, r) \<leftarrow> get_civil s; r' \<leftarrow> expect CHR ''Z'' r;
          (if r' = [] then Some (instant_of c 0) else None) }"

text \<open>\<^verbatim>\<open>Time.Format\<close> with that layout, for an instant in UTC of a year from 0 to 9999.\<close>

definition pad2 :: "int \<Rightarrow> bytes" where
  "pad2 n = pad_left 2 (show_nat (nat n))"

definition format_utc_seconds :: "nanos \<Rightarrow> bytes" where
  "format_utc_seconds t =
     (let secs = t div second; z = secs div 86400 + unix_epoch_days; sod = secs mod 86400;
          (y, m, d) = civil_of_days z
      in pad_left 4 (show_nat (nat y)) @ ''-'' @ pad2 m @ ''-'' @ pad2 d @ ''T''
           @ pad2 (sod div 3600) @ '':'' @ pad2 (sod div 60 mod 60) @ '':'' @ pad2 (sod mod 60) @ ''Z'')"

end
