(* ===== verification/Config.thy ===== *)
theory Config
  imports Names GoTime
begin

text \<open>
  The broker's configuration (\<^verbatim>\<open>internal/broker/config.go\<close>): the record, the policy allowlist,
  the environment lookups and the part of \<^verbatim>\<open>Validate\<close> that checks the state path and the
  numeric limits.
\<close>

section \<open>Definitions\<close>

record config =
  Listen :: bytes
  VaultURL :: bytes
  VaultToken :: bytes
  VaultTokenFile :: bytes
  VaultRole :: bytes
  AllowedPolicies :: "(bytes, unit) gomap"
  TokenTTL :: nanos
  WrapTTL :: nanos
  RenewInterval :: nanos
  ControlPlaneURL :: bytes
  AccessKey :: bytes
  SecretKey :: bytes
  StatePath :: bytes
  RequestTimeout :: nanos
  MaxRequestBytes :: int
  MaxResponseBytes :: int
  NonceTTL :: nanos
  MaxRememberedNonce :: int

text \<open>The loop over the comma-separated items: empty items are skipped, a bad one is an error.\<close>

fun allowlist_items :: "bytes list \<Rightarrow> (bytes, unit) gomap \<Rightarrow> (bytes, unit) gomap result" where
  "allowlist_items [] acc = Inr acc"
| "allowlist_items (item # items) acc =
     (let policy = trim_space item
      in if policy = '''' then allowlist_items items acc
         else if \<not> validName policy 64 then Inl ''Vault policy allowlist is invalid''
         else allowlist_items items (gm_set policy () acc))"

definition parsePolicyAllowlist :: "bytes \<Rightarrow> (bytes, unit) gomap result" where
  "parsePolicyAllowlist raw =
     (case allowlist_items (split_byte CHR '','' raw) [] of
        Inl e \<Rightarrow> Inl e
      | Inr acc \<Rightarrow> if length acc = 0 then Inl ''Vault policy allowlist is required'' else Inr acc)"

text \<open>The process environment is a function; an unset variable reads as the empty string.\<close>

definition envOr :: "(bytes \<Rightarrow> bytes) \<Rightarrow> bytes \<Rightarrow> bytes \<Rightarrow> bytes" where
  "envOr getenv name fallback = (if getenv name \<noteq> '''' then getenv name else fallback)"

fun firstEnv :: "(bytes \<Rightarrow> bytes) \<Rightarrow> bytes list \<Rightarrow> bytes" where
  "firstEnv getenv [] = ''''"
| "firstEnv getenv (name # names) =
     (if getenv name \<noteq> '''' then getenv name else firstEnv getenv names)"

definition validStatePath :: "bytes \<Rightarrow> unit result" where
  "validStatePath p =
     (if \<not> is_abs p \<or> path_clean p \<noteq> p then Inl ''state path must be clean and absolute''
      else (case path_rel (path_clean ''/var/lib/pasturestack'') p of
              None \<Rightarrow> Inl ''state path is outside its required root''
            | Some relative \<Rightarrow>
                if relative = ''.'' \<or> relative = ''..'' \<or> has_prefix relative (''..'' @ ''/'')
                then Inl ''state path is outside its required root'' else Inr ()))"

definition validLimits :: "config \<Rightarrow> bool" where
  "validLimits c =
     (\<not> (TokenTTL c < minute \<or> TokenTTL c > hour \<or>
         WrapTTL c < 30 * second \<or> WrapTTL c > 5 * minute \<or>
         WrapTTL c > TokenTTL c \<or>
         RenewInterval c < minute \<or> RenewInterval c > 30 * minute \<or>
         RequestTimeout c < second \<or> RequestTimeout c > minute \<or>
         NonceTTL c < minute \<or> NonceTTL c > 10 * minute \<or>
         MaxRequestBytes c < 1024 \<or> MaxRequestBytes c > 1048576 \<or>
         MaxResponseBytes c < 1024 \<or> MaxResponseBytes c > 8388608 \<or>
         MaxRememberedNonce c < 100 \<or> MaxRememberedNonce c > 100000))"

section \<open>The allowlist\<close>

definition allowlist_ok :: "(bytes, unit) gomap \<Rightarrow> bool" where
  "allowlist_ok m = (gm_inv m \<and> list_all (\<lambda>p. validName p 64) (gm_keys m))"

lemma gm_keys_set: "set (gm_keys (gm_set k v m)) = insert k (set (gm_keys m))"
  using set_gm_keys_del [of k m] by (auto simp: gm_set_def gm_keys_def)

lemma allowlist_ok_set: "allowlist_ok m \<Longrightarrow> validName p 64 \<Longrightarrow> allowlist_ok (gm_set p () m)"
  by (simp add: allowlist_ok_def list_all_iff gm_keys_set)

lemma allowlist_items_inv:
  "allowlist_ok acc \<Longrightarrow> allowlist_items items acc = Inr m \<Longrightarrow> allowlist_ok m"
  by (induction items acc rule: allowlist_items.induct)
     (auto simp: Let_def allowlist_ok_set split: if_splits)

lemma allowlist_items_keys:
  "allowlist_items items acc = Inr m \<Longrightarrow>
     set (gm_keys m) = set (gm_keys acc) \<union> (trim_space ` set items - {''''})"
proof (induction items acc rule: allowlist_items.induct)
  case (2 item items acc)
  from 2 show ?case by (auto simp: Let_def gm_keys_set split: if_splits)
qed simp

lemma allowlist_items_error:
  "allowlist_items items acc = Inl e \<Longrightarrow>
     \<exists>p\<in>trim_space ` set items - {''''}. \<not> validName p 64"
proof (induction items acc rule: allowlist_items.induct)
  case (2 item items acc)
  from 2 show ?case by (auto simp: Let_def split: if_splits)
qed simp

lemma gm_get_unit_iff: "gm_get (m :: (bytes, unit) gomap) p = Some () \<longleftrightarrow> p \<in> set (gm_keys m)"
  using gm_get_None_iff [of m p] by (cases "gm_get m p") auto

section \<open>The state path\<close>

lemma path_rel_below:
  assumes "list_all plain_elem bs" and "list_all plain_elem ts"
    and "path_rel (abs_path bs) (abs_path ts) = Some r"
    and "\<not> (r = ''.'' \<or> r = ''..'' \<or> has_prefix r (''..'' @ ''/''))"
  shows "\<exists>rs. rs \<noteq> [] \<and> ts = bs @ rs"
proof -
  obtain bs' ts' where st: "strip_common bs ts = (bs', ts')"
    by (cases "strip_common bs ts")
  then obtain c where c: "bs = c @ bs'" "ts = c @ ts'"
    using strip_common_split by blast
  show ?thesis
  proof (cases bs')
    case Nil
    then show ?thesis
      using assms st c by (auto simp: path_rel_def)
  next
    case (Cons b bs'')
    let ?qs = "map (\<lambda>_. ''..'') bs'' @ ts'"
    have "r = ''..'' @ concat (map (\<lambda>q. CHR ''/'' # q) ?qs)"
      using assms(1-3) st Cons by (auto simp: path_rel_def join_byte_def Let_def split: if_splits)
    then have "r = ''..'' \<or> has_prefix r (''..'' @ ''/'')"
      by (cases ?qs) (auto simp: has_prefix_iff)
    with assms(4) show ?thesis by blast
  qed
qed

lemma path_rel_descend:
  assumes "list_all plain_elem bs" and "list_all plain_elem rs" and "rs \<noteq> []"
  shows "path_rel (abs_path bs) (abs_path (bs @ rs)) = Some (join_byte CHR ''/'' rs)"
proof -
  have "strip_common bs (bs @ rs) = ([], rs)"
    by (induction bs) (use assms(3) in \<open>cases rs; simp\<close>)+
  then show ?thesis
    using assms by (simp add: path_rel_def)
qed

lemma join_plain_not_dots:
  assumes "list_all plain_elem rs" and "rs \<noteq> []"
  shows "\<not> (join_byte CHR ''/'' rs = ''.'' \<or> join_byte CHR ''/'' rs = ''..'' \<or>
           has_prefix (join_byte CHR ''/'' rs) (''..'' @ ''/''))"
proof -
  have sp: "split_byte CHR ''/'' (join_byte CHR ''/'' rs) = rs"
    using assms by (intro split_byte_join) (auto simp: list_all_iff plain_elem_def)
  have "hd rs \<noteq> ''.''" "hd rs \<noteq> ''..''"
    using assms by (auto simp: list_all_iff plain_elem_def)
  then show ?thesis
    using sp by (auto simp: has_prefix_iff) 
qed

definition state_root :: "bytes list" where
  "state_root = [''var'', ''lib'', ''pasturestack'']"

lemma state_root_plain [simp]: "list_all plain_elem state_root"
  by (simp add: state_root_def plain_elem_def)

lemma state_root_path: "path_clean ''/var/lib/pasturestack'' = abs_path state_root"
  using path_clean_abs_path [OF state_root_plain]
  by (simp add: abs_path_def state_root_def join_byte_def)

lemma validStatePath_elems:
  "validStatePath p = Inr () \<longleftrightarrow>
     (\<exists>rs. rs \<noteq> [] \<and> list_all plain_elem rs \<and> p = abs_path (state_root @ rs))"
proof
  assume valid: "validStatePath p = Inr ()"
  then have "is_abs p \<and> path_clean p = p"
    by (simp add: validStatePath_def split: if_splits)
  then obtain es where es: "list_all plain_elem es" "p = abs_path es"
    using clean_abs_iff by blast
  obtain r where "path_rel (abs_path state_root) (abs_path es) = Some r"
      "\<not> (r = ''.'' \<or> r = ''..'' \<or> has_prefix r (''..'' @ ''/''))"
    using valid es by (auto simp: validStatePath_def state_root_path split: if_splits option.splits)
  then obtain rs where "rs \<noteq> []" "es = state_root @ rs"
    using path_rel_below [OF state_root_plain es(1)] by blast
  then show "\<exists>rs. rs \<noteq> [] \<and> list_all plain_elem rs \<and> p = abs_path (state_root @ rs)"
    using es by auto
next
  assume "\<exists>rs. rs \<noteq> [] \<and> list_all plain_elem rs \<and> p = abs_path (state_root @ rs)"
  then obtain rs where rs: "rs \<noteq> []" "list_all plain_elem rs" "p = abs_path (state_root @ rs)"
    by blast
  then show "validStatePath p = Inr ()"
    using path_rel_descend [OF state_root_plain rs(2,1)] join_plain_not_dots [OF rs(2,1)]
    by (simp add: validStatePath_def state_root_path)
qed

end
