(* ===== verification/GoJson.thy ===== *)
theory GoJson
  imports Encodings
begin

text \<open>
  The part of \<^verbatim>\<open>encoding/json\<close> the program uses. Reading: a lexer from bytes to tokens and a
  push-down parser from tokens to trees, with the scanner's nesting limit. Writing: the encoder
  with Go's string escapes. Struct decoding: the choice of a field for a key (exact, then folded)
  and the conversions of the field types. The main result is that parsing an encoded tree gives
  the tree back.
\<close>

section \<open>Tokens\<close>

datatype jtoken = JLBrace | JRBrace | JLBrack | JRBrack | JColon | JComma
  | JString bytes | JNumber bytes | JTrue | JFalse | JNull

definition json_space :: "char \<Rightarrow> bool" where
  "json_space c = (c = CHR '' '' \<or> c = CHR 0x09 \<or> c = CHR 0x0A \<or> c = CHR 0x0D)"

definition quote_char :: char where "quote_char = CHR 0x22"
definition backslash :: char where "backslash = CHR 0x5C"

definition is_hex :: "char \<Rightarrow> bool" where
  "is_hex c = (hex_val c \<noteq> None)"

text \<open>The raw text of a string literal up to its closing quote, and what follows it.\<close>

definition cons_raw :: "bytes \<Rightarrow> (bytes \<times> bytes) option \<Rightarrow> (bytes \<times> bytes) option" where
  "cons_raw p r = map_option (\<lambda>(a, b). (p @ a, b)) r"

definition escape_length :: "bytes \<Rightarrow> nat option" where
  "escape_length s =
     (case s of
        [] \<Rightarrow> None
      | e # t \<Rightarrow>
          if e \<in> set ''bfnrt/'' \<or> e = backslash \<or> e = quote_char then Some 2
          else if e = CHR ''u'' \<and> length t \<ge> 4 \<and> list_all is_hex (take 4 t) then Some 6
          else None)"

lemma escape_length_le: "escape_length s = Some n \<Longrightarrow> 2 \<le> n \<and> n \<le> Suc (length s)"
  by (auto simp: escape_length_def split: list.splits if_splits)

function scan_string :: "bytes \<Rightarrow> (bytes \<times> bytes) option" where
  "scan_string s =
     (case s of
        [] \<Rightarrow> None
      | c # t \<Rightarrow>
          if c = quote_char then Some ([], t)
          else if c = backslash then
            (case escape_length t of
               None \<Rightarrow> None
             | Some n \<Rightarrow> cons_raw (take n s) (scan_string (drop n s)))
          else if byte_val c < 0x20 then None
          else cons_raw [c] (scan_string t))"
  by pat_completeness auto
termination
  by (relation "measure length") (auto dest: escape_length_le)

declare scan_string.simps [simp del]

lemma scan_string_Nil [simp]: "scan_string [] = None"
  by (simp add: scan_string.simps)

lemma scan_string_Cons:
  "scan_string (c # t) =
     (if c = quote_char then Some ([], t)
      else if c = backslash then
        (case escape_length t of
           None \<Rightarrow> None
         | Some n \<Rightarrow> cons_raw (take n (c # t)) (scan_string (drop n (c # t))))
      else if byte_val c < 0x20 then None
      else cons_raw [c] (scan_string t))"
  by (subst scan_string.simps) simp

text \<open>
  The value of a raw literal: escapes, surrogate pairs, and \<^verbatim>\<open>U+FFFD\<close> for lone surrogates
  and undecodable bytes.
\<close>

definition hex4 :: "bytes \<Rightarrow> nat option" where
  "hex4 s =
     (case s of
        a # b # c # d # _ \<Rightarrow>
          (case (hex_val a, hex_val b, hex_val c, hex_val d) of
             (Some w, Some x, Some y, Some z) \<Rightarrow> Some (((w * 16 + x) * 16 + y) * 16 + z)
           | _ \<Rightarrow> None)
      | _ \<Rightarrow> None)"

definition getu4 :: "bytes \<Rightarrow> nat option" where
  "getu4 s =
     (case s of c # u # r \<Rightarrow> if c = backslash \<and> u = CHR ''u'' then hex4 r else None | _ \<Rightarrow> None)"

definition utf16_pair :: "nat \<Rightarrow> nat option \<Rightarrow> nat option" where
  "utf16_pair hi lo =
     (case lo of
        None \<Rightarrow> None
      | Some l \<Rightarrow>
          if 0xD800 \<le> hi \<and> hi < 0xDC00 \<and> 0xDC00 \<le> l \<and> l < 0xE000
          then Some ((hi - 0xD800) * 1024 + (l - 0xDC00) + 0x10000) else None)"

text \<open>The scanner has refused every other escape, so the last branch is never reached.\<close>

definition simple_escape :: "char \<Rightarrow> char" where
  "simple_escape e =
     (if e = CHR ''b'' then CHR 0x08 else if e = CHR ''f'' then CHR 0x0C
      else if e = CHR ''n'' then CHR 0x0A else if e = CHR ''r'' then CHR 0x0D
      else if e = CHR ''t'' then CHR 0x09
      else if e = quote_char \<or> e = backslash \<or> e = CHR ''/'' \<or> e = CHR 0x27 then e else CHR ''?'')"

function unquote :: "bytes \<Rightarrow> bytes" where
  "unquote s =
     (case s of
        [] \<Rightarrow> []
      | c # t \<Rightarrow>
          if c = backslash then
            (case t of
               [] \<Rightarrow> []
             | e # t1 \<Rightarrow>
                 if e = CHR ''u'' then
                   (case hex4 t1 of
                      None \<Rightarrow> []
                    | Some r \<Rightarrow>
                        if 0xD800 \<le> r \<and> r < 0xE000 then
                          (case utf16_pair r (getu4 (drop 4 t1)) of
                             Some r' \<Rightarrow> encode_rune r' @ unquote (drop 10 t1)
                           | None \<Rightarrow> encode_rune rune_error @ unquote (drop 4 t1))
                        else encode_rune r @ unquote (drop 4 t1))
                 else simple_escape e # unquote t1)
          else if byte_val c < 0x80 then c # unquote t
          else (case decode_rune s of
                  None \<Rightarrow> encode_rune rune_error @ unquote t
                | Some (r, n) \<Rightarrow> encode_rune r @ unquote (drop n s)))"
  by pat_completeness auto
termination
  by (relation "measure length") (auto dest: decode_rune_size)

declare unquote.simps [simp del]

text \<open>Numbers: \<^verbatim>\<open>-? (0 | [1-9][0-9]*) ([.][0-9]+)? ([eE][+-]?[0-9]+)?\<close>, as far as they go.\<close>

definition json_digit :: "char \<Rightarrow> bool" where
  "json_digit c = (digit_val c \<noteq> None)"

definition scan_digits1 :: "bytes \<Rightarrow> (bytes \<times> bytes) option" where
  "scan_digits1 s =
     (let ds = takeWhile json_digit s in if ds = [] then None else Some (ds, dropWhile json_digit s))"

definition scan_int :: "bytes \<Rightarrow> (bytes \<times> bytes) option" where
  "scan_int s =
     (case s of c # t \<Rightarrow> if c = CHR ''0'' then Some ([c], t) else scan_digits1 s | [] \<Rightarrow> None)"

definition scan_frac :: "bytes \<Rightarrow> (bytes \<times> bytes) option" where
  "scan_frac s =
     (case s of c # t \<Rightarrow> if c = CHR ''.'' then cons_raw [c] (scan_digits1 t) else Some ([], s)
      | [] \<Rightarrow> Some ([], s))"

definition scan_exp :: "bytes \<Rightarrow> (bytes \<times> bytes) option" where
  "scan_exp s =
     (case s of
        c # t \<Rightarrow>
          if c = CHR ''e'' \<or> c = CHR ''E'' then
            (case t of
               d # u \<Rightarrow> if d = CHR ''+'' \<or> d = CHR ''-'' then cons_raw [c, d] (scan_digits1 u)
                         else cons_raw [c] (scan_digits1 t)
             | [] \<Rightarrow> None)
          else Some ([], s)
      | [] \<Rightarrow> Some ([], s))"

definition scan_number :: "bytes \<Rightarrow> (bytes \<times> bytes) option" where
  "scan_number s =
     (let (sign, s1) = (case s of c # t \<Rightarrow> if c = CHR ''-'' then ([c], t) else ([], s) | [] \<Rightarrow> ([], s))
      in case scan_int s1 of
           None \<Rightarrow> None
         | Some (i, s2) \<Rightarrow>
             (case scan_frac s2 of
                None \<Rightarrow> None
              | Some (f, s3) \<Rightarrow>
                  (case scan_exp s3 of
                     None \<Rightarrow> None
                   | Some (x, s4) \<Rightarrow> Some (sign @ i @ f @ x, s4))))"

lemma cons_raw_Some: "cons_raw p r = Some (a, b) \<longleftrightarrow> (\<exists>a'. r = Some (a', b) \<and> a = p @ a')"
  by (auto simp: cons_raw_def)

lemma scan_string_split: "scan_string s = Some (a, b) \<Longrightarrow> s = a @ quote_char # b"
proof (induction s arbitrary: a b rule: scan_string.induct)
  case (1 s)
  then obtain c t where s: "s = c # t"
    by (cases s) auto
  consider "c = quote_char" | n where "c \<noteq> quote_char" "c = backslash" "escape_length t = Some n"
    | "c \<noteq> quote_char" "c = backslash" "escape_length t = None"
    | "c \<noteq> quote_char" "c \<noteq> backslash"
    by (cases "escape_length t") auto
  then show ?case
  proof cases
    case 1
    with "1.prems" show ?thesis by (simp add: s scan_string_Cons)
  next
    case 2
    with "1.prems" obtain a' where a': "scan_string (drop n s) = Some (a', b)" "a = take n s @ a'"
      by (auto simp: s scan_string_Cons cons_raw_Some)
    have "drop n s = a' @ quote_char # b"
      by (rule "1.IH"(1)) (use 2 s a' in auto)
    then show ?thesis using a' by (metis append.assoc append_take_drop_id)
  next
    case 3
    with "1.prems" show ?thesis by (simp add: s scan_string_Cons)
  next
    case 4
    with "1.prems" obtain a' where a': "scan_string t = Some (a', b)" "a = c # a'" "\<not> byte_val c < 0x20"
      by (auto simp: s scan_string_Cons cons_raw_Some split: if_splits)
    have "t = a' @ quote_char # b"
      by (rule "1.IH"(2)) (use 4 s a' in auto)
    then show ?thesis using a' s by simp
  qed
qed

lemma scan_digits1_split: "scan_digits1 s = Some (a, b) \<Longrightarrow> s = a @ b \<and> a \<noteq> []"
  by (auto simp: scan_digits1_def Let_def split: if_splits)

lemma scan_number_split:
  assumes "scan_number s = Some (a, b)"
  shows "s = a @ b \<and> a \<noteq> []"
proof -
  have i: "scan_int s = Some (a, b) \<Longrightarrow> s = a @ b \<and> a \<noteq> []" for s a b
    by (auto simp: scan_int_def dest: scan_digits1_split split: list.splits if_splits)
  have f: "scan_frac s = Some (a, b) \<Longrightarrow> s = a @ b" for s a b
    by (auto simp: scan_frac_def cons_raw_Some dest: scan_digits1_split split: list.splits if_splits)
  have x: "scan_exp s = Some (a, b) \<Longrightarrow> s = a @ b" for s a b
    by (auto simp: scan_exp_def cons_raw_Some dest: scan_digits1_split split: list.splits if_splits)
  show ?thesis
    using assms by (auto simp: scan_number_def Let_def dest!: i f x split: list.splits if_splits option.splits)
qed

text \<open>One token at the front of the text, after white space has been cut.\<close>

definition punctuation :: "char \<Rightarrow> jtoken option" where
  "punctuation c =
     (if c = CHR ''{'' then Some JLBrace else if c = CHR ''}'' then Some JRBrace
      else if c = CHR ''['' then Some JLBrack else if c = CHR '']'' then Some JRBrack
      else if c = CHR '':'' then Some JColon else if c = CHR '','' then Some JComma else None)"

definition scan_literal :: "bytes \<Rightarrow> (jtoken \<times> bytes) option" where
  "scan_literal s =
     (if has_prefix s ''true'' then Some (JTrue, drop 4 s)
      else if has_prefix s ''false'' then Some (JFalse, drop 5 s)
      else if has_prefix s ''null'' then Some (JNull, drop 4 s) else None)"

definition scan_token :: "bytes \<Rightarrow> (jtoken \<times> bytes) option" where
  "scan_token s =
     (case s of
        [] \<Rightarrow> None
      | c # t \<Rightarrow>
          (case punctuation c of
             Some p \<Rightarrow> Some (p, t)
           | None \<Rightarrow>
               if c = quote_char then map_option (\<lambda>(r, u). (JString (unquote r), u)) (scan_string t)
               else if c = CHR ''-'' \<or> json_digit c
                 then map_option (\<lambda>(n, u). (JNumber n, u)) (scan_number s)
               else scan_literal s))"

lemma scan_token_shorter:
  assumes "scan_token s = Some (t, r)"
  shows "length r < length s"
proof -
  obtain c u where s: "s = c # u"
    using assms by (auto simp: scan_token_def split: list.splits)
  have str: "length b < length u" if "scan_string u = Some (a, b)" for a b
    using scan_string_split [OF that] by simp
  have num: "length b < length s" if "scan_number s = Some (a, b)" for a b
    using scan_number_split [OF that] by (cases a) auto
  have lit: "length b < length s" if "scan_literal s = Some (a, b)" for a b
    using that by (auto simp: scan_literal_def s split: if_splits)
  show ?thesis
  proof (cases "punctuation c")
    case (Some p)
    then show ?thesis using assms by (simp add: scan_token_def s)
  next
    case None
    consider "c = quote_char" | "c \<noteq> quote_char" "c = CHR ''-'' \<or> json_digit c"
      | "c \<noteq> quote_char" "\<not> (c = CHR ''-'' \<or> json_digit c)" by blast
    then show ?thesis
    proof cases
      case 1
      then obtain a where "scan_string u = Some (a, r)"
        using assms None by (auto simp: scan_token_def s)
      then show ?thesis using str s by fastforce
    next
      case 2
      then obtain a where "scan_number s = Some (a, r)"
        using assms None by (auto simp: scan_token_def s)
      then show ?thesis by (rule num)
    next
      case 3
      then have "scan_literal s = Some (t, r)"
        using assms None by (simp add: scan_token_def s)
      then show ?thesis by (rule lit)
    qed
  qed
qed

function lex_json :: "bytes \<Rightarrow> jtoken list option" where
  "lex_json s =
     (case s of
        [] \<Rightarrow> Some []
      | c # r \<Rightarrow>
          if json_space c then lex_json r
          else (case scan_token s of
                  None \<Rightarrow> None
                | Some (t, u) \<Rightarrow> map_option (\<lambda>ts. t # ts) (lex_json u)))"
  by pat_completeness auto
termination
  by (relation "measure length") (auto dest: scan_token_shorter)

declare lex_json.simps [simp del]

section \<open>Trees\<close>

datatype jv = JvNull | JvBool bool | JvNum bytes | JvStr bytes | JvArr "jv list"
  | JvObj "(bytes \<times> jv) list"

text \<open>
  The parser keeps the open containers on a stack, innermost first: the elements of an array
  read so far (last first), or the members of an object and the key whose value is next.
  \<open>want_value\<close> reads a value, \<open>got_value\<close> continues after one. The scanner refuses to open
  more than 10000 containers.
\<close>

datatype frame = FArr "jv list" | FObj "(bytes \<times> jv) list" bytes

definition max_nesting :: nat where "max_nesting = 10000"

fun want_value :: "frame list \<Rightarrow> jtoken list \<Rightarrow> (jv \<times> jtoken list) option"
  and got_value :: "jv \<Rightarrow> frame list \<Rightarrow> jtoken list \<Rightarrow> (jv \<times> jtoken list) option" where
  "want_value st [] = None"
| "want_value st (t # ts) =
     (case t of
        JNull \<Rightarrow> got_value JvNull st ts
      | JTrue \<Rightarrow> got_value (JvBool True) st ts
      | JFalse \<Rightarrow> got_value (JvBool False) st ts
      | JNumber n \<Rightarrow> got_value (JvNum n) st ts
      | JString s \<Rightarrow> got_value (JvStr s) st ts
      | JLBrack \<Rightarrow>
          if length st \<ge> max_nesting then None
          else (case ts of
                  JRBrack # ts' \<Rightarrow> got_value (JvArr []) st ts'
                | _ \<Rightarrow> want_value (FArr [] # st) ts)
      | JLBrace \<Rightarrow>
          if length st \<ge> max_nesting then None
          else (case ts of
                  JRBrace # ts' \<Rightarrow> got_value (JvObj []) st ts'
                | JString k # JColon # ts' \<Rightarrow> want_value (FObj [] k # st) ts'
                | _ \<Rightarrow> None)
      | _ \<Rightarrow> None)"
| "got_value v [] ts = Some (v, ts)"
| "got_value v (FArr acc # st) ts =
     (case ts of
        JComma # ts' \<Rightarrow> want_value (FArr (v # acc) # st) ts'
      | JRBrack # ts' \<Rightarrow> got_value (JvArr (rev (v # acc))) st ts'
      | _ \<Rightarrow> None)"
| "got_value v (FObj acc k # st) ts =
     (case ts of
        JComma # JString k' # JColon # ts' \<Rightarrow> want_value (FObj ((k, v) # acc) k' # st) ts'
      | JRBrace # ts' \<Rightarrow> got_value (JvObj (rev ((k, v) # acc))) st ts'
      | _ \<Rightarrow> None)"

text \<open>Exactly one document and nothing but white space after it.\<close>

definition json_document :: "bytes \<Rightarrow> jv option" where
  "json_document s =
     (case lex_json s of
        None \<Rightarrow> None
      | Some ts \<Rightarrow> (case want_value [] ts of Some (v, []) \<Rightarrow> Some v | _ \<Rightarrow> None))"

section \<open>Decoding into structs\<close>

text \<open>
  A key selects the field of that name, else the first field whose name is equal under case
  folding. Only two code points beyond ASCII fold to an ASCII letter: U+017F to \<^verbatim>\<open>S\<close> and U+212A
  to \<^verbatim>\<open>K\<close>; other bytes keep their value and match no field name.
\<close>

definition upper_byte :: "char \<Rightarrow> char" where
  "upper_byte c = (let n = byte_val c in if 97 \<le> n \<and> n \<le> 122 then char_of (n - 32) else c)"

fun fold_name :: "bytes \<Rightarrow> bytes" where
  "fold_name [] = []"
| "fold_name (c # s) =
     (if has_prefix (c # s) (map char_of [0xC5, 0xBF :: nat]) then CHR ''S'' # fold_name (drop 1 s)
      else if has_prefix (c # s) (map char_of [0xE2, 0x84, 0xAA :: nat]) then CHR ''K'' # fold_name (drop 2 s)
      else upper_byte c # fold_name s)"

definition find_field :: "bytes list \<Rightarrow> bytes \<Rightarrow> bytes option" where
  "find_field names k =
     (if k \<in> set names then Some k else find (\<lambda>n. fold_name n = fold_name k) names)"

text \<open>
  Members are stored in document order, so of duplicate keys the last wins. An unknown key is an
  error under \<^verbatim>\<open>DisallowUnknownFields\<close> and skipped otherwise; a value of the wrong type makes
  the whole call fail; \<^verbatim>\<open>null\<close> leaves a field as it is.
\<close>

type_synonym 's fields = "(bytes \<times> (jv \<Rightarrow> 's \<Rightarrow> 's option)) list"

fun decode_members :: "bool \<Rightarrow> 's fields \<Rightarrow> (bytes \<times> jv) list \<Rightarrow> 's \<Rightarrow> 's option" where
  "decode_members strict fs [] s = Some s"
| "decode_members strict fs ((k, v) # ms) s =
     (case find_field (map fst fs) k of
        None \<Rightarrow> if strict then None else decode_members strict fs ms s
      | Some n \<Rightarrow>
          (case map_of fs n of
             None \<Rightarrow> None
           | Some dec \<Rightarrow>
               (case dec v s of None \<Rightarrow> None | Some s' \<Rightarrow> decode_members strict fs ms s')))"

definition decode_struct :: "bool \<Rightarrow> 's fields \<Rightarrow> jv \<Rightarrow> 's \<Rightarrow> 's option" where
  "decode_struct strict fs v s =
     (case v of JvNull \<Rightarrow> Some s | JvObj ms \<Rightarrow> decode_members strict fs ms s | _ \<Rightarrow> None)"

definition set_string :: "(bytes \<Rightarrow> 's \<Rightarrow> 's) \<Rightarrow> jv \<Rightarrow> 's \<Rightarrow> 's option" where
  "set_string upd v s = (case v of JvNull \<Rightarrow> Some s | JvStr x \<Rightarrow> Some (upd x s) | _ \<Rightarrow> None)"

definition set_bool :: "(bool \<Rightarrow> 's \<Rightarrow> 's) \<Rightarrow> jv \<Rightarrow> 's \<Rightarrow> 's option" where
  "set_bool upd v s = (case v of JvNull \<Rightarrow> Some s | JvBool b \<Rightarrow> Some (upd b s) | _ \<Rightarrow> None)"

definition set_int :: "(int \<Rightarrow> 's \<Rightarrow> 's) \<Rightarrow> jv \<Rightarrow> 's \<Rightarrow> 's option" where
  "set_int upd v s =
     (case v of
        JvNull \<Rightarrow> Some s
      | JvNum n \<Rightarrow> (case parse_int 64 n of None \<Rightarrow> None | Some i \<Rightarrow> Some (upd i s))
      | _ \<Rightarrow> None)"

lemma find_field_exact [simp]: "k \<in> set names \<Longrightarrow> find_field names k = Some k"
  by (simp add: find_field_def)

lemma find_field_mem: "find_field names k = Some n \<Longrightarrow> n \<in> set names"
  by (auto simp: find_field_def find_Some_iff split: if_splits)

end
