(* ===== verification/GoJsonEncode.thy ===== *)
theory GoJsonEncode
  imports GoJson
begin

text \<open>
  The writing half of \<^verbatim>\<open>encoding/json\<close>: string escapes and the encoder of trees, and the
  round trip \<open>json_document_encode\<close>: what the encoder writes, the reader reads back.
\<close>

section \<open>Writing\<close>

text \<open>
  The string encoder: quotes and backslashes are escaped, control characters get their short
  form or \<^verbatim>\<open>\u00XX\<close>, undecodable bytes become \<^verbatim>\<open>\ufffd\<close>, and the two line separators
  U+2028 and U+2029 are always escaped. With \<open>html\<close> (\<^verbatim>\<open>json.Marshal\<close>) the three HTML
  characters are escaped too.
\<close>

definition u_escape :: "nat \<Rightarrow> bytes" where
  "u_escape r =
     [backslash, CHR ''u'', hex_char (r div 4096 mod 16), hex_char (r div 256 mod 16),
      hex_char (r div 16 mod 16), hex_char (r mod 16)]"

definition escape_ascii :: "bool \<Rightarrow> char \<Rightarrow> bytes" where
  "escape_ascii html c =
     (if c = quote_char \<or> c = backslash then [backslash, c]
      else if c = CHR 0x08 then [backslash, CHR ''b''] else if c = CHR 0x0C then [backslash, CHR ''f'']
      else if c = CHR 0x0A then [backslash, CHR ''n''] else if c = CHR 0x0D then [backslash, CHR ''r'']
      else if c = CHR 0x09 then [backslash, CHR ''t'']
      else if byte_val c < 0x20 \<or> (html \<and> c \<in> set ''<>&'') then u_escape (byte_val c)
      else [c])"

function json_escape :: "bool \<Rightarrow> bytes \<Rightarrow> bytes" where
  "json_escape html s =
     (case s of
        [] \<Rightarrow> []
      | c # t \<Rightarrow>
          if byte_val c < 0x80 then escape_ascii html c @ json_escape html t
          else (case decode_rune s of
                  None \<Rightarrow> u_escape rune_error @ json_escape html t
                | Some (r, n) \<Rightarrow>
                    (if r = 0x2028 \<or> r = 0x2029 then u_escape r else take n s)
                      @ json_escape html (drop n s)))"
  by pat_completeness auto
termination
  by (relation "measure (\<lambda>(h, s). length s)") (auto dest: decode_rune_size)

declare json_escape.simps [simp del]

definition json_quote :: "bool \<Rightarrow> bytes \<Rightarrow> bytes" where
  "json_quote html s = quote_char # json_escape html s @ [quote_char]"

lemma unquote_Nil [simp]: "unquote [] = []"
  by (simp add: unquote.simps)

lemma json_escape_Nil [simp]: "json_escape h [] = []"
  by (simp add: json_escape.simps)

lemma scan_string_plain:
  "list_all (\<lambda>c. \<not> byte_val c < 0x20 \<and> c \<noteq> quote_char \<and> c \<noteq> backslash) p \<Longrightarrow>
     scan_string (p @ x) = cons_raw p (scan_string x)"
  by (induction p) (auto simp: scan_string_Cons cons_raw_def option.map_comp o_def case_prod_unfold
      option.map_ident)

lemma quote_neq_backslash [simp]: "quote_char \<noteq> backslash" "backslash \<noteq> quote_char"
  by (simp_all add: quote_char_def backslash_def)

lemma is_hex_char [simp]: "d < 16 \<Longrightarrow> is_hex (hex_char d)"
  by (simp add: is_hex_def)

lemma scan_escape:
  "escape_length t = Some n \<Longrightarrow>
     scan_string (backslash # t) = cons_raw (take n (backslash # t)) (scan_string (drop n (backslash # t)))"
  by (subst scan_string_Cons) simp

lemma scan_u_escape: "scan_string (u_escape r @ x) = cons_raw (u_escape r) (scan_string x)"
proof -
  define t where "t = drop 1 (u_escape r) @ x"
  have "CHR ''u'' \<noteq> quote_char" "CHR ''u'' \<noteq> backslash" by (simp_all add: quote_char_def backslash_def)
  then have e: "escape_length t = Some 6"
    by (simp add: t_def escape_length_def u_escape_def)
  have "u_escape r @ x = backslash # t" "take 6 (backslash # t) = u_escape r" "drop 6 (backslash # t) = x"
    by (simp_all add: t_def u_escape_def)
  then show ?thesis using scan_escape [OF e] by simp
qed

lemma scan_short_escape:
  "e \<in> set ''bfnrt/'' \<or> e = backslash \<or> e = quote_char \<Longrightarrow>
     scan_string (backslash # e # x) = cons_raw [backslash, e] (scan_string x)"
  by (subst scan_escape [of _ 2]) (auto simp: escape_length_def)

lemma hex_digits:
  fixes r :: nat
  assumes "r < 0x10000"
  shows "((r div 4096 mod 16 * 16 + r div 256 mod 16) * 16 + r div 16 mod 16) * 16 + r mod 16 = r"
proof -
  have "r div 4096 < 16" using assms by (simp add: div_less_iff_less_mult)
  then have "r div 4096 mod 16 = r div 256 div 16" by (simp add: div_mult2_eq [symmetric])
  then have "r div 4096 mod 16 * 16 + r div 256 mod 16 = r div 256"
    by (simp only: div_mult_mod_eq)
  also have "r div 256 = r div 16 div 16" by (simp add: div_mult2_eq [symmetric])
  finally show ?thesis by (simp only: div_mult_mod_eq)
qed

lemma hex4_u_escape: 
  assumes "r < 0x10000"
  shows "hex4 (drop 2 (u_escape r) @ x) = Some r"
proof -
  have "hex4 (drop 2 (u_escape r) @ x) =
      Some (((r div 4096 mod 16 * 16 + r div 256 mod 16) * 16 + r div 16 mod 16) * 16 + r mod 16)"
    by (simp add: hex4_def u_escape_def)
  then show ?thesis by (simp only: hex_digits [OF assms])
qed

lemma unquote_u_escape:
  assumes "r < 0xD800 \<or> (0xDFFF < r \<and> r < 0x10000)"
  shows "unquote (u_escape r @ x) = encode_rune r @ unquote x"
proof -
  have "unquote (u_escape r @ x) = unquote (backslash # CHR ''u'' # drop 2 (u_escape r) @ x)"
    by (simp add: u_escape_def)
  also have "\<dots> = encode_rune r @ unquote (drop 4 (drop 2 (u_escape r) @ x))"
    using assms by (subst unquote.simps) (auto simp: hex4_u_escape)
  also have "drop 4 (drop 2 (u_escape r) @ x) = x"
    by (simp add: u_escape_def)
  finally show ?thesis .
qed

text \<open>The four shapes an escaped ASCII byte takes.\<close>

lemma escape_ascii_cases [case_names self short unicode plain]:
  assumes "c = quote_char \<or> c = backslash \<Longrightarrow> escape_ascii h c = [backslash, c] \<Longrightarrow> P"
    and "\<And>e. (c, e) \<in> {(CHR 0x08, CHR ''b''), (CHR 0x0C, CHR ''f''), (CHR 0x0A, CHR ''n''),
          (CHR 0x0D, CHR ''r''), (CHR 0x09, CHR ''t'')} \<Longrightarrow> escape_ascii h c = [backslash, e] \<Longrightarrow> P"
    and "escape_ascii h c = u_escape (byte_val c) \<Longrightarrow> P"
    and "\<not> byte_val c < 0x20 \<Longrightarrow> c \<noteq> quote_char \<Longrightarrow> c \<noteq> backslash \<Longrightarrow> escape_ascii h c = [c] \<Longrightarrow> P"
  shows P
proof (cases "c = quote_char \<or> c = backslash")
  case True
  with assms(1) show P by (simp add: escape_ascii_def)
next
  case nq: False
  show P
  proof (cases "c \<in> {CHR 0x08, CHR 0x0C, CHR 0x0A, CHR 0x0D, CHR 0x09}")
    case True
    then show P
      using assms(2) nq unfolding escape_ascii_def
      by (elim insertE emptyE) (simp_all (no_asm_use), fastforce+)
  next
    case False
    with nq have e: "escape_ascii h c =
        (if byte_val c < 0x20 \<or> (h \<and> c \<in> set ''<>&'') then u_escape (byte_val c) else [c])"
      unfolding escape_ascii_def by (simp only: insert_iff empty_iff de_Morgan_disj if_False simp_thms)
    show P
      using assms(3,4) nq e by (cases "byte_val c < 0x20 \<or> (h \<and> c \<in> set ''<>&'')") auto
  qed
qed

lemma scan_escape_ascii:
  "scan_string (escape_ascii h c @ x) = cons_raw (escape_ascii h c) (scan_string x)"
proof (cases rule: escape_ascii_cases [of c h])
  case (short e)
  then have "e \<in> set ''bfnrt/''" by auto
  with short show ?thesis by (simp add: scan_short_escape)
next
  case plain
  then show ?thesis by (simp add: scan_string_Cons)
qed (auto simp: scan_short_escape scan_u_escape)

lemma encode_rune_ascii: "byte_val c < 0x80 \<Longrightarrow> encode_rune (byte_val c) = [c]"
  by (simp add: encode_rune_def encode_valid_def valid_rune_def)

lemma unquote_short:
  "e \<noteq> CHR ''u'' \<Longrightarrow> unquote (backslash # e # x) = simple_escape e # unquote x"
  by (subst unquote.simps) simp

lemma unquote_escape_ascii:
  assumes "byte_val c < 0x80"
  shows "unquote (escape_ascii h c @ x) = c # unquote x"
proof (cases rule: escape_ascii_cases [of c h])
  case self
  then have "c \<noteq> CHR ''u''" "simple_escape c = c"
    by (auto simp: quote_char_def backslash_def simple_escape_def)
  with self show ?thesis by (simp add: unquote_short)
next
  case (short e)
  then have "e \<noteq> CHR ''u''" "simple_escape e = c"
    by (auto simp: simple_escape_def quote_char_def backslash_def)
  with short show ?thesis by (simp add: unquote_short)
next
  case unicode
  with assms show ?thesis by (simp add: unquote_u_escape encode_rune_ascii)
next
  case plain
  with assms show ?thesis by (simp add: unquote.simps [of "c # x"])
qed

lemma wide_chunk_plain:
  "list_all (\<lambda>x. \<not> byte_val x < 0x80) p \<Longrightarrow>
     list_all (\<lambda>c. \<not> byte_val c < 0x20 \<and> c \<noteq> quote_char \<and> c \<noteq> backslash) p"
  by (auto elim!: list_all_mono_on simp: quote_char_def backslash_def)

lemma json_escape_ascii:
  "byte_val c < 0x80 \<Longrightarrow> json_escape h (c # t) = escape_ascii h c @ json_escape h t"
  by (subst json_escape.simps) simp

lemma json_escape_chunk:
  assumes "s \<noteq> []" and "\<not> byte_val (hd s) < 0x80"
  obtains p r n where "json_escape h s = p @ json_escape h (drop n s)" "0 < n" "n \<le> length s"
    "runes s = r # runes (drop n s)"
    "\<And>x. scan_string (p @ x) = cons_raw p (scan_string x)"
    "\<And>x. unquote (p @ x) = encode_rune r @ unquote x"
proof -
  from assms obtain c t where s: "s = c # t" and c: "\<not> byte_val c < 0x80" by (cases s) auto
  show thesis
  proof (cases "decode_rune s")
    case None
    show ?thesis
    proof (rule that)
      show "json_escape h s = u_escape rune_error @ json_escape h (drop 1 s)"
        using None c by (subst json_escape.simps) (simp add: s)
      show "runes s = rune_error # runes (drop 1 s)"
        using None by (subst runes.simps) (simp add: s)
    qed (simp_all add: s scan_u_escape unquote_u_escape)
  next
    case (Some rn)
    then obtain r n where d: "decode_rune s = Some (r, n)" by (cases rn) auto
    note size = decode_rune_size [OF d] and can = decode_rune_canonical [OF d]
    have wide: "list_all (\<lambda>x. \<not> byte_val x < 0x80) (take n s)"
      using decode_rune_wide [of c t r n] d s c by simp
    have unq: "unquote (take n s @ x) = encode_rune r @ unquote x" for x
    proof -
      have hd: "take n s @ x = c # take (n - 1) t @ x"
        using size by (cases n) (simp_all add: s)
      have "decode_rune (take n s @ x) = Some (r, n)"
        using can decode_rune_encode [OF can(1), of x] by simp
      then have "unquote (take n s @ x) = encode_rune r @ unquote (drop n (take n s @ x))"
        unfolding hd using c by (subst unquote.simps) (auto simp: backslash_def)
      then show ?thesis using size by simp
    qed
    show ?thesis
    proof (rule that)
      show "json_escape h s =
          (if r = 0x2028 \<or> r = 0x2029 then u_escape r else take n s) @ json_escape h (drop n s)"
        using d c by (subst json_escape.simps) (simp add: s)
      show "runes s = r # runes (drop n s)"
        using d by (subst runes.simps) (simp add: s)
    qed (use size unq scan_string_plain [OF wide_chunk_plain [OF wide]] in
        \<open>auto simp: scan_u_escape unquote_u_escape\<close>)
  qed
qed

lemma cons_raw_append: "cons_raw (p @ q) r = cons_raw p (cons_raw q r)"
  by (cases r) (auto simp: cons_raw_def)

lemma json_escape_scan:
  "scan_string (json_escape h s @ x) = cons_raw (json_escape h s) (scan_string x) \<and>
   unquote (json_escape h s) = encode_runes (runes s)"
proof (induction s rule: length_induct)
  case (1 s)
  consider "s = []" | c t where "s = c # t" "byte_val c < 0x80"
    | "s \<noteq> []" "\<not> byte_val (hd s) < 0x80"
    by (cases s) auto
  then show ?case
  proof cases
    case 1
    then show ?thesis by (cases "scan_string x") (auto simp: cons_raw_def)
  next
    case 2
    with "1" have "scan_string (json_escape h t @ x) = cons_raw (json_escape h t) (scan_string x)"
      "unquote (json_escape h t) = encode_runes (runes t)" by simp_all
    with 2 show ?thesis
      by (simp add: json_escape_ascii scan_escape_ascii unquote_escape_ascii cons_raw_append
          encode_rune_ascii)
  next
    case 3
    then obtain p r n where p: "json_escape h s = p @ json_escape h (drop n s)" "0 < n" "n \<le> length s"
        "runes s = r # runes (drop n s)"
        "\<And>x. scan_string (p @ x) = cons_raw p (scan_string x)"
        "\<And>x. unquote (p @ x) = encode_rune r @ unquote x"
      by (rule json_escape_chunk [where h = h]) blast
    with 3 "1" have "scan_string (json_escape h (drop n s) @ x) = cons_raw (json_escape h (drop n s)) (scan_string x)"
      "unquote (json_escape h (drop n s)) = encode_runes (runes (drop n s))" by simp_all
    with p show ?thesis by (simp add: cons_raw_append)
  qed
qed

text \<open>A quoted string scans to its own escapes, whose value is the string with invalid bytes replaced.\<close>

lemma scan_json_quote:
  "scan_string (json_escape h s @ quote_char # x) = Some (json_escape h s, x)"
  using json_escape_scan [of h s "quote_char # x"] by (simp add: scan_string_Cons cons_raw_def)

lemma unquote_json_escape: "valid_utf8 s \<Longrightarrow> unquote (json_escape h s) = s"
  using json_escape_scan [of h s "[]"] valid_utf8_runes [of s] by simp

text \<open>Trees: no white space, members in the given order.\<close>

definition commas :: "'a \<Rightarrow> 'a list list \<Rightarrow> 'a list" where
  "commas sep xss = (case xss of [] \<Rightarrow> [] | x # ys \<Rightarrow> x @ concat (map (\<lambda>y. sep # y) ys))"

lemma commas_simps [simp]:
  "commas c [] = []" "commas c [x] = x" "commas c (x # y # ys) = x @ c # commas c (y # ys)"
  by (simp_all add: commas_def)

fun json_encode :: "bool \<Rightarrow> jv \<Rightarrow> bytes" where
  "json_encode h JvNull = ''null''"
| "json_encode h (JvBool b) = (if b then ''true'' else ''false'')"
| "json_encode h (JvNum n) = n"
| "json_encode h (JvStr s) = json_quote h s"
| "json_encode h (JvArr vs) = CHR ''['' # commas CHR '','' (map (json_encode h) vs) @ '']''"
| "json_encode h (JvObj ms) =
     CHR ''{'' # commas CHR '','' (map (\<lambda>(k, v). json_quote h k @ CHR '':'' # json_encode h v) ms) @ ''}''"

fun jtoks :: "jv \<Rightarrow> jtoken list" where
  "jtoks JvNull = [JNull]"
| "jtoks (JvBool b) = [if b then JTrue else JFalse]"
| "jtoks (JvNum n) = [JNumber n]"
| "jtoks (JvStr s) = [JString s]"
| "jtoks (JvArr vs) = JLBrack # commas JComma (map jtoks vs) @ [JRBrack]"
| "jtoks (JvObj ms) =
     JLBrace # commas JComma (map (\<lambda>(k, v). JString k # JColon # jtoks v) ms) @ [JRBrace]"

definition canon_digits :: "bytes \<Rightarrow> bool" where
  "canon_digits n =
     (n = ''0'' \<or> (n \<noteq> [] \<and> hd n \<noteq> CHR ''0'' \<and> list_all json_digit n))"

fun jv_wf :: "jv \<Rightarrow> bool" where
  "jv_wf (JvNum n) = canon_digits n"
| "jv_wf (JvStr s) = valid_utf8 s"
| "jv_wf (JvArr vs) = list_all jv_wf vs"
| "jv_wf (JvObj ms) = list_all (\<lambda>(k, v). valid_utf8 k \<and> jv_wf v) ms"
| "jv_wf v = True"

fun jv_depth :: "jv \<Rightarrow> nat" where
  "jv_depth (JvArr vs) = Suc (fold max (map jv_depth vs) 0)"
| "jv_depth (JvObj ms) = Suc (fold max (map (\<lambda>(k, v). jv_depth v) ms) 0)"
| "jv_depth v = 0"

section \<open>Reading back what was written\<close>

definition json_delim :: "bytes \<Rightarrow> bool" where
  "json_delim x = (x = [] \<or> hd x \<in> {CHR '','', CHR '']'', CHR ''}'', CHR 0x0A})"

lemma lex_json_Nil [simp]: "lex_json [] = Some []"
  by (simp add: lex_json.simps)

lemma lex_json_punct:
  "punctuation c = Some p \<Longrightarrow> lex_json (c # s) = map_option (\<lambda>ts. p # ts) (lex_json s)"
  by (subst lex_json.simps)
     (auto simp: scan_token_def json_space_def punctuation_def split: if_splits)

lemma lex_json_token:
  "\<not> json_space c \<Longrightarrow> scan_token (c # s) = Some (t, u) \<Longrightarrow>
     lex_json (c # s) = map_option (\<lambda>ts. t # ts) (lex_json u)"
  by (subst lex_json.simps) simp

lemma quote_char_special [simp]:
  "punctuation quote_char = None" "\<not> json_space quote_char"
  by (simp_all add: quote_char_def punctuation_def json_space_def)

lemma lex_json_quote:
  "valid_utf8 s \<Longrightarrow> lex_json (json_quote h s @ x) = map_option (\<lambda>ts. JString s # ts) (lex_json x)"
  unfolding json_quote_def append_Cons append_assoc append_Nil
  by (rule lex_json_token) (simp_all add: scan_token_def scan_json_quote unquote_json_escape)

lemma digit_not_in:
  "json_digit c \<Longrightarrow> c \<notin> {CHR ''{'', CHR ''}'', CHR ''['', CHR '']'', CHR '':'', CHR '','', CHR 0x22, CHR ''-'',
     CHR ''.'', CHR ''e'', CHR ''E'', CHR '' '', CHR 0x09, CHR 0x0A, CHR 0x0D}"
  by (auto simp: json_digit_def digit_val_def)

lemma digit_not_special:
  assumes "json_digit c"
  shows "punctuation c = None" "c \<noteq> quote_char" "\<not> json_space c" "c \<noteq> CHR ''-''"
  using digit_not_in [OF assms]
  by (simp_all add: punctuation_def quote_char_def json_space_def)

lemma scan_number_canon:
  assumes "canon_digits n" and "json_delim x"
  shows "scan_number (n @ x) = Some (n, x)"
proof -
  have nd: "takeWhile json_digit x = [] \<and> dropWhile json_digit x = x"
    using assms(2) by (cases x) (auto simp: json_delim_def json_digit_def digit_val_def)
  have fx: "scan_frac x = Some ([], x)" "scan_exp x = Some ([], x)"
    using assms(2) by (cases x; force simp: json_delim_def scan_frac_def scan_exp_def)+
  show ?thesis
  proof (cases "n = ''0''")
    case True
    then show ?thesis using fx by (simp add: scan_number_def scan_int_def)
  next
    case False
    with assms(1) obtain c r where n: "n = c # r" "c \<noteq> CHR ''0''" "json_digit c" "list_all json_digit r"
      by (cases n) (auto simp: canon_digits_def)
    have tw: "takeWhile json_digit (n @ x) = n" "dropWhile json_digit (n @ x) = x"
      using n nd by (auto simp: list_all_iff takeWhile_append2 dropWhile_append2)
    then have "scan_int (n @ x) = Some (n, x)"
      using n by (simp add: scan_int_def scan_digits1_def)
    moreover have "c \<noteq> CHR ''-''" using digit_not_special n(3) by blast
    ultimately show ?thesis using fx n by (simp add: scan_number_def)
  qed
qed

lemma lex_json_number:
  assumes "canon_digits n" and "json_delim x"
  shows "lex_json (n @ x) = map_option (\<lambda>ts. JNumber n # ts) (lex_json x)"
proof -
  obtain c r where n: "n = c # r" "json_digit c"
    using assms(1) by (cases n) (auto simp: canon_digits_def json_digit_def digit_val_def)
  then show ?thesis
    using lex_json_token [of c "r @ x" "JNumber n" x] digit_not_special [of c] scan_number_canon [OF assms]
    by (simp add: scan_token_def)
qed

lemma lex_literal:
  "scan_token (''null'' @ x) = Some (JNull, x)" "scan_token (''true'' @ x) = Some (JTrue, x)"
  "scan_token (''false'' @ x) = Some (JFalse, x)"
  "\<not> json_space CHR ''n''" "\<not> json_space CHR ''t''" "\<not> json_space CHR ''f''"
  by (simp_all add: json_space_def scan_token_def punctuation_def quote_char_def json_digit_def
      digit_val_def scan_literal_def)

lemma map_option_append:
  "map_option (\<lambda>ts. a @ ts) (map_option (\<lambda>ts. b @ ts) r) = map_option (\<lambda>ts. (a @ b) @ ts) r"
  by (cases r) simp_all

text \<open>The elements of an array and the members of an object, when their values are read back.\<close>

lemma lex_array_items:
  assumes "\<And>v y. v \<in> set vs \<Longrightarrow> json_delim y \<Longrightarrow>
      lex_json (json_encode h v @ y) = map_option (\<lambda>ts. jtoks v @ ts) (lex_json y)"
  shows "vs \<noteq> [] \<Longrightarrow> lex_json (commas CHR '','' (map (json_encode h) vs) @ CHR '']'' # x) =
     map_option (\<lambda>ts. commas JComma (map jtoks vs) @ JRBrack # ts) (lex_json x)"
  using assms
proof (induction vs rule: induct_list012)
  case (2 v)
  then show ?case
    by (simp add: json_delim_def lex_json_punct [of "CHR '']''" JRBrack] punctuation_def option.map_comp o_def)
next
  case (3 v w vs)
  then show ?case
    by (simp add: json_delim_def lex_json_punct [of "CHR '',''" JComma] punctuation_def option.map_comp o_def)
qed simp

lemma lex_object_members:
  assumes "\<And>k v y. (k, v) \<in> set ms \<Longrightarrow> json_delim y \<Longrightarrow>
      lex_json (json_encode h v @ y) = map_option (\<lambda>ts. jtoks v @ ts) (lex_json y)"
    and "\<And>k v. (k, v) \<in> set ms \<Longrightarrow> valid_utf8 k"
  shows "ms \<noteq> [] \<Longrightarrow>
     lex_json (commas CHR '','' (map (\<lambda>(k, v). json_quote h k @ CHR '':'' # json_encode h v) ms) @ CHR ''}'' # x) =
       map_option (\<lambda>ts. commas JComma (map (\<lambda>(k, v). JString k # JColon # jtoks v) ms) @ JRBrace # ts) (lex_json x)"
  using assms
proof (induction ms rule: induct_list012)
  case (2 m)
  then show ?case
    by (cases m) (simp add: json_delim_def lex_json_punct [of "CHR ''}''" JRBrace]
        lex_json_punct [of "CHR '':''" JColon] punctuation_def lex_json_quote option.map_comp o_def)
next
  case (3 m w ms)
  then show ?case
    by (cases m) (force simp add: json_delim_def lex_json_punct [of "CHR '',''" JComma]
        lex_json_punct [of "CHR '':''" JColon] punctuation_def lex_json_quote option.map_comp o_def)
qed simp

lemma lex_json_encode:
  "jv_wf v \<Longrightarrow> json_delim x \<Longrightarrow>
     lex_json (json_encode h v @ x) = map_option (\<lambda>ts. jtoks v @ ts) (lex_json x)"
proof (induction v arbitrary: x)
  case (JvArr vs)
  have "vs \<noteq> [] \<Longrightarrow> lex_json (commas CHR '','' (map (json_encode h) vs) @ CHR '']'' # x) =
      map_option (\<lambda>ts. commas JComma (map jtoks vs) @ JRBrack # ts) (lex_json x)"
    using JvArr by (intro lex_array_items) (simp_all add: list_all_iff)
  then show ?case
    by (cases "vs = []") (simp_all add: lex_json_punct punctuation_def option.map_comp o_def)
next
  case (JvObj ms)
  have "ms \<noteq> [] \<Longrightarrow>
      lex_json (commas CHR '','' (map (\<lambda>(k, v). json_quote h k @ CHR '':'' # json_encode h v) ms) @ CHR ''}'' # x) =
        map_option (\<lambda>ts. commas JComma (map (\<lambda>(k, v). JString k # JColon # jtoks v) ms) @ JRBrace # ts) (lex_json x)"
    using JvObj by (intro lex_object_members) (force simp: list_all_iff)+
  then show ?case
    by (cases "ms = []") (simp_all add: lex_json_punct punctuation_def option.map_comp o_def)
next
  case (JvStr s)
  then show ?case by (simp add: lex_json_quote)
next
  case (JvNum n)
  then show ?case by (simp add: lex_json_number)
next
  case JvNull
  then show ?case
    using lex_json_token [of "CHR ''n''" "''ull'' @ x" JNull x] lex_literal by simp
next
  case (JvBool b)
  then show ?case
    using lex_json_token [of "CHR ''t''" "''rue'' @ x" JTrue x]
      lex_json_token [of "CHR ''f''" "''alse'' @ x" JFalse x] lex_literal by simp
qed

lemma le_fold_max: "m \<le> fold max xs (m :: nat)"
  by (induction xs arbitrary: m) (auto intro: order_trans [OF max.cobounded2])

lemma fold_max_ge: "x \<in> set xs \<Longrightarrow> x \<le> fold max xs (m :: nat)"
  by (induction xs arbitrary: m) (auto intro: order_trans [OF max.cobounded1 le_fold_max])

lemma jtoks_first:
  obtains t ts where "jtoks v = t # ts" "t \<noteq> JRBrack" "t \<noteq> JRBrace"
  by (cases v) auto

lemma want_array_items:
  assumes "\<And>v acc ts. v \<in> set (v0 # vs) \<Longrightarrow> want_value (FArr acc # st) (jtoks v @ ts) = got_value v (FArr acc # st) ts"
  shows "want_value (FArr acc # st) (commas JComma (map jtoks (v0 # vs)) @ JRBrack # ts) =
     got_value (JvArr (rev acc @ v0 # vs)) st ts"
  using assms by (induction vs arbitrary: v0 acc) simp_all

lemma want_object_members:
  assumes "\<And>kv acc k ts. kv \<in> set ((k0, v0) # ms) \<Longrightarrow>
      want_value (FObj acc k # st) (jtoks (snd kv) @ ts) = got_value (snd kv) (FObj acc k # st) ts"
  shows "want_value (FObj acc k0 # st)
       (drop 2 (commas JComma (map (\<lambda>(k, v). JString k # JColon # jtoks v) ((k0, v0) # ms))) @ JRBrace # ts) =
     got_value (JvObj (rev acc @ (k0, v0) # ms)) st ts"
  using assms
proof (induction ms arbitrary: k0 v0 acc)
  case (Cons m ms)
  let ?m = "\<lambda>(k, v). JString k # JColon # jtoks v"
  obtain k v where m: "m = (k, v)" by (cases m)
  have "got_value v0 (FObj acc k0 # st) (JComma # commas JComma (map ?m ((k, v) # ms)) @ JRBrace # ts) =
      want_value (FObj ((k0, v0) # acc) k # st) (drop 2 (commas JComma (map ?m ((k, v) # ms))) @ JRBrace # ts)"
    by (cases ms) simp_all
  also have "\<dots> = got_value (JvObj (rev ((k0, v0) # acc) @ (k, v) # ms)) st ts"
    by (rule Cons.IH, rule Cons.prems) (auto simp: m)
  finally show ?case using Cons.prems [of "(k0, v0)"] by (simp add: m)
next
  case Nil
  then show ?case using Nil [of "(k0, v0)" acc k0 "JRBrace # ts"] by simp
qed

lemma want_value_jtoks:
  "length st + jv_depth v \<le> max_nesting \<Longrightarrow> want_value st (jtoks v @ ts) = got_value v st ts"
proof (induction v arbitrary: st ts)
  case (JvArr vs)
  have depth: "v \<in> set vs \<Longrightarrow> Suc (length st) + jv_depth v \<le> max_nesting" for v
    using JvArr.prems fold_max_ge [of "jv_depth v" "map jv_depth vs" 0] by simp
  show ?case
  proof (cases vs)
    case Nil
    with JvArr.prems show ?thesis by simp
  next
    case (Cons v vs')
    obtain t u where t: "jtoks v = t # u" "t \<noteq> JRBrack" by (rule jtoks_first)
    then obtain r where r: "commas JComma (map jtoks (v # vs')) = t # r" by (cases vs') simp_all
    have "want_value st (jtoks (JvArr vs) @ ts) = want_value (FArr [] # st) (commas JComma (map jtoks (v # vs')) @ JRBrack # ts)"
      using JvArr.prems t(2) r by (simp add: Cons split: jtoken.splits)
    also have "\<dots> = got_value (JvArr (rev [] @ v # vs')) st ts"
      by (rule want_array_items) (use JvArr.IH depth Cons in simp)
    finally show ?thesis by (simp add: Cons)
  qed
next
  case (JvObj ms)
  have depth: "(k, v) \<in> set ms \<Longrightarrow> Suc (length st) + jv_depth v \<le> max_nesting" for k v
    using JvObj.prems fold_max_ge [of "jv_depth v" "map (\<lambda>(k, v). jv_depth v) ms" 0] by force
  show ?case
  proof (cases ms)
    case Nil
    with JvObj.prems show ?thesis by simp
  next
    case (Cons m ms')
    obtain k v where m: "m = (k, v)" by (cases m)
    have "want_value st (jtoks (JvObj ms) @ ts) = want_value (FObj [] k # st)
        (drop 2 (commas JComma (map (\<lambda>(k, v). JString k # JColon # jtoks v) ((k, v) # ms'))) @ JRBrace # ts)"
      using JvObj.prems by (cases ms') (simp_all add: Cons m)
    also have "\<dots> = got_value (JvObj (rev [] @ (k, v) # ms')) st ts"
      by (rule want_object_members) (use JvObj.IH depth Cons m in fastforce)
    finally show ?thesis by (simp add: Cons m)
  qed
qed simp_all

theorem json_document_encode:
  assumes "jv_wf v" and "jv_depth v \<le> max_nesting"
  shows "json_document (json_encode h v) = Some v"
  using lex_json_encode [OF assms(1), of "[]" h] want_value_jtoks [of "[]" v "[]"] assms(2)
  by (simp add: json_document_def json_delim_def)

text \<open>The encoders of streams end a document with a newline.\<close>

theorem json_document_line:
  assumes "jv_wf v" and "jv_depth v \<le> max_nesting"
  shows "json_document (json_encode h v @ [CHR 0x0A]) = Some v"
proof -
  have "lex_json [CHR 0x0A] = Some []"
    by (simp add: lex_json.simps [of "[CHR 0x0A]"] json_space_def)
  then show ?thesis
    using lex_json_encode [OF assms(1), of "[CHR 0x0A]" h] want_value_jtoks [of "[]" v "[]"] assms(2)
    by (simp add: json_document_def json_delim_def)
qed

section \<open>Decimal numerals\<close>

lemma json_digit_char [simp]: "d < 10 \<Longrightarrow> json_digit (digit_char d)"
  unfolding json_digit_def by (simp only: digit_val_char) simp

lemma digit_char_zero: "d < 10 \<Longrightarrow> digit_char d = digit_char 0 \<longleftrightarrow> d = 0"
  by (metis digit_val_char option.inject zero_less_numeral)

lemma digit_char_0: "digit_char 0 = CHR ''0''"
  by (simp add: digit_char_def char_of_def bit_0)

lemma show_nat_digits: "list_all json_digit (show_nat n)"
  by (induction n rule: show_nat.induct) (subst show_nat.simps, simp)

lemma show_nat_head: "0 < n \<Longrightarrow> hd (show_nat n) \<noteq> CHR ''0''"
proof (induction n rule: show_nat.induct)
  case (1 n)
  then show ?case
    using digit_char_zero [of n]
    by (cases "n < 10") (simp_all add: show_nat.simps [of n] digit_char_0 hd_append)
qed

lemma canon_show_nat [simp]: "canon_digits (show_nat n)"
proof (cases n)
  case 0
  then show ?thesis by (subst show_nat.simps) (simp add: canon_digits_def digit_char_0)
next
  case (Suc m)
  then show ?thesis
    using show_nat_digits [of n] show_nat_head [of n] by (simp add: canon_digits_def)
qed

lemma digit_not_sign: "json_digit c \<Longrightarrow> c \<noteq> CHR ''+'' \<and> c \<noteq> CHR ''-''"
  by (auto simp: json_digit_def digit_val_def)

lemma parse_int_show_nat: "n < 2 ^ (w - 1) \<Longrightarrow> parse_int w (show_nat n) = Some (int n)"
proof -
  assume n: "n < 2 ^ (w - 1)"
  obtain c r where s: "show_nat n = c # r"
    by (cases "show_nat n") auto
  then have "c \<noteq> CHR ''+'' \<and> c \<noteq> CHR ''-''"
    using show_nat_digits [of n] digit_not_sign by simp
  moreover have "digits_val 0 (c # r) = Some n"
    using digits_val_show_nat [of n] s by (simp only:)
  ultimately show ?thesis
    using n by (simp add: parse_int_def s del: digits_val.simps)
qed

end
