(* ===== verification/Requests.thy ===== *)
theory Requests
  imports Config GoJsonEncode
begin

text \<open>
  The signed requests of a host (\<^verbatim>\<open>internal/broker/types.go\<close>): their records, the strict
  decoder, and the checks of an issue and of a revoke request against the configuration and the
  clock.
\<close>

section \<open>Data\<close>

record issueRequest =
  i_version :: int
  i_hostUUID :: bytes
  i_volumeName :: bytes
  i_policies :: "bytes list"
  i_file :: bytes
  i_uid :: bytes
  i_gid :: bytes
  i_mode :: bytes
  i_timestamp :: bytes
  i_nonce :: bytes

record revokeRequest =
  r_version :: int
  r_hostUUID :: bytes
  r_volumeName :: bytes
  r_timestamp :: bytes
  r_nonce :: bytes

text \<open>The zero values the handlers decode into.\<close>

definition no_issue :: issueRequest where
  "no_issue = \<lparr>i_version = 0, i_hostUUID = [], i_volumeName = [], i_policies = [], i_file = [],
     i_uid = [], i_gid = [], i_mode = [], i_timestamp = [], i_nonce = []\<rparr>"

definition no_revoke :: revokeRequest where
  "no_revoke = \<lparr>r_version = 0, r_hostUUID = [], r_volumeName = [], r_timestamp = [], r_nonce = []\<rparr>"

section \<open>Decoding\<close>

text \<open>
  Decoding an array into a slice reuses the backing array of an earlier member of the same name:
  element \<open>i\<close> is decoded into what the array holds there, the zero value past its end. So the
  decoder's state has, with the record, the elements of that array past the slice's length.
\<close>

fun decode_list :: "(jv \<Rightarrow> 'e \<Rightarrow> 'e option) \<Rightarrow> 'e \<Rightarrow> jv list \<Rightarrow> 'e list \<Rightarrow> 'e list option" where
  "decode_list dec zero [] mem = Some []"
| "decode_list dec zero (v # vs) mem =
     (case dec v (case mem of [] \<Rightarrow> zero | m # _ \<Rightarrow> m) of
        None \<Rightarrow> None
      | Some e \<Rightarrow> map_option ((#) e) (decode_list dec zero vs (drop 1 mem)))"

definition string_elem :: "jv \<Rightarrow> bytes \<Rightarrow> bytes option" where
  "string_elem = set_string (\<lambda>x _. x)"

type_synonym issue_target = "issueRequest \<times> bytes list"

definition set_policies :: "jv \<Rightarrow> issue_target \<Rightarrow> issue_target option" where
  "set_policies v s =
     (case v of
        JvNull \<Rightarrow> Some ((fst s)\<lparr>i_policies := []\<rparr>, [])
      | JvArr [] \<Rightarrow> Some ((fst s)\<lparr>i_policies := []\<rparr>, [])
      | JvArr vs \<Rightarrow>
          (let mem = i_policies (fst s) @ snd s
           in map_option (\<lambda>ps. ((fst s)\<lparr>i_policies := ps\<rparr>, drop (length ps) mem)) (decode_list string_elem [] vs mem))
      | _ \<Rightarrow> None)"

definition on_request :: "(issueRequest \<Rightarrow> issueRequest) \<Rightarrow> issue_target \<Rightarrow> issue_target" where
  "on_request f s = (f (fst s), snd s)"

definition issue_fields :: "issue_target fields" where
  "issue_fields =
     [(''version'', set_int (\<lambda>n. on_request (i_version_update (\<lambda>_. n)))),
      (''hostUuid'', set_string (\<lambda>x. on_request (i_hostUUID_update (\<lambda>_. x)))),
      (''volumeName'', set_string (\<lambda>x. on_request (i_volumeName_update (\<lambda>_. x)))),
      (''policies'', set_policies),
      (''file'', set_string (\<lambda>x. on_request (i_file_update (\<lambda>_. x)))),
      (''uid'', set_string (\<lambda>x. on_request (i_uid_update (\<lambda>_. x)))),
      (''gid'', set_string (\<lambda>x. on_request (i_gid_update (\<lambda>_. x)))),
      (''mode'', set_string (\<lambda>x. on_request (i_mode_update (\<lambda>_. x)))),
      (''timestamp'', set_string (\<lambda>x. on_request (i_timestamp_update (\<lambda>_. x)))),
      (''nonce'', set_string (\<lambda>x. on_request (i_nonce_update (\<lambda>_. x))))]"

definition revoke_fields :: "revokeRequest fields" where
  "revoke_fields =
     [(''version'', set_int (\<lambda>n. r_version_update (\<lambda>_. n))),
      (''hostUuid'', set_string (\<lambda>x. r_hostUUID_update (\<lambda>_. x))),
      (''volumeName'', set_string (\<lambda>x. r_volumeName_update (\<lambda>_. x))),
      (''timestamp'', set_string (\<lambda>x. r_timestamp_update (\<lambda>_. x))),
      (''nonce'', set_string (\<lambda>x. r_nonce_update (\<lambda>_. x)))]"

text \<open>\<^verbatim>\<open>decodeStrict\<close>: one document, no unknown member, nothing after it.\<close>

definition decodeStrict :: "'s fields \<Rightarrow> bytes \<Rightarrow> 's \<Rightarrow> 's option" where
  "decodeStrict fs s dest =
     (case json_document s of None \<Rightarrow> None | Some v \<Rightarrow> decode_struct True fs v dest)"

definition decode_issue :: "bytes \<Rightarrow> issueRequest option" where
  "decode_issue body = map_option fst (decodeStrict issue_fields body (no_issue, []))"

definition decode_revoke :: "bytes \<Rightarrow> revokeRequest option" where
  "decode_revoke body = decodeStrict revoke_fields body no_revoke"

section \<open>Validation\<close>

definition validateFreshness :: "bytes \<Rightarrow> bytes \<Rightarrow> nanos \<Rightarrow> nanos \<Rightarrow> unit result" where
  "validateFreshness timestamp nonce window now =
     (case parse_rfc3339 timestamp of
        None \<Rightarrow> Inl ''signed request timestamp is invalid''
      | Some parsed \<Rightarrow>
          (let delta = time_sub now parsed
           in if delta < - window \<or> delta > window then Inl ''signed request timestamp is stale''
              else (case rawurl_decode_strict nonce of
                      None \<Rightarrow> Inl ''signed request nonce is invalid''
                    | Some decoded \<Rightarrow>
                        if length decoded \<noteq> 24 then Inl ''signed request nonce is invalid''
                        else Inr ())))"

fun check_policies :: "(bytes, unit) gomap \<Rightarrow> bytes \<Rightarrow> bytes list \<Rightarrow> unit result" where
  "check_policies allowed previous [] = Inr ()"
| "check_policies allowed previous (policy # ps) =
     (if \<not> validName policy 64 \<or> policy = previous then Inl ''Vault policy request is invalid''
      else if gm_get allowed policy = None then Inl ''Vault policy request is unauthorized''
      else check_policies allowed policy ps)"

definition validate_issue :: "issueRequest \<Rightarrow> config \<Rightarrow> nanos \<Rightarrow> unit result" where
  "validate_issue request config now =
     (if i_version request \<noteq> 1 \<or> \<not> validName (i_hostUUID request) 128 \<or>
         \<not> validName (i_volumeName request) 128 \<or> \<not> validRelativePath (i_file request) \<or>
         \<not> validOwnership (i_uid request) \<or> \<not> validOwnership (i_gid request) \<or>
         \<not> validReadOnlyMode (i_mode request)
      then Inl ''Vault lease request is invalid''
      else (case validateFreshness (i_timestamp request) (i_nonce request) (NonceTTL config) now of
              Inl e \<Rightarrow> Inl e
            | Inr _ \<Rightarrow>
                if length (i_policies request) = 0 \<or> length (i_policies request) > 16 \<or>
                   \<not> sorted (i_policies request)
                then Inl ''Vault policy request is invalid''
                else check_policies (AllowedPolicies config) '''' (i_policies request)))"

definition validate_revoke :: "revokeRequest \<Rightarrow> config \<Rightarrow> nanos \<Rightarrow> unit result" where
  "validate_revoke request config now =
     (if r_version request \<noteq> 1 \<or> \<not> validName (r_hostUUID request) 128 \<or>
         \<not> validName (r_volumeName request) 128
      then Inl ''Vault revoke request is invalid''
      else validateFreshness (r_timestamp request) (r_nonce request) (NonceTTL config) now)"

section \<open>What validation guarantees\<close>

text \<open>The abstract conditions: a time stamp inside the window and a 24-byte nonce.\<close>

definition fresh :: "bytes \<Rightarrow> bytes \<Rightarrow> nanos \<Rightarrow> nanos \<Rightarrow> bool" where
  "fresh timestamp nonce window now =
     ((case parse_rfc3339 timestamp of
         None \<Rightarrow> False | Some t \<Rightarrow> now - window \<le> t \<and> t \<le> now + window) \<and>
      (case rawurl_decode_strict nonce of None \<Rightarrow> False | Some d \<Rightarrow> length d = 24))"

lemma validateFreshness_fresh:
  assumes "0 \<le> w" and "w < max_duration"
  shows "validateFreshness ts nonce w now = Inr () \<longleftrightarrow> fresh ts nonce w now"
proof -
  have window: "\<not> (time_sub now t < - w \<or> time_sub now t > w) \<longleftrightarrow> now - w \<le> t \<and> t \<le> now + w" for t
    using time_sub_between [of "- w" w now t] assms
    by (auto simp: min_duration_def max_duration_def)
  show ?thesis
    using window by (auto simp: validateFreshness_def fresh_def Let_def split: option.splits)
qed

definition policies_allowed :: "(bytes, unit) gomap \<Rightarrow> bytes list \<Rightarrow> bool" where
  "policies_allowed allowed ps =
     (ps \<noteq> [] \<and> length ps \<le> 16 \<and> sorted_wrt (<) ps \<and>
      list_all (\<lambda>p. validName p 64 \<and> p \<in> set (gm_keys allowed)) ps)"

lemma check_policies_iff:
  "sorted ps \<Longrightarrow> (ps \<noteq> [] \<longrightarrow> previous \<le> hd ps) \<Longrightarrow>
     check_policies allowed previous ps = Inr () \<longleftrightarrow>
     sorted_wrt (<) (previous # ps) \<and>
     list_all (\<lambda>p. validName p 64 \<and> p \<in> set (gm_keys allowed)) ps"
proof (induction ps arbitrary: previous)
  case (Cons p ps)
  have "ps \<noteq> [] \<longrightarrow> p \<le> hd ps"
    using Cons.prems(1) by (cases ps) auto
  with Cons.IH [of p] Cons.prems
  have IH: "check_policies allowed p ps = Inr () \<longleftrightarrow> sorted_wrt (<) (p # ps) \<and>
      list_all (\<lambda>p. validName p 64 \<and> p \<in> set (gm_keys allowed)) ps"
    by simp
  have less: "previous < p \<longleftrightarrow> p \<noteq> previous"
    using Cons.prems(2) by (auto simp: order.strict_iff_order)
  have all: "p \<noteq> previous \<Longrightarrow> \<forall>q\<in>set ps. previous < q"
    using Cons.prems less by fastforce
  show ?case
    using less all by (auto simp: IH gm_get_None_iff)
qed simp

lemma check_policies_sorted:
  "sorted ps \<Longrightarrow> check_policies allowed '''' ps = Inr () \<longleftrightarrow>
     sorted_wrt (<) ps \<and> list_all (\<lambda>p. validName p 64 \<and> p \<in> set (gm_keys allowed)) ps"
proof -
  assume "sorted ps"
  then have iff: "check_policies allowed '''' ps = Inr () \<longleftrightarrow> sorted_wrt (<) ('''' # ps) \<and>
      list_all (\<lambda>p. validName p 64 \<and> p \<in> set (gm_keys allowed)) ps"
    by (rule check_policies_iff) simp
  have "'''' < p" if "validName p 64" for p
    using validName_not_Nil [OF that] by (cases p) simp_all
  then show ?thesis
    by (auto simp: iff list_all_iff)
qed

lemma strict_sorted_sorted: "sorted_wrt (<) (ps :: bytes list) \<Longrightarrow> sorted ps"
  by (simp add: strict_sorted_iff)

lemma validate_issue_iff:
  assumes "0 \<le> NonceTTL c" and "NonceTTL c < max_duration"
  shows "validate_issue q c now = Inr () \<longleftrightarrow>
     i_version q = 1 \<and> validName (i_hostUUID q) 128 \<and> validName (i_volumeName q) 128 \<and>
     validRelativePath (i_file q) \<and> validOwnership (i_uid q) \<and> validOwnership (i_gid q) \<and>
     validReadOnlyMode (i_mode q) \<and>
     fresh (i_timestamp q) (i_nonce q) (NonceTTL c) now \<and>
     policies_allowed (AllowedPolicies c) (i_policies q)"
  unfolding validateFreshness_fresh [OF assms, symmetric]
  by (auto simp: validate_issue_def policies_allowed_def check_policies_sorted strict_sorted_sorted
      split: sum.splits)

lemma validate_revoke_iff:
  assumes "0 \<le> NonceTTL c" and "NonceTTL c < max_duration"
  shows "validate_revoke q c now = Inr () \<longleftrightarrow>
     r_version q = 1 \<and> validName (r_hostUUID q) 128 \<and> validName (r_volumeName q) 128 \<and>
     fresh (r_timestamp q) (r_nonce q) (NonceTTL c) now"
  unfolding validateFreshness_fresh [OF assms, symmetric]
  by (auto simp: validate_revoke_def)

section \<open>What decoding guarantees\<close>

text \<open>A strict decoder accepts only members that name a field.\<close>

lemma decode_members_known:
  "decode_members True fs ms s = Some s' \<Longrightarrow> \<forall>(k, v) \<in> set ms. find_field (map fst fs) k \<noteq> None"
  by (induction "True" fs ms s rule: decode_members.induct) (auto split: option.splits)

lemma decode_list_strings [simp]: "decode_list string_elem zero (map JvStr ps) mem = Some ps"
  by (induction ps arbitrary: mem) (simp_all add: string_elem_def set_string_def)

lemma decode_list_length: "decode_list dec zero vs mem = Some es \<Longrightarrow> length es = length vs"
  by (induction vs arbitrary: mem es) (auto split: option.splits)

text \<open>The document of a request, members in field order.\<close>

definition issue_document :: "issueRequest \<Rightarrow> jv" where
  "issue_document q = JvObj
     [(''version'', JvNum (show_nat (nat (i_version q)))), (''hostUuid'', JvStr (i_hostUUID q)),
      (''volumeName'', JvStr (i_volumeName q)), (''policies'', JvArr (map JvStr (i_policies q))),
      (''file'', JvStr (i_file q)), (''uid'', JvStr (i_uid q)), (''gid'', JvStr (i_gid q)),
      (''mode'', JvStr (i_mode q)), (''timestamp'', JvStr (i_timestamp q)),
      (''nonce'', JvStr (i_nonce q))]"


lemma issue_document_depth: "jv_depth (issue_document q) \<le> max_nesting"
proof -
  have "fold max (map jv_depth (map JvStr ps)) 0 = 0" for ps
    by (induction ps) simp_all
  then show ?thesis
    by (simp add: issue_document_def max_nesting_def)
qed

definition request_wf :: "issueRequest \<Rightarrow> bool" where
  "request_wf q =
     (0 \<le> i_version q \<and> i_version q < 2 ^ 63 \<and> list_all valid_utf8 (i_policies q) \<and>
      list_all valid_utf8 [i_hostUUID q, i_volumeName q, i_file q, i_uid q, i_gid q, i_mode q,
        i_timestamp q, i_nonce q])"

lemma issue_document_wf: "request_wf q \<Longrightarrow> jv_wf (issue_document q)"
  by (simp add: issue_document_def request_wf_def list.pred_map comp_def)

lemma set_policies_strings:
  "i_policies q = [] \<Longrightarrow> set_policies (JvArr (map JvStr ps)) (q, []) = Some (q\<lparr>i_policies := ps\<rparr>, [])"
proof -
  assume none: "i_policies q = []"
  have "decode_list string_elem [] (map JvStr ps) [] = Some ps" by simp
  with none show ?thesis
    by (cases ps) (simp_all add: set_policies_def)
qed

lemma decode_issue_document:
  assumes "request_wf q"
  shows "decode_issue (json_encode h (issue_document q)) = Some q"
  using assms
  by (simp add: decode_issue_def decodeStrict_def json_document_encode issue_document_wf
      issue_document_depth)
    (simp add: issue_document_def request_wf_def decode_struct_def issue_fields_def set_int_def
      set_string_def set_policies_strings on_request_def no_issue_def parse_int_show_nat nat_less_iff)

definition revoke_document :: "revokeRequest \<Rightarrow> jv" where
  "revoke_document q = JvObj
     [(''version'', JvNum (show_nat (nat (r_version q)))), (''hostUuid'', JvStr (r_hostUUID q)),
      (''volumeName'', JvStr (r_volumeName q)), (''timestamp'', JvStr (r_timestamp q)),
      (''nonce'', JvStr (r_nonce q))]"

definition revoke_wf :: "revokeRequest \<Rightarrow> bool" where
  "revoke_wf q =
     (0 \<le> r_version q \<and> r_version q < 2 ^ 63 \<and>
      list_all valid_utf8 [r_hostUUID q, r_volumeName q, r_timestamp q, r_nonce q])"

lemma decode_revoke_document:
  assumes "revoke_wf q"
  shows "decode_revoke (json_encode h (revoke_document q)) = Some q"
proof -
  have "json_document (json_encode h (revoke_document q)) = Some (revoke_document q)"
    using assms by (intro json_document_encode) (simp_all add: revoke_document_def revoke_wf_def max_nesting_def)
  then show ?thesis
    using assms
    by (simp add: decode_revoke_def decodeStrict_def)
      (simp add: revoke_document_def revoke_wf_def decode_struct_def revoke_fields_def set_int_def
        set_string_def no_revoke_def parse_int_show_nat nat_less_iff)
qed

end
