(* ===== verification/GoJsonUtf8.thy ===== *)
theory GoJsonUtf8
  imports GoJsonEncode
begin

text \<open>
  Every string the JSON decoder returns is valid UTF-8, whatever the input: invalid bytes and
  unpaired surrogates are decoded as U+FFFD. Accessors that come from a decoded reply therefore
  survive being written to the state file and read back.
\<close>

lemma simple_escape_ascii [simp]: "byte_val (simple_escape e) < 0x80"
  by (simp add: simple_escape_def quote_char_def backslash_def)

lemma unquote_utf8 [simp]: "valid_utf8 (unquote s)"
proof (induction s rule: unquote.induct)
  case (1 s)
  show ?case
    using "1.IH" valid_utf8_encode_append [of _ "[]"]
    by (subst unquote.simps) (auto split: list.splits option.splits simp: Let_def)
qed

definition token_utf8 :: "jtoken \<Rightarrow> bool" where
  "token_utf8 t = (case t of JString s \<Rightarrow> valid_utf8 s | _ \<Rightarrow> True)"

lemma scan_token_utf8: "scan_token s = Some (t, r) \<Longrightarrow> token_utf8 t"
proof -
  assume t: "scan_token s = Some (t, r)"
  have "token_utf8 t" if "t = JString x" "x = unquote y" for x y
    using that by (simp add: token_utf8_def)
  moreover have "punctuation c \<noteq> Some (JString x)" "scan_literal s \<noteq> Some (JString x, r)" for c x
    by (simp_all add: punctuation_def scan_literal_def)
  ultimately have "token_utf8 (JString x)" if "t = JString x" for x
    using t that unfolding scan_token_def
    by (auto simp del: unquote_utf8 split: list.split_asm if_split_asm option.split_asm)
  then show ?thesis by (cases t) (auto simp: token_utf8_def)
qed

lemma lex_json_utf8: "lex_json s = Some ts \<Longrightarrow> list_all token_utf8 ts"
proof (induction s arbitrary: ts rule: lex_json.induct)
  case (1 s)
  show ?case
    using "1.prems" "1.IH" lex_json.simps [of s] scan_token_utf8 [of s]
    by (auto split: list.splits if_splits option.splits prod.splits)
qed

fun jv_utf8 :: "jv \<Rightarrow> bool" where
  "jv_utf8 (JvStr s) = valid_utf8 s"
| "jv_utf8 (JvArr vs) = list_all jv_utf8 vs"
| "jv_utf8 (JvObj ms) = list_all (\<lambda>(k, v). valid_utf8 k \<and> jv_utf8 v) ms"
| "jv_utf8 v = True"

fun frame_utf8 :: "frame \<Rightarrow> bool" where
  "frame_utf8 (FArr acc) = list_all jv_utf8 acc"
| "frame_utf8 (FObj acc k) = (valid_utf8 k \<and> list_all (\<lambda>(k, v). valid_utf8 k \<and> jv_utf8 v) acc)"

lemma parse_utf8:
  "want_value st ts = Some (v, ts') \<Longrightarrow> list_all frame_utf8 st \<Longrightarrow> list_all token_utf8 ts \<Longrightarrow> jv_utf8 v"
  "got_value v st ts = Some (v', ts') \<Longrightarrow> jv_utf8 v \<Longrightarrow> list_all frame_utf8 st \<Longrightarrow>
     list_all token_utf8 ts \<Longrightarrow> jv_utf8 v'"
proof (induction st ts and v st ts arbitrary: v ts' and v' ts' rule: want_value_got_value.induct)
  case (2 st t ts)
  have step: "list_all token_utf8 ts'" if "ts = xs @ ts'" for xs ts'
    using "2.prems"(3) that by simp
  show ?case
  proof (cases t)
    case JLBrack
    then show ?thesis
      using "2.prems" "2.IH" by (auto split: if_split_asm list.split_asm jtoken.split_asm)
  next
    case JLBrace
    then show ?thesis
      using "2.prems" "2.IH"
      by (auto simp: token_utf8_def split: if_split_asm list.split_asm jtoken.split_asm)
  qed (use "2.prems" "2.IH" in \<open>simp_all add: token_utf8_def\<close>)
next
  case (4 v acc st ts)
  then show ?case
    by (auto split: list.split_asm jtoken.split_asm)
next
  case (5 v acc k st ts)
  then show ?case
    by (auto simp: token_utf8_def split: list.split_asm jtoken.split_asm)
qed auto

lemma json_document_utf8: "json_document s = Some v \<Longrightarrow> jv_utf8 v"
  using parse_utf8(1) [of "[]"] lex_json_utf8
  by (fastforce simp: json_document_def split: option.splits list.splits)

end
