(* ===== verification/VaultClient.thy ===== *)
theory VaultClient
  imports Http Requests GoJsonUtf8
begin

text \<open>
  The Vault client (\<^verbatim>\<open>internal/broker/vault.go\<close>): the requests it sends, the replies it accepts.
  The network is the transport parameter of \<open>Http\<close>.
\<close>

section \<open>The client\<close>

record vaultClient =
  v_baseURL :: url
  v_token :: bytes
  v_role :: bytes
  v_tokenTTL :: bytes
  v_wrapTTL :: bytes
  v_maxResponseBytes :: int

definition newVaultClient :: "config \<Rightarrow> url \<Rightarrow> vaultClient" where
  "newVaultClient config baseURL =
     \<lparr>v_baseURL = baseURL, v_token = VaultToken config, v_role = VaultRole config,
      v_tokenTTL = duration_string (TokenTTL config), v_wrapTTL = duration_string (WrapTTL config),
      v_maxResponseBytes = MaxResponseBytes config\<rparr>"

definition vault_endpoint :: "vaultClient \<Rightarrow> bytes \<Rightarrow> url" where
  "vault_endpoint client suffix =
     (v_baseURL client)\<lparr>u_path := trim_right_byte CHR ''/'' (u_path (v_baseURL client)) @ suffix\<rparr>"

definition vault_request :: "vaultClient \<Rightarrow> bytes \<Rightarrow> url \<Rightarrow> bytes option \<Rightarrow> bytes \<Rightarrow> http_request" where
  "vault_request client method target body wrapTTL =
     \<lparr>q_method = method, q_url = target,
      q_headers =
        [(''Accept'', ''application/json''), (''X-Vault-Token'', v_token client)]
        @ (if body \<noteq> None then [(''Content-Type'', ''application/json'')] else [])
        @ (if wrapTTL \<noteq> '''' then [(''X-Vault-Wrap-TTL'', wrapTTL)] else []),
      q_body = body\<rparr>"

definition vault_do ::
  "'w transport \<Rightarrow> vaultClient \<Rightarrow> bytes \<Rightarrow> url \<Rightarrow> bytes option \<Rightarrow> bytes \<Rightarrow> 'w \<Rightarrow> (bytes \<times> nat) result \<times> 'w" where
  "vault_do send client method target body wrapTTL w =
     (case send (vault_request client method target body wrapTTL) w of
        (None, w') \<Rightarrow> (Inl ''Vault API request failed'', w')
      | (Some reply, w') \<Rightarrow>
          (case read_limited (v_maxResponseBytes client) reply of
             None \<Rightarrow> (Inl ''Vault API response exceeds its limit'', w')
           | Some got \<Rightarrow> (Inr (got, p_status reply), w')))"

section \<open>Issuing\<close>

definition token_create_body :: "vaultClient \<Rightarrow> bytes list \<Rightarrow> bytes" where
  "token_create_body client policies = json_encode True (JvObj
     [(''policies'', if policies = [] then JvNull else JvArr (map JvStr policies)),
      (''ttl'', JvStr (v_tokenTTL client)), (''renewable'', JvBool True)])"

record vaultWrapInfo =
  w_token :: bytes
  w_accessor :: bytes
  w_wrapped_accessor :: bytes

definition wrap_fields :: "vaultWrapInfo fields" where
  "wrap_fields =
     [(''token'', set_string (\<lambda>x. w_token_update (\<lambda>_. x))),
      (''accessor'', set_string (\<lambda>x. w_accessor_update (\<lambda>_. x))),
      (''wrapped_accessor'', set_string (\<lambda>x. w_wrapped_accessor_update (\<lambda>_. x)))]"

definition no_wrap :: vaultWrapInfo where
  "no_wrap = \<lparr>w_token = [], w_accessor = [], w_wrapped_accessor = []\<rparr>"

text \<open>\<^verbatim>\<open>json.Unmarshal\<close> into a struct: unknown members are skipped.\<close>

definition unmarshal :: "'s fields \<Rightarrow> bytes \<Rightarrow> 's \<Rightarrow> 's option" where
  "unmarshal fs body dest =
     (case json_document body of None \<Rightarrow> None | Some v \<Rightarrow> decode_struct False fs v dest)"

definition issue_response_fields :: "vaultWrapInfo fields" where
  "issue_response_fields = [(''wrap_info'', decode_struct False wrap_fields)]"

definition vault_issue :: "'w transport \<Rightarrow> vaultClient \<Rightarrow> bytes list \<Rightarrow> 'w \<Rightarrow> (bytes \<times> bytes) result \<times> 'w" where
  "vault_issue send client policies w =
     (case vault_do send client ''POST''
             (vault_endpoint client (''/v1/auth/token/create/'' @ path_escape (v_role client)))
             (Some (token_create_body client policies)) (v_wrapTTL client) w of
        (Inl e, w') \<Rightarrow> (Inl e, w')
      | (Inr (body, status), w') \<Rightarrow>
          if status \<noteq> 200 then (Inl ''Vault token request was rejected'', w')
          else (case unmarshal issue_response_fields body no_wrap of
                  None \<Rightarrow> (Inl ''Vault token response is invalid'', w')
                | Some info \<Rightarrow>
                    if \<not> validOpaqueSecret (w_token info) (64 * 1024) \<or>
                       \<not> validOpaqueSecret (w_wrapped_accessor info) 4096
                    then (Inl ''Vault token response is invalid'', w')
                    else (Inr (w_token info, w_wrapped_accessor info), w')))"

section \<open>Revoking, renewing, health\<close>

definition revoke_body :: "bytes \<Rightarrow> bytes" where
  "revoke_body acc = json_encode True (JvObj [(''accessor'', JvStr acc)])"

definition vault_revoke :: "'w transport \<Rightarrow> vaultClient \<Rightarrow> bytes \<Rightarrow> 'w \<Rightarrow> unit result \<times> 'w" where
  "vault_revoke send client acc w =
     (if \<not> validOpaqueSecret acc 4096 then (Inl ''Vault lease accessor is invalid'', w)
      else case vault_do send client ''POST'' (vault_endpoint client ''/v1/auth/token/revoke-accessor'')
             (Some (revoke_body acc)) '''' w of
        (Inl e, w') \<Rightarrow> (Inl e, w')
      | (Inr (body, status), w') \<Rightarrow>
          if status = 200 \<or> status = 204 then (Inr (), w')
          else if status = 400 \<and>
            (let lower = to_lower body
             in contains lower ''invalid accessor'' \<or> contains lower ''lease not found'')
          then (Inr (), w')
          else (Inl ''Vault revoke request was rejected'', w'))"

definition vault_renew :: "'w transport \<Rightarrow> vaultClient \<Rightarrow> 'w \<Rightarrow> unit result \<times> 'w" where
  "vault_renew send client w =
     (case vault_do send client ''POST'' (vault_endpoint client ''/v1/auth/token/renew-self'')
             (Some ''{}'') '''' w of
        (Inl e, w') \<Rightarrow> (Inl e, w')
      | (Inr (body, status), w') \<Rightarrow>
          if status \<noteq> 200 \<or> length body = 0 then (Inl ''Vault issuer renewal was rejected'', w')
          else (Inr (), w'))"

record vaultHealthResponse =
  h_initialized :: bool
  h_sealed :: bool

definition health_fields :: "vaultHealthResponse fields" where
  "health_fields =
     [(''initialized'', set_bool (\<lambda>b. h_initialized_update (\<lambda>_. b))),
      (''sealed'', set_bool (\<lambda>b. h_sealed_update (\<lambda>_. b)))]"

text \<open>
  The service URL has no query of its own (\<^verbatim>\<open>validateServiceURL\<close>), so the endpoint's query is the
  two parameters set here.
\<close>

definition health_url :: "vaultClient \<Rightarrow> url" where
  "health_url client =
     (vault_endpoint client ''/v1/sys/health'')
       \<lparr>u_query := query_encode [(''standbyok'', ''true''), (''perfstandbyok'', ''true'')]\<rparr>"

definition vault_healthy :: "'w transport \<Rightarrow> vaultClient \<Rightarrow> 'w \<Rightarrow> bool \<times> 'w" where
  "vault_healthy send client w =
     (case vault_do send client ''GET'' (health_url client) None '''' w of
        (Inl e, w') \<Rightarrow> (False, w')
      | (Inr (body, status), w') \<Rightarrow>
          if status \<notin> {200, 429, 472, 473} then (False, w')
          else (case unmarshal health_fields body \<lparr>h_initialized = False, h_sealed = False\<rparr> of
                  None \<Rightarrow> (False, w')
                | Some h \<Rightarrow> (h_initialized h \<and> \<not> h_sealed h, w')))"

text \<open>
  \<^verbatim>\<open>close\<close> drops the token. The code first overwrites its bytes with zeros, and then closes the idle
  connections: values have no memory here, and a transport no connections, so neither shows.
\<close>

definition vault_close :: "vaultClient \<Rightarrow> vaultClient" where
  "vault_close client = client\<lparr>v_token := []\<rparr>"

section \<open>What the client guarantees\<close>

lemma vault_do_iff:
  "0 \<le> v_maxResponseBytes c \<Longrightarrow>
     vault_do send c meth target body wrap w = (Inr (b, st), w') \<longleftrightarrow>
     (\<exists>reply. send (vault_request c meth target body wrap) w = (Some reply, w') \<and>
        p_status reply = st \<and> p_data reply = b \<and> int (length b) \<le> v_maxResponseBytes c \<and>
        \<not> p_broken reply)"
  by (auto simp: vault_do_def read_limited_eq split: prod.splits option.splits if_splits)

lemma vault_do_world:
  "snd (vault_do send c meth target body wrap w) = snd (send (vault_request c meth target body wrap) w)"
  by (auto simp: vault_do_def split: prod.splits option.splits)

text \<open>The one request an issue sends.\<close>

definition issue_http :: "vaultClient \<Rightarrow> bytes list \<Rightarrow> http_request" where
  "issue_http c policies =
     \<lparr>q_method = ''POST'',
      q_url = (v_baseURL c)\<lparr>u_path := trim_right_byte CHR ''/'' (u_path (v_baseURL c))
                @ ''/v1/auth/token/create/'' @ v_role c\<rparr>,
      q_headers = [(''Accept'', ''application/json''), (''X-Vault-Token'', v_token c),
                   (''Content-Type'', ''application/json''), (''X-Vault-Wrap-TTL'', v_wrapTTL c)],
      q_body = Some (token_create_body c policies)\<rparr>"

lemma issue_http_request:
  assumes "validName (v_role c) m" and "v_wrapTTL c \<noteq> ''''"
  shows "vault_request c ''POST'' (vault_endpoint c (''/v1/auth/token/create/'' @ path_escape (v_role c)))
           (Some (token_create_body c ps)) (v_wrapTTL c) = issue_http c ps"
  using assms by (simp add: vault_request_def vault_endpoint_def issue_http_def)

definition issue_answer :: "bytes \<Rightarrow> bytes \<Rightarrow> bytes \<Rightarrow> bool" where
  "issue_answer body token acc =
     (case unmarshal issue_response_fields body no_wrap of
        None \<Rightarrow> False
      | Some info \<Rightarrow> w_token info = token \<and> w_wrapped_accessor info = acc \<and>
          validOpaqueSecret token (64 * 1024) \<and> validOpaqueSecret acc 4096)"

lemma vault_issue_answer:
  "vault_issue send c ps w = (Inr (t, a), w') \<longleftrightarrow>
     (\<exists>b. vault_do send c ''POST''
            (vault_endpoint c (''/v1/auth/token/create/'' @ path_escape (v_role c)))
            (Some (token_create_body c ps)) (v_wrapTTL c) w = (Inr (b, 200), w') \<and> issue_answer b t a)"
  by (auto simp: vault_issue_def issue_answer_def split: prod.splits sum.splits option.splits)

text \<open>Accessors and tokens come out of the decoder, so they are UTF-8.\<close>

lemma set_string_utf8:
  "set_string upd v s = Some s' \<Longrightarrow> jv_utf8 v \<Longrightarrow> s' = s \<or> (\<exists>x. valid_utf8 x \<and> s' = upd x s)"
  by (auto simp: set_string_def split: jv.splits)

definition wrap_utf8 :: "vaultWrapInfo \<Rightarrow> bool" where
  "wrap_utf8 i = (valid_utf8 (w_token i) \<and> valid_utf8 (w_accessor i) \<and> valid_utf8 (w_wrapped_accessor i))"

text \<open>Decoding members keeps what every field decoder keeps.\<close>

lemma decode_members_keep:
  assumes "decode_members strict fs ms s = Some s'"
    and "P s" and "list_all (\<lambda>(k, v). jv_utf8 v) ms"
    and "\<And>n dec v s s'. (n, dec) \<in> set fs \<Longrightarrow> jv_utf8 v \<Longrightarrow> P s \<Longrightarrow> dec v s = Some s' \<Longrightarrow> P s'"
  shows "P s'"
  using assms(1-3)
proof (induction ms arbitrary: s)
  case (Cons m ms)
  obtain k v where m: "m = (k, v)" by (cases m)
  show ?case
  proof (cases "find_field (map fst fs) k")
    case None
    then show ?thesis using Cons m by (auto split: if_splits)
  next
    case (Some n)
    then obtain dec s1 where dec: "map_of fs n = Some dec" "dec v s = Some s1"
        and rest: "decode_members strict fs ms s1 = Some s'"
      using Cons.prems(1) m by (auto split: option.splits)
    have "P s1"
      using assms(4) [OF map_of_SomeD [OF dec(1)] _ Cons.prems(2) dec(2)] Cons.prems(3) m by simp
    then show ?thesis
      using Cons.IH [OF rest] Cons.prems(3) m by simp
  qed
qed simp

lemma decode_struct_keep:
  assumes "decode_struct strict fs v s = Some s'" and "P s" and "jv_utf8 v"
    and "\<And>n dec v s s'. (n, dec) \<in> set fs \<Longrightarrow> jv_utf8 v \<Longrightarrow> P s \<Longrightarrow> dec v s = Some s' \<Longrightarrow> P s'"
  shows "P s'"
proof (cases v)
  case (JvObj ms)
  then have "list_all (\<lambda>(k, v). jv_utf8 v) ms"
    using assms(3) by (auto simp: list_all_iff)
  moreover have "decode_members strict fs ms s = Some s'"
    using assms(1) JvObj by (simp add: decode_struct_def)
  ultimately show ?thesis
    using decode_members_keep [where P = P] assms(2,4) by blast
qed (use assms in \<open>auto simp: decode_struct_def\<close>)

lemma wrap_fields_utf8:
  assumes "decode_struct False wrap_fields v s = Some s'" and "wrap_utf8 s" and "jv_utf8 v"
  shows "wrap_utf8 s'"
  using assms(1,2,3)
proof (rule decode_struct_keep [where P = wrap_utf8])
  fix n dec v s s'
  assume "(n, dec) \<in> set wrap_fields" "jv_utf8 v" "wrap_utf8 s" "dec v s = Some s'"
  then show "wrap_utf8 s'"
    by (auto simp: wrap_fields_def wrap_utf8_def dest: set_string_utf8)
qed

lemma issue_answer_utf8:
  assumes "issue_answer b t a"
  shows "valid_utf8 t \<and> valid_utf8 a"
proof -
  obtain v info where v: "json_document b = Some v"
      and d: "decode_struct False issue_response_fields v no_wrap = Some info"
      and ta: "w_token info = t" "w_wrapped_accessor info = a"
    using assms by (auto simp: issue_answer_def unmarshal_def split: option.splits)
  have "wrap_utf8 info"
  proof (rule decode_struct_keep [where P = wrap_utf8, OF d])
    fix n dec v s s'
    assume "(n, dec) \<in> set issue_response_fields" "jv_utf8 v" "wrap_utf8 s" "dec v s = Some s'"
    then show "wrap_utf8 s'"
      using wrap_fields_utf8 by (auto simp: issue_response_fields_def)
  qed (use json_document_utf8 [OF v] in \<open>simp_all add: wrap_utf8_def no_wrap_def\<close>)
  then show ?thesis using ta by (simp add: wrap_utf8_def)
qed

lemma vault_issue_wf:
  assumes "vault_issue send c ps w = (Inr (t, a), w')"
  shows "validOpaqueSecret t (64 * 1024) \<and> validOpaqueSecret a 4096 \<and> valid_utf8 t \<and> valid_utf8 a"
proof -
  obtain b where b: "issue_answer b t a"
    using assms by (auto simp: vault_issue_answer)
  then show ?thesis
    using issue_answer_utf8 [OF b] by (auto simp: issue_answer_def split: option.splits)
qed

lemma vault_revoke_refuses:
  "\<not> validOpaqueSecret a 4096 \<Longrightarrow> vault_revoke send c a w = (Inl ''Vault lease accessor is invalid'', w)"
  by (simp add: vault_revoke_def)

text \<open>A revocation succeeds when Vault confirms it or says that nothing is left to revoke.\<close>

definition revoke_answer :: "nat \<Rightarrow> bytes \<Rightarrow> bool" where
  "revoke_answer status body =
     (status = 200 \<or> status = 204 \<or>
      status = 400 \<and> (contains (to_lower body) ''invalid accessor'' \<or>
                       contains (to_lower body) ''lease not found''))"

lemma vault_revoke_answer:
  "vault_revoke send c a w = (Inr (), w') \<longleftrightarrow>
     validOpaqueSecret a 4096 \<and>
     (\<exists>b st. vault_do send c ''POST'' (vault_endpoint c ''/v1/auth/token/revoke-accessor'')
               (Some (revoke_body a)) '''' w = (Inr (b, st), w') \<and> revoke_answer st b)"
  by (auto simp: vault_revoke_def revoke_answer_def Let_def split: prod.splits sum.splits if_splits)

end
