(* ===== verification/Platform.thy ===== *)
theory Platform
  imports Http Requests
begin

text \<open>
  The control-plane client (\<^verbatim>\<open>internal/broker/platform.go\<close>): looking up a host's public key, and
  the dialer that keeps unencrypted upstreams on private addresses. PEM and X.509 parsing belong
  to Go's \<^verbatim>\<open>encoding/pem\<close> and \<^verbatim>\<open>crypto/x509\<close>; they are the parameter record \<open>key_parsers\<close>.
\<close>

section \<open>Public keys\<close>

record rsa_key =
  k_modulus :: nat
  k_exponent :: nat

text \<open>\<^verbatim>\<open>big.Int.BitLen\<close> and \<^verbatim>\<open>rsa.PublicKey.Size\<close>.\<close>

fun bit_len :: "nat \<Rightarrow> nat" where
  "bit_len n = (if n = 0 then 0 else Suc (bit_len (n div 2)))"

declare bit_len.simps [simp del]

definition key_size :: "rsa_key \<Rightarrow> nat" where
  "key_size k = (bit_len (k_modulus k) + 7) div 8"

lemma bit_len_bounds: "n < 2 ^ bit_len n \<and> (0 < n \<longrightarrow> 2 ^ (bit_len n - 1) \<le> n)"
proof (induction n rule: bit_len.induct)
  case (1 n)
  show ?case
  proof (cases "n = 0")
    case True
    then show ?thesis by (simp add: bit_len.simps)
  next
    case False
    then have IH: "n div 2 < 2 ^ bit_len (n div 2)" "0 < n div 2 \<longrightarrow> 2 ^ (bit_len (n div 2) - 1) \<le> n div 2"
      using "1.IH" by blast+
    have b: "bit_len n = Suc (bit_len (n div 2))"
      using False by (subst bit_len.simps) simp
    show ?thesis
    proof (cases "n div 2 = 0")
      case True
      then show ?thesis using False IH(1) by (simp add: b bit_len.simps)
    next
      case nz: False
      then have "0 < bit_len (n div 2)"
        by (subst bit_len.simps) simp
      then obtain m where m: "bit_len (n div 2) = Suc m"
        by (cases "bit_len (n div 2)") auto
      define q x where "q = n div 2" and "x = (2 :: nat) ^ m"
      have "q < 2 * x" "x \<le> q" "n = 2 * q + n mod 2" "n mod 2 < 2"
        using IH nz m by (simp_all add: q_def x_def)
      then have "n < 4 * x" "2 * x \<le> n" by linarith+
      then show ?thesis by (simp add: b m x_def)
    qed
  qed
qed

text \<open>
  A parser answers \<open>None\<close> for its error, \<open>Some None\<close> for a key that is not RSA. PEM decoding gives
  the block's bytes and the rest of the input.
\<close>

record key_parsers =
  pem_decode :: "bytes \<Rightarrow> (bytes \<times> bytes) option"
  parse_pkcs1 :: "bytes \<Rightarrow> rsa_key option"
  parse_pkix :: "bytes \<Rightarrow> rsa_key option option"
  parse_certificate :: "bytes \<Rightarrow> rsa_key option option"

definition parse_der :: "key_parsers \<Rightarrow> bytes \<Rightarrow> rsa_key option" where
  "parse_der ps der =
     (case parse_pkcs1 ps der of
        Some k \<Rightarrow> Some k
      | None \<Rightarrow>
          (case parse_pkix ps der of
             Some k \<Rightarrow> k
           | None \<Rightarrow> (case parse_certificate ps der of Some k \<Rightarrow> k | None \<Rightarrow> None)))"

definition parseHostPublicKey :: "key_parsers \<Rightarrow> bytes \<Rightarrow> rsa_key result" where
  "parseHostPublicKey ps content =
     (case pem_decode ps content of
        None \<Rightarrow> Inl ''host public key is invalid''
      | Some (block, remainder) \<Rightarrow>
          if length (trim_space remainder) \<noteq> 0 then Inl ''host public key is invalid''
          else (case parse_der ps block of
                  None \<Rightarrow> Inl ''host public key is invalid''
                | Some key \<Rightarrow>
                    if bit_len (k_modulus key) < 2048 \<or> bit_len (k_modulus key) > 8192
                    then Inl ''host public key is invalid'' else Inr key))"

section \<open>Looking up a host\<close>

record host_entry =
  e_uuid :: bytes
  e_state :: bytes
  e_key_data :: bytes

definition no_host :: host_entry where
  "no_host = \<lparr>e_uuid = [], e_state = [], e_key_data = []\<rparr>"

definition host_key_fields :: "host_entry fields" where
  "host_key_fields = [(''data'', set_string (\<lambda>x. e_key_data_update (\<lambda>_. x)))]"

definition host_info_fields :: "host_entry fields" where
  "host_info_fields = [(''hostKey'', decode_struct False host_key_fields)]"

definition host_fields :: "host_entry fields" where
  "host_fields =
     [(''uuid'', set_string (\<lambda>x. e_uuid_update (\<lambda>_. x))),
      (''state'', set_string (\<lambda>x. e_state_update (\<lambda>_. x))),
      (''info'', decode_struct False host_info_fields)]"

type_synonym host_collection = "host_entry list \<times> host_entry list"

definition set_hosts :: "jv \<Rightarrow> host_collection \<Rightarrow> host_collection option" where
  "set_hosts v s =
     (case v of
        JvNull \<Rightarrow> Some ([], [])
      | JvArr [] \<Rightarrow> Some ([], [])
      | JvArr vs \<Rightarrow>
          (let mem = fst s @ snd s
           in map_option (\<lambda>hs. (hs, drop (length hs) mem))
                (decode_list (decode_struct False host_fields) no_host vs mem))
      | _ \<Rightarrow> None)"

definition collection_fields :: "host_collection fields" where
  "collection_fields = [(''data'', set_hosts)]"

record platformClient =
  f_endpoint :: url
  f_accessKey :: bytes
  f_secretKey :: bytes
  f_maxResponseBytes :: int

definition newPlatformClient :: "config \<Rightarrow> url \<Rightarrow> platformClient" where
  "newPlatformClient config base =
     \<lparr>f_endpoint = base\<lparr>u_path := trim_right_byte CHR ''/'' (u_path base) @ ''/hosts''\<rparr>,
      f_accessKey = AccessKey config, f_secretKey = SecretKey config,
      f_maxResponseBytes = MaxResponseBytes config\<rparr>"

definition host_request :: "platformClient \<Rightarrow> bytes \<Rightarrow> http_request" where
  "host_request client hostUUID =
     \<lparr>q_method = ''GET'',
      q_url = (f_endpoint client)\<lparr>u_query := query_encode [(''uuid'', hostUUID)]\<rparr>,
      q_headers =
        [(''Accept'', ''application/json''),
         (''Authorization'', ''Basic '' @ std_encode (f_accessKey client @ '':'' @ f_secretKey client))],
      q_body = None\<rparr>"

text \<open>
  The collection's decoder allows unknown members and one document only. A rejected reply's body
  is drained and dropped.
\<close>

definition decode_hosts :: "bytes \<Rightarrow> host_entry list option" where
  "decode_hosts body =
     (case json_document body of
        None \<Rightarrow> None
      | Some v \<Rightarrow> map_option fst (decode_struct False collection_fields v ([], [])))"

definition hostPublicKey ::
  "'w transport \<Rightarrow> key_parsers \<Rightarrow> platformClient \<Rightarrow> bytes \<Rightarrow> 'w \<Rightarrow> rsa_key result \<times> 'w" where
  "hostPublicKey send ps client hostUUID w =
     (if \<not> validName hostUUID 128 then (Inl ''host identity is invalid'', w)
      else case send (host_request client hostUUID) w of
        (None, w') \<Rightarrow> (Inl ''host identity request failed'', w')
      | (Some reply, w') \<Rightarrow>
          if p_status reply \<noteq> 200 then (Inl ''host identity request was rejected'', w')
          else (case read_limited (f_maxResponseBytes client) reply of
             None \<Rightarrow> (Inl ''host identity response exceeds its limit'', w')
           | Some body \<Rightarrow>
               (case decode_hosts body of
                  None \<Rightarrow> (Inl ''host identity response is invalid'', w')
                | Some data \<Rightarrow>
                    (case data of
                       [host] \<Rightarrow>
                         if e_uuid host \<noteq> hostUUID \<or> e_state host \<noteq> ''active''
                         then (Inl ''host identity response is ambiguous'', w')
                         else (parseHostPublicKey ps (e_key_data host), w')
                     | _ \<Rightarrow> (Inl ''host identity response is ambiguous'', w')))))"

lemma parseHostPublicKey_size:
  "parseHostPublicKey ps content = Inr k \<Longrightarrow>
     2048 \<le> bit_len (k_modulus k) \<and> bit_len (k_modulus k) \<le> 8192"
  by (auto simp: parseHostPublicKey_def split: option.splits if_splits prod.splits)

text \<open>A key is returned only for the single, active host of the requested identity.\<close>

definition host_answer :: "key_parsers \<Rightarrow> bytes \<Rightarrow> bytes \<Rightarrow> rsa_key \<Rightarrow> bool" where
  "host_answer ps body hostUUID key =
     (case decode_hosts body of
        Some [host] \<Rightarrow>
          e_uuid host = hostUUID \<and> e_state host = ''active'' \<and>
          parseHostPublicKey ps (e_key_data host) = Inr key
      | _ \<Rightarrow> False)"

lemma hostPublicKey_answer:
  assumes "0 \<le> f_maxResponseBytes c"
  shows "hostPublicKey send ps c h w = (Inr key, w') \<longleftrightarrow>
     validName h 128 \<and>
     (\<exists>reply. send (host_request c h) w = (Some reply, w') \<and> p_status reply = 200 \<and>
        \<not> p_broken reply \<and> int (length (p_data reply)) \<le> f_maxResponseBytes c \<and>
        host_answer ps (p_data reply) h key)"
  by (auto simp: hostPublicKey_def host_answer_def read_limited_eq [OF assms]
      split: prod.splits option.splits list.splits if_splits)

end
