(* ===== verification/Ascii.thy ===== *)
theory Ascii
  imports GoJsonEncode
begin

text \<open>
  ASCII text: what the encoders write is ASCII, ASCII is valid UTF-8, and JSON escapes lengthen it
  at most sixfold.
\<close>

definition ascii :: "bytes \<Rightarrow> bool" where
  "ascii s = list_all (\<lambda>c. byte_val c < 0x80) s"

lemma ascii_simps [simp]:
  "ascii []" "ascii (c # s) \<longleftrightarrow> byte_val c < 0x80 \<and> ascii s" "ascii (s @ t) \<longleftrightarrow> ascii s \<and> ascii t"
  by (simp_all add: ascii_def)

lemma ascii_utf8: "ascii s \<Longrightarrow> valid_utf8 s"
  by (induction s) simp_all

lemma ascii_b64: "(\<And>d. byte_val (e d) < 0x80) \<Longrightarrow> ascii pad \<Longrightarrow> ascii (b64_encode e pad s)"
  by (induction s rule: chunk3_induct) (simp_all add: Let_def)

lemma ascii_std_encode [simp]: "ascii (std_encode s)"
  unfolding std_encode_def by (rule ascii_b64) (auto simp: b64_char_def)

lemma ascii_hex_char: "d < 16 \<Longrightarrow> byte_val (hex_char d) < 0x80"
  by (simp add: hex_char_def)

lemma ascii_escape: "byte_val c < 0x80 \<Longrightarrow> ascii (escape_ascii h c)"
  by (cases rule: escape_ascii_cases [of c h])
    (auto simp: u_escape_def ascii_hex_char backslash_def)

lemma ascii_json_escape: "ascii s \<Longrightarrow> ascii (json_escape h s)"
  by (induction s) (simp_all add: json_escape_ascii ascii_escape)

lemma ascii_json_quote [simp]: "ascii s \<Longrightarrow> ascii (json_quote h s)"
  by (simp add: json_quote_def ascii_json_escape quote_char_def)

lemma ascii_rawurl: "ascii (rawurl_encode s)"
  unfolding rawurl_encode_def by (rule ascii_b64) (auto simp: b64_char_def)

lemma length_json_quote: "ascii s \<Longrightarrow> length (json_quote h s) \<le> 6 * length s + 2"
proof -
  assume "ascii s"
  then have "length (json_escape h s) \<le> 6 * length s"
  proof (induction s)
    case (Cons c s)
    have "length (escape_ascii h c) \<le> 6"
      by (simp add: escape_ascii_def u_escape_def)
    with Cons show ?case by (simp add: json_escape_ascii)
  qed simp
  then show ?thesis by (simp add: json_quote_def)
qed

lemma length_json_quote_ge: "ascii s \<Longrightarrow> length s \<le> length (json_quote h s)"
proof -
  assume "ascii s"
  then have "length s \<le> length (json_escape h s)"
  proof (induction s)
    case (Cons c s)
    have "1 \<le> length (escape_ascii h c)"
      by (simp add: escape_ascii_def u_escape_def)
    with Cons show ?case by (simp add: json_escape_ascii)
  qed simp
  then show ?thesis by (simp add: json_quote_def)
qed

lemma length_commas_ge: "sum_list (map length xs) \<le> length (commas c xs)"
  by (induction xs rule: induct_list012) simp_all

lemma ascii_digits: "list_all json_digit s \<Longrightarrow> ascii s"
  by (fastforce simp: ascii_def list_all_iff json_digit_def digit_val_def Let_def split: if_splits)

lemma ascii_show_nat [simp]: "ascii (show_nat n)"
  by (rule ascii_digits) (rule show_nat_digits)

lemma ascii_hex [simp]: "ascii (hex_encode s)"
  by (induction s) (simp_all add: ascii_hex_char byte_val_div16)

lemma length_show_nat: "n < 10 ^ k \<Longrightarrow> 0 < k \<Longrightarrow> length (show_nat n) \<le> k"
proof (induction k arbitrary: n)
  case (Suc k)
  show ?case
  proof (cases "n < 10")
    case True
    then show ?thesis by (simp add: show_nat.simps)
  next
    case False
    then have "0 < k" using Suc.prems by (cases k) simp_all
    moreover have "n div 10 < 10 ^ k" using Suc.prems by (simp add: less_mult_imp_div_less)
    ultimately have "length (show_nat (n div 10)) \<le> k" by (intro Suc.IH)
    then show ?thesis using False by (subst show_nat.simps) simp
  qed
qed simp

section \<open>Size of an encoded tree\<close>

fun jv_ascii :: "jv \<Rightarrow> bool" where
  "jv_ascii JvNull = True"
| "jv_ascii (JvBool b) = True"
| "jv_ascii (JvNum n) = ascii n"
| "jv_ascii (JvStr s) = ascii s"
| "jv_ascii (JvArr vs) = list_all jv_ascii vs"
| "jv_ascii (JvObj ms) = list_all (\<lambda>(k, v). ascii k \<and> jv_ascii v) ms"

fun jv_size :: "jv \<Rightarrow> nat" where
  "jv_size JvNull = 4"
| "jv_size (JvBool b) = 5"
| "jv_size (JvNum n) = length n"
| "jv_size (JvStr s) = 6 * length s + 2"
| "jv_size (JvArr vs) = 2 + sum_list (map (\<lambda>v. jv_size v + 1) vs)"
| "jv_size (JvObj ms) = 2 + sum_list (map (\<lambda>(k, v). 6 * length k + jv_size v + 4) ms)"

lemma length_commas: "length (commas c xs) \<le> sum_list (map (\<lambda>x. length x + 1) xs)"
proof -
  have "length (concat (map (\<lambda>y. c # y) ys)) = sum_list (map (\<lambda>x. length x + 1) ys)" for ys :: "'a list list"
    by (induction ys) simp_all
  then show ?thesis by (cases xs) (simp_all add: commas_def)
qed

lemma length_json_encode: "jv_ascii v \<Longrightarrow> length (json_encode h v) \<le> jv_size v"
proof (induction v)
  case (JvStr s)
  then show ?case using length_json_quote by simp
next
  case (JvArr vs)
  have "sum_list (map (\<lambda>x. length x + 1) (map (json_encode h) vs)) \<le> sum_list (map (\<lambda>v. jv_size v + 1) vs)"
    unfolding map_map using JvArr by (intro sum_list_mono) (auto simp: list_all_iff)
  with length_commas [of "CHR '',''" "map (json_encode h) vs"] show ?case by simp
next
  case (JvObj ms)
  let ?m = "\<lambda>(k, v). json_quote h k @ CHR '':'' # json_encode h v"
  have "length (?m m) + 1 \<le> (\<lambda>(k, v). 6 * length k + jv_size v + 4) m" if "m \<in> set ms" for m
  proof (cases m)
    case (Pair k v)
    then have "ascii k" "jv_ascii v" using JvObj.prems that by (auto simp: list_all_iff)
    moreover from this have "length (json_encode h v) \<le> jv_size v"
      using JvObj.IH [of m v] that Pair by simp
    ultimately show ?thesis using length_json_quote [of k h] Pair by simp
  qed
  then have "sum_list (map (\<lambda>x. length x + 1) (map ?m ms)) \<le> sum_list (map (\<lambda>(k, v). 6 * length k + jv_size v + 4) ms)"
    unfolding map_map by (intro sum_list_mono) auto
  with length_commas [of "CHR '',''" "map ?m ms"] show ?case by simp
qed simp_all

lemma ascii_commas: "byte_val c < 0x80 \<Longrightarrow> list_all ascii xs \<Longrightarrow> ascii (commas c xs)"
proof -
  assume c: "byte_val c < 0x80" and "list_all ascii xs"
  moreover have "ascii (concat (map (\<lambda>y. c # y) ys))" if "list_all ascii ys" for ys
    using that c by (induction ys) simp_all
  ultimately show ?thesis by (cases xs) (simp_all add: commas_def)
qed

lemma ascii_json_encode: "jv_ascii v \<Longrightarrow> ascii (json_encode h v)"
proof (induction v)
  case (JvArr vs)
  then have "list_all ascii (map (json_encode h) vs)" by (simp add: list_all_iff)
  then show ?case by (simp add: ascii_commas)
next
  case (JvObj ms)
  then have "list_all ascii (map (\<lambda>(k, v). json_quote h k @ CHR '':'' # json_encode h v) ms)"
    by (fastforce simp: list_all_iff)
  then show ?case by (simp add: ascii_commas)
qed simp_all

end
