(* ===== verification/Envelope.thy ===== *)
theory Envelope
  imports Platform Ascii
begin

text \<open>
  The encrypted lease record (\<^verbatim>\<open>internal/broker/envelope.go\<close>). AES-256-GCM and RSA-OAEP are the
  parameter record \<open>lease_crypto\<close>; HMAC-SHA-256, base64 and the JSON of the two envelopes are
  concrete.
\<close>

section \<open>Data\<close>

record encryptedRecord =
  x_name :: bytes
  x_uid :: bytes
  x_gid :: bytes
  x_mode :: bytes
  x_rewrapText :: bytes

record rsaEnvelope =
  a_encryptionAlgorithm :: bytes
  a_encryptedText :: bytes
  a_hashAlgorithm :: bytes

record encryptedEnvelope =
  n_encryptionAlgorithm :: bytes
  n_encryptedText :: bytes
  n_hashAlgorithm :: bytes
  n_encryptedKey :: rsaEnvelope
  n_signature :: bytes

record aesEnvelope =
  y_nonce :: bytes
  y_algorithm :: bytes
  y_cipherText :: bytes

text \<open>
  \<open>gcm_seal key nonce plain\<close> is \<^verbatim>\<open>gcm.Seal\<close> with no additional data; \<open>oaep_encrypt\<close> is
  \<^verbatim>\<open>rsa.EncryptOAEP\<close> with SHA-256 and no label, its randomness the second argument, \<open>None\<close> its
  error.
\<close>

record lease_crypto =
  gcm_seal :: "bytes \<Rightarrow> bytes \<Rightarrow> bytes \<Rightarrow> bytes"
  oaep_encrypt :: "rsa_key \<Rightarrow> (nat \<Rightarrow> char) \<Rightarrow> bytes \<Rightarrow> bytes option"

text \<open>
  What \<^verbatim>\<open>rand.Read\<close> delivers for the data key, the GCM nonce and the signing nonce: \<open>None\<close> is its
  error, otherwise a stream of bytes of which the call takes as many as its buffer holds.
\<close>

record entropy =
  y_key :: "(nat \<Rightarrow> char) option"
  y_gcm :: "(nat \<Rightarrow> char) option"
  y_signing :: "(nat \<Rightarrow> char) option"
  y_oaep :: "nat \<Rightarrow> char"

definition rand_read :: "nat \<Rightarrow> (nat \<Rightarrow> char) option \<Rightarrow> bytes option" where
  "rand_read n r = map_option (\<lambda>f. map f [0..<n]) r"

section \<open>Encoding\<close>

definition aes_document :: "aesEnvelope \<Rightarrow> jv" where
  "aes_document e = JvObj
     [(''Nonce'', JvStr (std_encode (y_nonce e))), (''Algorithm'', JvStr (y_algorithm e)),
      (''CipherText'', JvStr (std_encode (y_cipherText e)))]"

definition envelope_document :: "encryptedEnvelope \<Rightarrow> jv" where
  "envelope_document e = JvObj
     [(''encryptionAlgorithm'', JvStr (n_encryptionAlgorithm e)),
      (''encryptedText'', JvStr (n_encryptedText e)),
      (''hashAlgorithm'', JvStr (n_hashAlgorithm e)),
      (''encryptedKey'', JvObj
         [(''encryptionAlgorithm'', JvStr (a_encryptionAlgorithm (n_encryptedKey e))),
          (''encryptedText'', JvStr (a_encryptedText (n_encryptedKey e))),
          (''hashAlgorithm'', JvStr (a_hashAlgorithm (n_encryptedKey e)))]),
      (''signature'', JvStr (n_signature e))]"

text \<open>\<^verbatim>\<open>json.NewEncoder(response).Encode(issueResponse{...})\<close>: the document and a newline.\<close>

definition record_document :: "encryptedRecord \<Rightarrow> jv" where
  "record_document r = JvObj
     [(''name'', JvStr (x_name r)), (''uid'', JvStr (x_uid r)), (''gid'', JvStr (x_gid r)),
      (''mode'', JvStr (x_mode r)), (''rewrapText'', JvStr (x_rewrapText r))]"

definition issue_response :: "encryptedRecord list \<Rightarrow> jv" where
  "issue_response records = JvObj [(''records'', JvArr (map record_document records))]"

section \<open>Encrypting\<close>

text \<open>\<open>None\<close> is a nil key. AES accepts every 32-byte key and GCM's nonce has 12 bytes.\<close>

definition lease_signature :: "bytes \<Rightarrow> bytes \<Rightarrow> bytes \<Rightarrow> bytes" where
  "lease_signature dataKey signingNonce payload =
     signingNonce @ '':'' @ hmac_sha256 dataKey (signingNonce @ '':'' @ payload)"

definition encryptLeaseRecord ::
  "lease_crypto \<Rightarrow> entropy \<Rightarrow> rsa_key option \<Rightarrow> issueRequest \<Rightarrow> bytes \<Rightarrow> encryptedRecord result" where
  "encryptLeaseRecord cr rnd publicKey request token =
     (case publicKey of
        None \<Rightarrow> Inl ''Vault lease encryption input is invalid''
      | Some key \<Rightarrow>
          if bit_len (k_modulus key) < 2048 \<or> length token = 0 \<or> length token > 64 * 1024
          then Inl ''Vault lease encryption input is invalid''
          else (case rand_read 32 (y_key rnd) of
            None \<Rightarrow> Inl ''unable to create Vault lease encryption key''
          | Some dataKey \<Rightarrow> (case rand_read 12 (y_gcm rnd) of
            None \<Rightarrow> Inl ''unable to create Vault lease nonce''
          | Some nonce \<Rightarrow>
            (let cipherText = gcm_seal cr dataKey nonce (std_encode token);
                 payload = json_encode True (aes_document
                   \<lparr>y_nonce = nonce, y_algorithm = ''aes256-gcm'', y_cipherText = cipherText\<rparr>)
             in case rand_read 12 (y_signing rnd) of
               None \<Rightarrow> Inl ''unable to create Vault lease signature nonce''
             | Some signingNonce \<Rightarrow>
               (let signature = lease_signature dataKey signingNonce payload
                in case oaep_encrypt cr key (y_oaep rnd) dataKey of
                  None \<Rightarrow> Inl ''unable to protect Vault lease encryption key''
                | Some encryptedKey \<Rightarrow>
                  (let envelope = json_encode True (envelope_document
                         \<lparr>n_encryptionAlgorithm = ''aes256-gcm96'', n_encryptedText = payload,
                          n_hashAlgorithm = '''',
                          n_encryptedKey =
                            \<lparr>a_encryptionAlgorithm = ''PKCS1_OAEP'',
                             a_encryptedText = std_encode encryptedKey, a_hashAlgorithm = ''sha256''\<rparr>,
                          n_signature = std_encode signature\<rparr>)
                   in Inr \<lparr>x_name = i_file request, x_uid = i_uid request, x_gid = i_gid request,
                           x_mode = i_mode request, x_rewrapText = std_encode envelope\<rparr>))))))"

text \<open>Overwriting a buffer with zeros.\<close>

definition zeroBytes :: "bytes \<Rightarrow> bytes" where
  "zeroBytes b = map (\<lambda>_. CHR 0x00) b"

section \<open>What the receiver of a record recovers\<close>

text \<open>
  The inverse pipeline of a holder of the private key: decode the envelope, recover the data key,
  check the signature over the payload, open the payload and decode the token.
\<close>

definition member_text :: "bytes \<Rightarrow> jv \<Rightarrow> bytes option" where
  "member_text k v =
     (case v of
        JvObj ms \<Rightarrow> (case map_of ms k of Some (JvStr s) \<Rightarrow> Some s | _ \<Rightarrow> None)
      | _ \<Rightarrow> None)"

definition member_object :: "bytes \<Rightarrow> jv \<Rightarrow> jv option" where
  "member_object k v = (case v of JvObj ms \<Rightarrow> map_of ms k | _ \<Rightarrow> None)"

definition open_record ::
  "(bytes \<Rightarrow> bytes option) \<Rightarrow> (bytes \<Rightarrow> bytes \<Rightarrow> bytes \<Rightarrow> bytes option) \<Rightarrow> bytes \<Rightarrow> bytes option" where
  "open_record oaep_decrypt gcm_open rewrapText =
     do { text \<leftarrow> std_decode_strict rewrapText;
          env \<leftarrow> json_document text;
          payload \<leftarrow> member_text ''encryptedText'' env;
          encKey \<leftarrow> member_object ''encryptedKey'' env;
          keyText \<leftarrow> member_text ''encryptedText'' encKey;
          keyBytes \<leftarrow> std_decode_strict keyText;
          dataKey \<leftarrow> oaep_decrypt keyBytes;
          sigText \<leftarrow> member_text ''signature'' env;
          sig \<leftarrow> std_decode_strict sigText;
          inner \<leftarrow> json_document payload;
          nonceText \<leftarrow> member_text ''Nonce'' inner;
          nonce \<leftarrow> std_decode_strict nonceText;
          cipherText \<leftarrow> member_text ''CipherText'' inner;
          cipher \<leftarrow> std_decode_strict cipherText;
          (if sig \<noteq> take 12 sig @ '':'' @ hmac_sha256 dataKey (take 12 sig @ '':'' @ payload) then None
           else do { plain \<leftarrow> gcm_open dataKey nonce cipher; std_decode_strict plain }) }"

lemma ascii_aes_payload: "ascii (y_algorithm e) \<Longrightarrow> ascii (json_encode True (aes_document e))"
  by (simp add: aes_document_def)

lemma aes_document_read:
  "ascii (y_algorithm e) \<Longrightarrow> json_document (json_encode True (aes_document e)) = Some (aes_document e)"
  by (rule json_document_encode) (simp_all add: aes_document_def ascii_utf8 max_nesting_def)

lemma envelope_document_read:
  assumes "list_all ascii [n_encryptionAlgorithm e, n_encryptedText e, n_hashAlgorithm e, n_signature e,
      a_encryptionAlgorithm (n_encryptedKey e), a_encryptedText (n_encryptedKey e),
      a_hashAlgorithm (n_encryptedKey e)]"
  shows "json_document (json_encode True (envelope_document e)) = Some (envelope_document e)"
  using assms
  by (intro json_document_encode) (simp_all add: envelope_document_def ascii_utf8 max_nesting_def)

lemma encryptLeaseRecord_fields:
  "encryptLeaseRecord cr rnd pk q t = Inr r \<Longrightarrow>
     x_name r = i_file q \<and> x_uid r = i_uid q \<and> x_gid r = i_gid q \<and> x_mode r = i_mode q \<and>
     t \<noteq> [] \<and> length t \<le> 65536"
  by (auto simp: encryptLeaseRecord_def Let_def split: option.splits if_splits)

lemma length_rand_read: "rand_read n r = Some b \<Longrightarrow> length b = n"
  by (auto simp: rand_read_def)

lemma encrypt_open:
  assumes enc: "encryptLeaseRecord cr rnd (Some pk) q t = Inr r"
    and oaep: "\<And>rnd m c. oaep_encrypt cr pk rnd m = Some c \<Longrightarrow> oaep_decrypt c = Some m"
    and gcm: "\<And>k n p. length k = 32 \<Longrightarrow> length n = 12 \<Longrightarrow> gcm_open k n (gcm_seal cr k n p) = Some p"
  shows "open_record oaep_decrypt gcm_open (x_rewrapText r) = Some t"
proof -
  obtain dk nonce sn ek where dk: "rand_read 32 (y_key rnd) = Some dk"
      and nonce: "rand_read 12 (y_gcm rnd) = Some nonce" and sn: "rand_read 12 (y_signing rnd) = Some sn"
      and ek: "oaep_encrypt cr pk (y_oaep rnd) dk = Some ek"
    using enc by (auto simp: encryptLeaseRecord_def Let_def split: option.splits if_splits)
  define inner where "inner = \<lparr>y_nonce = nonce, y_algorithm = ''aes256-gcm'',
    y_cipherText = gcm_seal cr dk nonce (std_encode t)\<rparr>"
  define payload where "payload = json_encode True (aes_document inner)"
  define env where "env = \<lparr>n_encryptionAlgorithm = ''aes256-gcm96'', n_encryptedText = payload,
    n_hashAlgorithm = '''',
    n_encryptedKey = \<lparr>a_encryptionAlgorithm = ''PKCS1_OAEP'', a_encryptedText = std_encode ek,
      a_hashAlgorithm = ''sha256''\<rparr>,
    n_signature = std_encode (lease_signature dk sn payload)\<rparr>"
  have r: "x_rewrapText r = std_encode (json_encode True (envelope_document env))"
    using enc dk nonce sn ek
    by (auto simp: encryptLeaseRecord_def Let_def env_def payload_def inner_def split: if_splits)
  have "ascii payload"
    unfolding payload_def by (rule ascii_aes_payload) (simp add: inner_def)
  then have env: "json_document (json_encode True (envelope_document env)) = Some (envelope_document env)"
    by (intro envelope_document_read) (simp add: env_def)
  have inner: "json_document payload = Some (aes_document inner)"
    unfolding payload_def by (rule aes_document_read) (simp add: inner_def)
  have "lease_signature dk sn payload = sn @ '':'' @ hmac_sha256 dk (sn @ '':'' @ payload)" "length sn = 12"
    using length_rand_read [OF sn] by (simp_all add: lease_signature_def)
  then show ?thesis
    using oaep [OF ek] gcm [OF length_rand_read [OF dk] length_rand_read [OF nonce]] inner
    by (simp add: open_record_def r env)
      (simp add: env_def inner_def envelope_document_def aes_document_def member_text_def member_object_def)
qed

text \<open>The signature field: twelve bytes of nonce, the separator and the 32-byte tag.\<close>

lemma length_lease_signature:
  "length sn = 12 \<Longrightarrow> length (lease_signature dk sn payload) = 45"
  by (simp add: lease_signature_def)

end
