(* ===== verification/StateStore.thy ===== *)
theory StateStore
  imports Requests "HOL-Library.Sublist"
begin

text \<open>
  The lease-accessor store (\<^verbatim>\<open>internal/broker/state.go\<close>): a map from lease keys to Vault
  accessors, written to one file after every change. The file system is explicit: nodes by path,
  a journal of every intermediate state (what a crash could leave), and a script that decides
  which system calls of each persist fail and how far a failing write gets.
\<close>

unbundle bit_operations_syntax

section \<open>The file system\<close>

text \<open>A regular file has its permission bits, its bytes, and whether \<^verbatim>\<open>Sync\<close> has completed on them.\<close>

datatype node = Regular nat bytes bool | Dir nat | Special

record persist_faults =
  mkdir_fault :: "nat option"
  chdir_ok :: bool
  temp_tries :: "bytes list"
  chmod_ok :: bool
  write_fault :: "nat option"
  sync_ok :: bool
  close_ok :: bool
  rename_ok :: bool
  remove_ok :: bool

record os =
  nodes :: "(bytes, node) gomap"
  journal :: "(bytes, node) gomap list"
  calls :: nat
  script :: "nat \<Rightarrow> persist_faults"

definition effect :: "((bytes, node) gomap \<Rightarrow> (bytes, node) gomap) \<Rightarrow> os \<Rightarrow> os" where
  "effect f s = s\<lparr>nodes := f (nodes s), journal := journal s @ [f (nodes s)]\<rparr>"

text \<open>\<^verbatim>\<open>os.MkdirAll\<close>: missing directories from the root down; an existing non-directory is an error.\<close>

definition dir_chain :: "bytes \<Rightarrow> bytes list" where
  "dir_chain d = map abs_path (prefixes (path_elems d))"

fun mkdirs :: "bytes list \<Rightarrow> nat \<Rightarrow> os \<Rightarrow> bool \<times> os" where
  "mkdirs [] perm s = (True, s)"
| "mkdirs (d # ds) perm s =
     (case gm_get (nodes s) d of
        None \<Rightarrow> mkdirs ds perm (effect (gm_set d (Dir perm)) s)
      | Some (Dir _) \<Rightarrow> mkdirs ds perm s
      | Some _ \<Rightarrow> (False, s))"

definition mkdir_all :: "persist_faults \<Rightarrow> bytes \<Rightarrow> nat \<Rightarrow> os \<Rightarrow> bool \<times> os" where
  "mkdir_all e d perm s =
     (case mkdir_fault e of
        None \<Rightarrow> mkdirs (dir_chain d) perm s
      | Some n \<Rightarrow> (False, snd (mkdirs (take n (dir_chain d)) perm s)))"

text \<open>
  \<^verbatim>\<open>os.CreateTemp(dir, ".leases-*.tmp")\<close> tries random names until one does not exist; the
  script lists the random parts, and running out of them is the error.
\<close>

definition temp_path :: "bytes \<Rightarrow> bytes \<Rightarrow> bytes" where
  "temp_path d r =
     (if has_suffix d ''/'' then d else d @ ''/'') @ ''.leases-'' @ r @ ''.tmp''"

fun create_temp :: "bytes \<Rightarrow> bytes list \<Rightarrow> os \<Rightarrow> bytes option \<times> os" where
  "create_temp d [] s = (None, s)"
| "create_temp d (r # rs) s =
     (if gm_get (nodes s) (temp_path d r) \<noteq> None then create_temp d rs s
      else (Some (temp_path d r), effect (gm_set (temp_path d r) (Regular 384 [] False)) s))"

fun with_mode :: "nat \<Rightarrow> node \<Rightarrow> node" where
  "with_mode m (Regular _ content synced) = Regular m content synced"
| "with_mode m (Dir _) = Dir m"
| "with_mode m Special = Special"

fun appended :: "bytes \<Rightarrow> node \<Rightarrow> node" where
  "appended extra (Regular m content _) = Regular m (content @ extra) False"
| "appended extra n = n"

fun synced :: "node \<Rightarrow> node" where
  "synced (Regular m content _) = Regular m content True"
| "synced n = n"

text \<open>Rewriting one node in place, and \<^verbatim>\<open>rename(2)\<close>.\<close>

definition on_node :: "bytes \<Rightarrow> (node \<Rightarrow> node) \<Rightarrow> (bytes, node) gomap \<Rightarrow> (bytes, node) gomap" where
  "on_node p f ns = (case gm_get ns p of None \<Rightarrow> ns | Some n \<Rightarrow> gm_set p (f n) ns)"

definition rename_node :: "bytes \<Rightarrow> bytes \<Rightarrow> (bytes, node) gomap \<Rightarrow> (bytes, node) gomap" where
  "rename_node src dst ns = (case gm_get ns src of None \<Rightarrow> ns | Some n \<Rightarrow> gm_set dst n (gm_del src ns))"

definition is_dir :: "node option \<Rightarrow> bool" where
  "is_dir n = (case n of Some (Dir _) \<Rightarrow> True | _ \<Rightarrow> False)"

section \<open>Persisting\<close>

text \<open>
  \<^verbatim>\<open>json.Marshal(persistedState{...})\<close>: fields in order, map keys sorted, HTML characters escaped.
\<close>

definition leases_document :: "(bytes, bytes) gomap \<Rightarrow> jv" where
  "leases_document leases =
     JvObj [(''version'', JvNum ''1''),
            (''leases'', JvObj (map (\<lambda>k. (k, JvStr (the (gm_get leases k)))) (sort (gm_keys leases))))]"

definition encode_leases :: "(bytes, bytes) gomap \<Rightarrow> bytes" where
  "encode_leases leases = json_encode True (leases_document leases)"

text \<open>The deferred cleanup removes the temporary file; its error is dropped.\<close>

definition cleanup_temp :: "persist_faults \<Rightarrow> bytes \<Rightarrow> os \<Rightarrow> os" where
  "cleanup_temp e temporary s = (if remove_ok e then effect (gm_del temporary) s else s)"

definition fill_temp :: "persist_faults \<Rightarrow> bytes \<Rightarrow> bytes \<Rightarrow> bytes \<Rightarrow> os \<Rightarrow> unit result \<times> os" where
  "fill_temp e path temporary content s =
     (if \<not> chmod_ok e then (Inl ''unable to protect Vault lease state'', cleanup_temp e temporary s)
      else let s1 = effect (on_node temporary (with_mode 384)) s in
        case write_fault e of
          Some n \<Rightarrow>
            (Inl ''unable to write Vault lease state'',
             cleanup_temp e temporary (effect (on_node temporary (appended (take n content))) s1))
        | None \<Rightarrow>
            let s2 = effect (on_node temporary (appended content)) s1 in
            if \<not> sync_ok e
            then (Inl ''unable to synchronize Vault lease state'', cleanup_temp e temporary s2)
            else let s3 = effect (on_node temporary synced) s2 in
              if \<not> close_ok e
              then (Inl ''unable to close Vault lease state'', cleanup_temp e temporary s3)
              else if \<not> rename_ok e \<or> is_dir (gm_get (nodes s3) path)
              then (Inl ''unable to activate Vault lease state'', cleanup_temp e temporary s3)
              else (Inr (), effect (rename_node temporary path) s3))"

definition persistLocked :: "bytes \<Rightarrow> (bytes, bytes) gomap \<Rightarrow> os \<Rightarrow> unit result \<times> os" where
  "persistLocked path leases s0 =
     (let e = script s0 (calls s0);
          s = s0\<lparr>calls := Suc (calls s0)\<rparr>;
          directory = path_dir path
      in case mkdir_all e directory 448 s of
           (False, s1) \<Rightarrow> (Inl ''unable to prepare Vault lease state directory'', s1)
         | (True, s1) \<Rightarrow>
             if \<not> chdir_ok e then (Inl ''unable to protect Vault lease state directory'', s1)
             else let s2 = effect (on_node directory (with_mode 448)) s1;
                      content = encode_leases leases
               in case create_temp directory (temp_tries e) s2 of
                    (None, s3) \<Rightarrow> (Inl ''unable to create Vault lease state'', s3)
                  | (Some temporary, s3) \<Rightarrow> fill_temp e path temporary content s3)"

section \<open>The store\<close>

record stateStore =
  s_path :: bytes
  s_leases :: "(bytes, bytes) gomap"

definition store_accessor :: "stateStore \<Rightarrow> bytes \<Rightarrow> bytes" where
  "store_accessor store key = (case gm_get (s_leases store) key of None \<Rightarrow> '''' | Some a \<Rightarrow> a)"

definition lease_count :: "stateStore \<Rightarrow> nat" where
  "lease_count store = length (s_leases store)"

definition store_set :: "stateStore \<Rightarrow> bytes \<Rightarrow> bytes \<Rightarrow> os \<Rightarrow> unit result \<times> stateStore \<times> os" where
  "store_set store key acc s =
     (if \<not> validOpaqueSecret acc 4096 then (Inl ''Vault lease accessor is invalid'', store, s)
      else let previous = gm_get (s_leases store) key;
               store1 = store\<lparr>s_leases := gm_set key acc (s_leases store)\<rparr>
        in case persistLocked (s_path store) (s_leases store1) s of
             (Inr _, s') \<Rightarrow> (Inr (), store1, s')
           | (Inl err, s') \<Rightarrow>
               (Inl err,
                (case previous of
                   Some p \<Rightarrow> store1\<lparr>s_leases := gm_set key p (s_leases store1)\<rparr>
                 | None \<Rightarrow> store1\<lparr>s_leases := gm_del key (s_leases store1)\<rparr>), s'))"

definition store_remove :: "stateStore \<Rightarrow> bytes \<Rightarrow> os \<Rightarrow> unit result \<times> stateStore \<times> os" where
  "store_remove store key s =
     (case gm_get (s_leases store) key of
        None \<Rightarrow> (Inr (), store, s)
      | Some previous \<Rightarrow>
          let store1 = store\<lparr>s_leases := gm_del key (s_leases store)\<rparr>
          in case persistLocked (s_path store) (s_leases store1) s of
               (Inr _, s') \<Rightarrow> (Inr (), store1, s')
             | (Inl err, s') \<Rightarrow> (Inl err, store1\<lparr>s_leases := gm_set key previous (s_leases store1)\<rparr>, s'))"

section \<open>Loading\<close>

record persistedState =
  p_version :: int
  p_leases :: "(bytes, bytes) gomap option"

text \<open>Decoding an object into \<^verbatim>\<open>map[string]string\<close>: a \<^verbatim>\<open>null\<close> value stores the empty string.\<close>

fun decode_map :: "(bytes \<times> jv) list \<Rightarrow> (bytes, bytes) gomap \<Rightarrow> (bytes, bytes) gomap option" where
  "decode_map [] m = Some m"
| "decode_map ((k, v) # ms) m =
     (case v of
        JvStr s \<Rightarrow> decode_map ms (gm_set k s m)
      | JvNull \<Rightarrow> decode_map ms (gm_set k '''' m)
      | _ \<Rightarrow> None)"

definition set_leases :: "jv \<Rightarrow> persistedState \<Rightarrow> persistedState option" where
  "set_leases v s =
     (case v of
        JvNull \<Rightarrow> Some (s\<lparr>p_leases := None\<rparr>)
      | JvObj ms \<Rightarrow>
          map_option (\<lambda>m. s\<lparr>p_leases := Some m\<rparr>)
            (decode_map ms (case p_leases s of None \<Rightarrow> [] | Some m \<Rightarrow> m))
      | _ \<Rightarrow> None)"

definition state_fields :: "persistedState fields" where
  "state_fields = [(''version'', set_int (\<lambda>n. p_version_update (\<lambda>_. n))), (''leases'', set_leases)]"

definition lease_entry_ok :: "bytes \<times> bytes \<Rightarrow> bool" where
  "lease_entry_ok kv =
     ((case hex_decode (fst kv) of None \<Rightarrow> False | Some d \<Rightarrow> length d = 32) \<and>
      validOpaqueSecret (snd kv) 4096)"

text \<open>\<open>lstat_ok\<close> and \<open>read_ok\<close> say whether these two system calls succeed on an existing file.\<close>

definition loadStateStore :: "bool \<Rightarrow> bool \<Rightarrow> bytes \<Rightarrow> os \<Rightarrow> stateStore result" where
  "loadStateStore lstat_ok read_ok p s =
     (case gm_get (nodes s) p of
        None \<Rightarrow> if lstat_ok then Inr \<lparr>s_path = p, s_leases = []\<rparr> else Inl ''Vault lease state file is unsafe''
      | Some (Regular mode content _) \<Rightarrow>
          if \<not> lstat_ok \<or> mode AND 63 \<noteq> 0 then Inl ''Vault lease state file is unsafe''
          else if \<not> read_ok \<or> length content = 0 \<or> length content > 4 * 1024 * 1024
            then Inl ''Vault lease state file is invalid''
          else (case decodeStrict state_fields content \<lparr>p_version = 0, p_leases = None\<rparr> of
                  None \<Rightarrow> Inl ''Vault lease state file is invalid''
                | Some st \<Rightarrow>
                    if p_version st \<noteq> 1 then Inl ''Vault lease state file is invalid''
                    else (case p_leases st of
                            None \<Rightarrow> Inl ''Vault lease state file is invalid''
                          | Some m \<Rightarrow>
                              if list_all lease_entry_ok m then Inr \<lparr>s_path = p, s_leases = m\<rparr>
                              else Inl ''Vault lease state file is invalid''))
      | Some _ \<Rightarrow> Inl ''Vault lease state file is unsafe'')"

section \<open>Effects on one path\<close>

lemma effect_simps [simp]:
  "nodes (effect f s) = f (nodes s)" "journal (effect f s) = journal s @ [f (nodes s)]"
  "script (effect f s) = script s" "calls (effect f s) = calls s"
  by (simp_all add: effect_def)

lemma gm_get_on_node [simp]:
  "gm_get (on_node p f ns) q = (if q = p then map_option f (gm_get ns p) else gm_get ns q)"
  by (auto simp: on_node_def split: option.splits)

lemma gm_get_rename_node:
  "gm_get ns a = Some n \<Longrightarrow>
     gm_get (rename_node a b ns) q = (if q = b then Some n else if q = a then None else gm_get ns q)"
  by (simp add: rename_node_def)

text \<open>Every state journalled between \<open>s\<close> and \<open>s'\<close> has one of the nodes \<open>V\<close> at \<open>p\<close>.\<close>

definition evolves :: "bytes \<Rightarrow> node option set \<Rightarrow> os \<Rightarrow> os \<Rightarrow> bool" where
  "evolves p V s s' =
     (\<exists>js. journal s' = journal s @ js \<and> (\<forall>ns \<in> set js. gm_get ns p \<in> V))"

lemma evolves_refl [simp, inv_intros]: "evolves p V s s"
  by (simp add: evolves_def)

lemma evolves_trans [inv_intros]: "evolves p V s s' \<Longrightarrow> evolves p V s' s'' \<Longrightarrow> evolves p V s s''"
  by (fastforce simp: evolves_def)

lemma evolves_effect [simp]: "evolves p V s (effect f s') \<longleftrightarrow> evolves p V s s' \<and> gm_get (f (nodes s')) p \<in> V"
  if "evolves p V s s'"
  using that by (fastforce simp: evolves_def)

lemma evolves_step: "gm_get (f (nodes s)) p \<in> V \<Longrightarrow> evolves p V (effect f s) s' \<Longrightarrow> evolves p V s s'"
  by (rule evolves_trans [of _ _ _ "effect f s"]) simp_all

text \<open>Induction over a run of \<^verbatim>\<open>mkdirs\<close>: nothing left, a directory created, one found, a clash.\<close>

lemma mkdirs_induct [consumes 1, case_names none create found clash]:
  assumes "mkdirs ds perm s = (ok, s')"
    and "\<And>s. P [] s True s"
    and "\<And>d ds s ok s'. gm_get (nodes s) d = None \<Longrightarrow>
           P ds (effect (gm_set d (Dir perm)) s) ok s' \<Longrightarrow> P (d # ds) s ok s'"
    and "\<And>d ds s m ok s'. gm_get (nodes s) d = Some (Dir m) \<Longrightarrow> P ds s ok s' \<Longrightarrow> P (d # ds) s ok s'"
    and "\<And>d ds s. P (d # ds) s False s"
  shows "P ds s ok s'"
  using assms(1)
proof (induction ds arbitrary: s)
  case Nil
  then show ?case using assms(2) by simp
next
  case (Cons d ds)
  then show ?case
    by (auto split: option.splits node.splits intro: assms(3-5))
qed

lemma mkdirs_frame:
  assumes "mkdirs ds perm s = (ok, s')"
  shows mkdirs_other: "q \<notin> set ds \<Longrightarrow> gm_get (nodes s') q = gm_get (nodes s) q"
    and mkdirs_script: "script s' = script s" and mkdirs_calls: "calls s' = calls s"
  using assms by (induction rule: mkdirs_induct) simp_all

lemma mkdirs_keep: 
  "mkdirs ds perm s = (ok, s') \<Longrightarrow> gm_get (nodes s) r = Some n \<Longrightarrow> gm_get (nodes s') r = Some n"
proof (induction rule: mkdirs_induct)
  case (create d ds s ok s')
  then show ?case by (cases "r = d") simp_all
qed simp_all

lemma mkdirs_evolves:
  "mkdirs ds perm s = (ok, s') \<Longrightarrow> p \<notin> set ds \<Longrightarrow> gm_get (nodes s) p \<in> V \<Longrightarrow> evolves p V s s'"
proof (induction rule: mkdirs_induct)
  case (create d ds s ok s')
  then show ?case
    by (auto intro: evolves_step [where f = "gm_set d (Dir perm)" and s = s])
qed auto

lemma mkdirs_dirs: "mkdirs ds perm s = (True, s') \<Longrightarrow> d \<in> set ds \<Longrightarrow> is_dir (gm_get (nodes s') d)"
proof (induction ds perm s rule: mkdirs.induct)
  case (2 d' ds perm s)
  show ?case
  proof (cases "gm_get (nodes s) d'")
    case None
    with "2.prems" have rest: "mkdirs ds perm (effect (gm_set d' (Dir perm)) s) = (True, s')" by simp
    then have "gm_get (nodes s') d' = Some (Dir perm)"
      by (rule mkdirs_keep) simp
    with "2.IH"(1) [OF None rest] "2.prems" show ?thesis by (auto simp: is_dir_def)
  next
    case (Some n)
    with "2.prems" obtain m where n: "n = Dir m" and rest: "mkdirs ds perm s = (True, s')"
      by (auto split: node.splits)
    have "gm_get (nodes s') d' = Some (Dir m)"
      using mkdirs_keep [OF rest] Some n by simp
    with "2.IH"(2) [OF Some n rest] "2.prems" show ?thesis by (auto simp: is_dir_def)
  qed
qed simp

lemma mkdir_all_frame:
  assumes "mkdir_all e d perm s = (ok, s')"
  shows "q \<notin> set (dir_chain d) \<Longrightarrow> gm_get (nodes s') q = gm_get (nodes s) q"
    and "p \<notin> set (dir_chain d) \<Longrightarrow> gm_get (nodes s) p \<in> V \<Longrightarrow> evolves p V s s'"
    and "script s' = script s" and "calls s' = calls s"
    and "ok \<Longrightarrow> q \<in> set (dir_chain d) \<Longrightarrow> is_dir (gm_get (nodes s') q)"
proof -
  obtain ds ok' where run: "mkdirs ds perm s = (ok', s')" and sub: "set ds \<subseteq> set (dir_chain d)"
      and full: "ok \<Longrightarrow> ok' \<and> ds = dir_chain d"
  proof (cases "mkdir_fault e")
    case None
    then show thesis using assms that [of "dir_chain d" ok] by (simp add: mkdir_all_def)
  next
    case (Some n)
    then show thesis
      using assms that [of "take n (dir_chain d)" "fst (mkdirs (take n (dir_chain d)) perm s)"]
        set_take_subset [of n "dir_chain d"]
      by (auto simp: mkdir_all_def prod_eq_iff)
  qed
  show "q \<notin> set (dir_chain d) \<Longrightarrow> gm_get (nodes s') q = gm_get (nodes s) q"
    using mkdirs_other [OF run] sub by blast
  show "p \<notin> set (dir_chain d) \<Longrightarrow> gm_get (nodes s) p \<in> V \<Longrightarrow> evolves p V s s'"
    using mkdirs_evolves [OF run] sub by blast
  show "script s' = script s" and "calls s' = calls s"
    using mkdirs_script [OF run] mkdirs_calls [OF run] by auto
  show "ok \<Longrightarrow> q \<in> set (dir_chain d) \<Longrightarrow> is_dir (gm_get (nodes s') q)"
    using mkdirs_dirs [of ds perm s s' q] run full by simp
qed

lemma create_temp_none: "create_temp d rs s = (None, s') \<Longrightarrow> s' = s"
  by (induction d rs s rule: create_temp.induct) (auto split: if_splits)

lemma create_temp_some:
  "create_temp d rs s = (Some t, s') \<Longrightarrow>
     (\<exists>r. t = temp_path d r) \<and> gm_get (nodes s) t = None \<and>
     s' = effect (gm_set t (Regular 384 [] False)) s"
  by (induction d rs s rule: create_temp.induct) (auto split: if_splits)

text \<open>Filling the temporary file: either the target gets the whole, synchronised content, or nothing changes.\<close>

lemma fill_temp_frame:
  assumes "fill_temp e p t c s = (r, s')" and "gm_get (nodes s) t = Some (Regular m [] b)"
    and "t \<noteq> p" and "gm_get (nodes s) p \<in> V" and "Some (Regular 384 c True) \<in> V"
  shows "evolves p V s s'"
    and "script s' = script s" and "calls s' = calls s"
    and "r = Inr () \<Longrightarrow> gm_get (nodes s') q =
           (if q = p then Some (Regular 384 c True) else if q = t then None else gm_get (nodes s) q)"
    and "r = Inl err \<Longrightarrow> q \<noteq> t \<Longrightarrow> gm_get (nodes s') q = gm_get (nodes s) q"
    and "r = Inl err \<Longrightarrow> remove_ok e \<Longrightarrow> gm_get (nodes s') t = None"
  using assms
  by (auto simp: fill_temp_def cleanup_temp_def Let_def gm_get_rename_node [where n = "Regular 384 c True"]
      split: if_splits option.splits)

text \<open>A state file: a clean absolute path that no temporary name can collide with.\<close>

definition state_file :: "bytes \<Rightarrow> bool" where
  "state_file p =
     ((\<exists>es e. list_all plain_elem (es @ [e]) \<and> p = abs_path (es @ [e])) \<and> \<not> has_suffix p ''.tmp'')"

lemma state_file_dir:
  assumes "state_file p"
  shows "p \<notin> set (dir_chain (path_dir p))" and "p \<noteq> path_dir p" and "path_dir p \<in> set (dir_chain (path_dir p))"
    and "temp_path d r \<noteq> p"
proof -
  obtain es e where es: "list_all plain_elem (es @ [e])" and p: "p = abs_path (es @ [e])"
    using assms by (auto simp: state_file_def)
  then have es': "list_all plain_elem es" and dir: "path_dir p = abs_path es"
    by (simp_all add: path_dir_abs_path)
  then have chain: "dir_chain (path_dir p) = map abs_path (prefixes es)"
    by (simp add: dir_chain_def)
  have neq: "p \<noteq> abs_path xs" if "prefix xs es" for xs
  proof
    assume "p = abs_path xs"
    then have "abs_path (es @ [e]) = abs_path xs" by (simp add: p)
    moreover have "list_all plain_elem xs"
      using that es' by (auto simp: prefix_def)
    ultimately have "es @ [e] = xs"
      using es by (metis path_elems_abs_path)
    with prefix_length_le [OF that] show False by auto
  qed
  then show "p \<notin> set (dir_chain (path_dir p))" and "p \<noteq> path_dir p"
    unfolding chain unfolding dir by (metis imageE in_set_prefixes list.set_map, blast)
  show "path_dir p \<in> set (dir_chain (path_dir p))"
    using chain dir by auto
  have "has_suffix (temp_path d r) ''.tmp''"
    by (auto simp: has_suffix_iff temp_path_def)
  then show "temp_path d r \<noteq> p"
    using assms by (auto simp: state_file_def)
qed

text \<open>
  What one persist does: the nodes a crash can expose at the state file, the outcome there, and
  the rest of the file system. Its first stage prepares the directory: the state file and all that
  is no parent directory stay as they were.
\<close>

definition dir_stage :: "bytes \<Rightarrow> os \<Rightarrow> os \<Rightarrow> bool" where
  "dir_stage p s s1 \<longleftrightarrow>
     (\<forall>V. gm_get (nodes s) p \<in> V \<longrightarrow> evolves p V s s1) \<and> script s1 = script s \<and> calls s1 = Suc (calls s) \<and>
     (\<forall>q. q \<notin> set (dir_chain (path_dir p)) \<longrightarrow> gm_get (nodes s1) q = gm_get (nodes s) q)"

definition dirs_made :: "bytes \<Rightarrow> os \<Rightarrow> bool" where
  "dirs_made p s \<longleftrightarrow> (\<forall>d \<in> set (dir_chain (path_dir p)). is_dir (gm_get (nodes s) d))"

lemma is_dir_node: "is_dir n \<Longrightarrow> \<exists>m. n = Some (Dir m)"
  by (auto simp: is_dir_def split: option.splits node.splits)

lemma mkdir_stage:
  assumes "mkdir_all e (path_dir p) 448 (s\<lparr>calls := Suc (calls s)\<rparr>) = (ok, s1)" and "state_file p"
  shows "dir_stage p s s1" and "ok \<Longrightarrow> dirs_made p s1"
proof -
  have "evolves p V s s1" if "gm_get (nodes s) p \<in> V" for V
    using mkdir_all_frame(2) [OF assms(1) state_file_dir(1) [OF assms(2)]] that by (simp add: evolves_def)
  then show "dir_stage p s s1"
    using mkdir_all_frame(1,3,4) [OF assms(1)] by (simp add: dir_stage_def)
  show "ok \<Longrightarrow> dirs_made p s1"
    using mkdir_all_frame(5) [OF assms(1)] by (simp add: dirs_made_def)
qed

lemma chmod_stage:
  assumes "dir_stage p s s1" and "dirs_made p s1" and "state_file p"
  defines "s2 \<equiv> effect (on_node (path_dir p) (with_mode 448)) s1"
  shows "dir_stage p s s2" and "dirs_made p s2" and "gm_get (nodes s2) (path_dir p) = Some (Dir 448)"
proof -
  note chain = state_file_dir [OF assms(3)]
  obtain m where d: "gm_get (nodes s1) (path_dir p) = Some (Dir m)"
    using assms(2) chain(3) is_dir_node by (auto simp: dirs_made_def)
  then show "gm_get (nodes s2) (path_dir p) = Some (Dir 448)" by (simp add: s2_def)
  have other: "gm_get (nodes s2) q = gm_get (nodes s1) q" if "q \<noteq> path_dir p" for q
    using that by (simp add: s2_def)
  then show "dirs_made p s2"
    using assms(2) d by (auto simp: dirs_made_def is_dir_def s2_def)
  have "gm_get (nodes s1) p = gm_get (nodes s) p" using assms(1) chain(1) by (simp add: dir_stage_def)
  then have "evolves p V s s2" if "gm_get (nodes s) p \<in> V" for V
    using assms(1) that chain(2) by (auto simp: dir_stage_def s2_def intro: evolves_effect)
  then show "dir_stage p s s2"
    using assms(1) other chain(3) by (auto simp: dir_stage_def s2_def)
qed

definition persist_outcome :: "bytes \<Rightarrow> node option \<Rightarrow> os \<Rightarrow> unit result \<Rightarrow> os \<Rightarrow> bool" where
  "persist_outcome p new s r s' \<longleftrightarrow>
     evolves p {gm_get (nodes s) p, new} s s' \<and> script s' = script s \<and> calls s' = Suc (calls s) \<and>
     gm_get (nodes s') p = (case r of Inr _ \<Rightarrow> new | Inl _ \<Rightarrow> gm_get (nodes s) p) \<and>
     (is_ok r \<or> remove_ok (script s (calls s)) \<longrightarrow>
        (\<forall>q. q \<notin> insert p (set (dir_chain (path_dir p))) \<longrightarrow> gm_get (nodes s') q = gm_get (nodes s) q)) \<and>
     (is_ok r \<longrightarrow> gm_get (nodes s') (path_dir p) = Some (Dir 448) \<and> dirs_made p s')"

lemma stage_failed: "dir_stage p s s1 \<Longrightarrow> state_file p \<Longrightarrow> persist_outcome p new s (Inl e) s1"
  using state_file_dir(1) [of p] by (auto simp: persist_outcome_def dir_stage_def)

lemma temp_stage:
  assumes stage: "dir_stage p s s2" and made: "dirs_made p s2" "gm_get (nodes s2) (path_dir p) = Some (Dir 448)"
    and target: "state_file p" and temp: "create_temp (path_dir p) rs s2 = (Some t, s3)"
    and fill: "fill_temp (script s (calls s)) p t content s3 = (r, s')"
  shows "persist_outcome p (Some (Regular 384 content True)) s r s'"
proof -
  let ?d = "path_dir p" and ?V = "{gm_get (nodes s) p, Some (Regular 384 content True)}"
  note chain = state_file_dir [OF target]
  have t: "gm_get (nodes s2) t = None" "t \<noteq> p" and s3: "s3 = effect (gm_set t (Regular 384 [] False)) s2"
    using create_temp_some [OF temp] chain(4) by auto
  have tc: "t \<notin> set (dir_chain ?d)" using made(1) t(1) by (auto simp: dirs_made_def is_dir_def)
  have keep: "gm_get (nodes s2) q = gm_get (nodes s) q" if "q \<notin> set (dir_chain ?d)" for q
    using stage that by (simp add: dir_stage_def)
  have at3: "gm_get (nodes s3) t = Some (Regular 384 [] False)" "evolves p ?V s s3" "script s3 = script s"
      "calls s3 = Suc (calls s)" "\<And>q. q \<noteq> t \<Longrightarrow> gm_get (nodes s3) q = gm_get (nodes s2) q"
    using s3 stage t(2) keep [OF chain(1)] by (auto simp: dir_stage_def intro: evolves_effect)
  have p3: "gm_get (nodes s3) p = gm_get (nodes s) p"
    using at3(5) [of p] t(2) keep [OF chain(1)] by simp
  then have "gm_get (nodes s3) p \<in> ?V" "Some (Regular 384 content True) \<in> ?V" by simp_all
  note ff = fill_temp_frame [OF fill at3(1) t(2) this]
  have ev: "evolves p ?V s s'" using at3(2) ff(1) by (rule evolves_trans)
  show ?thesis
  proof (cases r)
    case (Inl err)
    have "gm_get (nodes s') q = gm_get (nodes s) q" if "remove_ok (script s (calls s))" "q \<notin> set (dir_chain ?d)" for q
      using ff(5,6) [OF Inl] that keep [OF that(2)] at3(5) [of q] t(1) by (cases "q = t") simp_all
    then show ?thesis
      using Inl ev ff(2,3) ff(5) [OF Inl, of p] at3(3,4) p3 t(2) by (simp add: persist_outcome_def)
  next
    case (Inr u)
    then have "r = Inr ()" by simp
    note final = ff(4) [OF this]
    have other: "gm_get (nodes s') q = gm_get (nodes s2) q" if "q \<noteq> p" for q
      using final [of q] at3(5) [of q] that t(1) by (cases "q = t") simp_all
    have "gm_get (nodes s') q = gm_get (nodes s2) q" if "q \<in> set (dir_chain ?d)" for q
      using other that chain(1) by metis
    then have "dirs_made p s'" "gm_get (nodes s') ?d = Some (Dir 448)"
      using made chain(3) by (simp_all add: dirs_made_def)
    then show ?thesis
      using Inr ev ff(2,3) final [of p] at3(3,4) other keep by (simp add: persist_outcome_def)
  qed
qed

lemma persistLocked_outcome:
  assumes run: "persistLocked p l s = (r, s')" and target: "state_file p"
  shows "persist_outcome p (Some (Regular 384 (encode_leases l) True)) s r s'"
proof -
  let ?e = "script s (calls s)" and ?d = "path_dir p"
  obtain ok s1 where mk: "mkdir_all ?e ?d 448 (s\<lparr>calls := Suc (calls s)\<rparr>) = (ok, s1)"
    by (cases "mkdir_all ?e ?d 448 (s\<lparr>calls := Suc (calls s)\<rparr>)")
  note stage1 = mkdir_stage [OF mk target]
  show ?thesis
  proof (cases "ok \<and> chdir_ok ?e")
    case False
    then obtain err where "r = Inl err" "s' = s1"
      using run mk by (auto simp: persistLocked_def Let_def split: if_splits bool.splits)
    then show ?thesis using stage_failed [OF stage1(1) target] by simp
  next
    case True
    define s2 where "s2 = effect (on_node ?d (with_mode 448)) s1"
    have stage2: "dir_stage p s s2" "dirs_made p s2" "gm_get (nodes s2) ?d = Some (Dir 448)"
      unfolding s2_def using chmod_stage [OF stage1(1) stage1(2) target] True by simp_all
    obtain ot s3 where ct: "create_temp ?d (temp_tries ?e) s2 = (ot, s3)"
      by (cases "create_temp ?d (temp_tries ?e) s2")
    show ?thesis
    proof (cases ot)
      case None
      then obtain err where "r = Inl err" "s' = s2"
        using run mk True ct create_temp_none [of ?d "temp_tries ?e" s2 s3]
        by (auto simp: persistLocked_def Let_def s2_def)
      then show ?thesis using stage_failed [OF stage2(1) target] by simp
    next
      case (Some t)
      then have "fill_temp ?e p t (encode_leases l) s3 = (r, s')"
        using run mk True ct by (auto simp: persistLocked_def Let_def s2_def)
      then show ?thesis using temp_stage [OF stage2 target] ct Some by simp
    qed
  qed
qed

lemma persistLocked_effect:
  fixes p l s
  defines "new \<equiv> Some (Regular 384 (encode_leases l) True)"
  assumes "persistLocked p l s = (r, s')" and "state_file p"
  shows "evolves p {gm_get (nodes s) p, new} s s'"
    and "script s' = script s" and "calls s' = Suc (calls s)"
    and "gm_get (nodes s') p = (case r of Inr _ \<Rightarrow> new | Inl _ \<Rightarrow> gm_get (nodes s) p)"
    and "q \<notin> insert p (set (dir_chain (path_dir p))) \<Longrightarrow>
           is_ok r \<or> remove_ok (script s (calls s)) \<Longrightarrow> gm_get (nodes s') q = gm_get (nodes s) q"
    and "is_ok r \<Longrightarrow> gm_get (nodes s') (path_dir p) = Some (Dir 448)"
    and "is_ok r \<Longrightarrow> d \<in> set (dir_chain (path_dir p)) \<Longrightarrow> is_dir (gm_get (nodes s') d)"
  using persistLocked_outcome [OF assms(2,3)] unfolding persist_outcome_def dirs_made_def new_def by simp_all

text \<open>With no system call failing and nothing in the way, a persist succeeds.\<close>

definition no_faults :: "persist_faults \<Rightarrow> bool" where
  "no_faults e =
     (mkdir_fault e = None \<and> chdir_ok e \<and> chmod_ok e \<and> write_fault e = None \<and> sync_ok e \<and>
      close_ok e \<and> rename_ok e)"

lemma mkdirs_succeed:
  "\<forall>d \<in> set ds. gm_get (nodes s) d = None \<or> is_dir (gm_get (nodes s) d) \<Longrightarrow> fst (mkdirs ds perm s)"
proof (induction ds arbitrary: s)
  case (Cons d ds)
  show ?case
  proof (cases "gm_get (nodes s) d")
    case None
    have "fst (mkdirs ds perm (effect (gm_set d (Dir perm)) s))"
      by (rule Cons.IH) (use Cons.prems in \<open>auto simp: is_dir_def\<close>)
    then show ?thesis by (simp add: None)
  next
    case (Some n)
    then have "is_dir (Some n)" using Cons.prems by auto
    then obtain m where "n = Dir m" by (auto simp: is_dir_def split: node.splits)
    then show ?thesis using Cons Some by simp
  qed
qed simp

lemma create_temp_succeeds:
  "\<exists>r \<in> set rs. gm_get (nodes s) (temp_path d r) = None \<Longrightarrow> fst (create_temp d rs s) \<noteq> None"
  by (induction rs) auto

lemma temp_not_in_chain:
  assumes "list_all plain_elem es"
  shows "temp_path (abs_path es) r \<notin> set (dir_chain (abs_path es))"
proof
  assume "temp_path (abs_path es) r \<in> set (dir_chain (abs_path es))"
  then obtain xs where xs: "prefix xs es" "temp_path (abs_path es) r = abs_path xs"
    using assms by (auto simp: dir_chain_def)
  have "length (join_byte c xs) \<le> length (join_byte c (xs @ zs))" for c zs
    by (induction xs) (auto simp: join_byte_def split: list.splits)
  then have "length (abs_path xs) \<le> length (abs_path es)"
    using xs(1) by (auto simp: abs_path_def prefix_def)
  moreover have "length (abs_path es) < length (temp_path (abs_path es) r)"
    by (simp add: temp_path_def)
  ultimately show False using xs(2) by simp
qed

lemma temp_path_apart:
  assumes "state_file p"
  shows "temp_path (path_dir p) r \<notin> insert p (set (dir_chain (path_dir p)))"
proof -
  obtain es x where "list_all plain_elem (es @ [x])" "p = abs_path (es @ [x])"
    using assms by (auto simp: state_file_def)
  then have "list_all plain_elem es" "path_dir p = abs_path es"
    by (simp_all add: path_dir_abs_path)
  then show ?thesis
    using temp_not_in_chain state_file_dir(4) [OF assms] by simp
qed

lemma persistLocked_works:
  assumes target: "state_file p" and e: "no_faults (script s (calls s))"
    and dirs: "\<forall>d \<in> set (dir_chain (path_dir p)). gm_get (nodes s) d = None \<or> is_dir (gm_get (nodes s) d)"
    and temp: "\<exists>r \<in> set (temp_tries (script s (calls s))). gm_get (nodes s) (temp_path (path_dir p) r) = None"
    and free: "\<not> is_dir (gm_get (nodes s) p)"
  shows "fst (persistLocked p l s) = Inr ()"
proof -
  let ?e = "script s (calls s)" and ?d = "path_dir p" and ?s0 = "s\<lparr>calls := Suc (calls s)\<rparr>"
  note chain = state_file_dir [OF target]
  obtain ok s1 where mk: "mkdir_all ?e ?d 448 ?s0 = (ok, s1)"
    by (cases "mkdir_all ?e ?d 448 ?s0")
  have ok: "ok"
    using mkdirs_succeed [of "dir_chain ?d" ?s0 448] dirs mk e by (simp add: mkdir_all_def no_faults_def)
  define s2 where "s2 = effect (on_node ?d (with_mode 448)) s1"
  have nt: "temp_path ?d r \<notin> set (dir_chain ?d)" for r
    using temp_path_apart [OF target] by simp
  have keep: "gm_get (nodes s2) q = gm_get (nodes s) q" if "q \<notin> set (dir_chain ?d)" for q
    using mkdir_all_frame(1) [OF mk that] that chain(3) by (auto simp: s2_def)
  have "fst (create_temp ?d (temp_tries ?e) s2) \<noteq> None"
    using temp keep nt by (intro create_temp_succeeds) auto
  then obtain t s3 where ct: "create_temp ?d (temp_tries ?e) s2 = (Some t, s3)"
    by (metis option.exhaust prod.collapse)
  then have t: "t \<noteq> p" "s3 = effect (gm_set t (Regular 384 [] False)) s2"
    using create_temp_some [OF ct] chain(4) by auto
  have "\<not> is_dir (gm_get (nodes s3) p)"
    using t keep [OF chain(1)] free by simp
  then have "fst (fill_temp ?e p t (encode_leases l) s3) = Inr ()"
    using e t by (simp add: fill_temp_def no_faults_def Let_def)
  then show ?thesis
    using mk ok e ct by (simp add: persistLocked_def s2_def no_faults_def Let_def)
qed

text \<open>A file system on which every persist works, however often it is repeated.\<close>

definition persist_ready :: "bytes \<Rightarrow> os \<Rightarrow> bool" where
  "persist_ready p s \<longleftrightarrow>
     state_file p \<and> (\<forall>n. no_faults (script s n) \<and>
       (\<exists>r \<in> set (temp_tries (script s n)). gm_get (nodes s) (temp_path (path_dir p) r) = None)) \<and>
     (\<forall>d \<in> set (dir_chain (path_dir p)). gm_get (nodes s) d = None \<or> is_dir (gm_get (nodes s) d)) \<and>
     \<not> is_dir (gm_get (nodes s) p)"

lemma persist_ready_again:
  assumes "persist_ready p s"
  shows "\<exists>s'. persistLocked p l s = (Inr (), s') \<and> persist_ready p s'"
proof -
  have target: "state_file p" using assms by (simp add: persist_ready_def)
  obtain s' where run: "persistLocked p l s = (Inr (), s')"
    using persistLocked_works [OF target, of s l] assms
    by (metis persist_ready_def prod.collapse)
  note eff = persistLocked_effect [OF run target, simplified]
  have "gm_get (nodes s') (temp_path (path_dir p) r) = gm_get (nodes s) (temp_path (path_dir p) r)" for r
    using eff(5) temp_path_apart [OF target] by simp
  then have "persist_ready p s'"
    using assms eff(2,4,7) by (simp add: persist_ready_def is_dir_def)
  with run show ?thesis by blast
qed

end
