(* ===== verification/LeaseStore.thy ===== *)
theory LeaseStore
  imports StateStore
begin

text \<open>
  What the lease store promises (\<^verbatim>\<open>internal/broker/state.go\<close>): it is a map from keys to
  accessors whose operations either succeed and change one key, or fail and change nothing, and
  what a restart would load is what the store holds. The promise is the locale \<open>lease_map\<close>; the
  interpretation shows that the code keeps it.
\<close>

section \<open>Well-formed stores\<close>

definition lease_wf :: "bytes \<times> bytes \<Rightarrow> bool" where
  "lease_wf kv = (lease_entry_ok kv \<and> valid_utf8 (snd kv))"

definition store_inv :: "stateStore \<Rightarrow> bool" where
  "store_inv store =
     (state_file (s_path store) \<and> gm_inv (s_leases store) \<and> list_all lease_wf (s_leases store))"

lemma list_all_gm_set:
  "P (k, v) \<Longrightarrow> list_all P m \<Longrightarrow> list_all P (gm_set k v m)"
  by (auto simp: gm_set_def gm_del_def list_all_iff)

lemma list_all_gm_del: "list_all P m \<Longrightarrow> list_all P (gm_del k m)"
  by (auto simp: gm_del_def list_all_iff)

lemma hex_decode_ascii: "hex_decode s = Some d \<Longrightarrow> valid_utf8 s"
proof (induction s arbitrary: d rule: hex_decode.induct)
  case (3 a b s)
  have ascii: "byte_val c < 128" if "hex_val c = Some n" for c n
    using that by (auto simp: hex_val_def Let_def split: if_splits)
  from 3 show ?case
    by (auto simp: ascii split: option.splits)
qed auto

section \<open>Reading back the file\<close>

lemma leases_document_ok:
  assumes "gm_inv m" and "list_all lease_wf m"
  shows "jv_wf (leases_document m)" and "jv_depth (leases_document m) \<le> max_nesting"
proof -
  have "valid_utf8 k \<and> valid_utf8 (the (gm_get m k))" if key: "k \<in> set (gm_keys m)" for k
  proof -
    obtain v where v: "gm_get m k = Some v"
      using key gm_get_None_iff [of m k] by (cases "gm_get m k") auto
    then have "lease_wf (k, v)"
      using assms(2) gm_get_mem by (fastforce simp: list_all_iff)
    then show ?thesis
      using v hex_decode_ascii [of k] by (auto simp: lease_wf_def lease_entry_ok_def split: option.splits)
  qed
  then show "jv_wf (leases_document m)"
    by (simp add: leases_document_def list_all_iff canon_digits_def json_digit_def digit_val_def)
  have "fold max (map (\<lambda>(k, v). jv_depth v) (map (\<lambda>k. (k, JvStr (f k))) ks)) 0 = 0" for f and ks :: "bytes list"
    by (induction ks) simp_all
  then show "jv_depth (leases_document m) \<le> max_nesting"
    by (simp add: leases_document_def max_nesting_def)
qed

lemma decode_map_strings:
  "decode_map (map (\<lambda>k. (k, JvStr (f k))) ks) m = Some (fold (\<lambda>k. gm_set k (f k)) ks m)"
  by (induction ks arbitrary: m) simp_all

lemma gm_get_fold_set:
  "gm_get (fold (\<lambda>k. gm_set k (f k)) ks m) k = (if k \<in> set ks then Some (f k) else gm_get m k)"
  by (induction ks arbitrary: m) auto

lemma list_all_fold_set:
  "list_all P m \<Longrightarrow> \<forall>k \<in> set ks. P (k, f k) \<Longrightarrow> list_all P (fold (\<lambda>k. gm_set k (f k)) ks m)"
  by (induction ks arbitrary: m) (auto intro: list_all_gm_set)

lemma gm_inv_fold_set: "gm_inv m \<Longrightarrow> gm_inv (fold (\<lambda>k. gm_set k (f k)) ks m)"
  by (induction ks arbitrary: m) auto

lemma encode_leases_cong:
  assumes "gm_inv m" and "gm_inv m'" and "\<And>k. gm_get m k = gm_get m' k"
  shows "encode_leases m = encode_leases m'"
proof -
  have "k \<in> set (gm_keys m) \<longleftrightarrow> k \<in> set (gm_keys m')" for k
    using gm_get_None_iff [of m k] gm_get_None_iff [of m' k] assms(3) [of k] by simp
  then have "set (gm_keys m) = set (gm_keys m')"
    by (rule set_eqI)
  then have "sort (gm_keys m) = sort (gm_keys m')"
    using assms(1,2) by (intro sorted_distinct_set_unique) (simp_all add: gm_inv_def)
  then show ?thesis
    by (simp only: encode_leases_def leases_document_def assms(3))
qed

definition reload :: "bytes \<Rightarrow> os \<Rightarrow> stateStore result" where
  "reload p s = loadStateStore True True p s"

lemma load_persisted:
  assumes inv: "gm_inv m" "list_all lease_wf m" and len: "length (encode_leases m) \<le> 4194304"
    and stored: "gm_get (nodes s) p = Some (Regular 384 (encode_leases m) b)"
  shows "\<exists>st. reload p s = Inr st \<and> s_path st = p \<and> gm_inv (s_leases st) \<and>
     list_all lease_wf (s_leases st) \<and> (\<forall>k. gm_get (s_leases st) k = gm_get m k)"
proof -
  let ?f = "\<lambda>k. the (gm_get m k)" and ?ks = "sort (gm_keys m)"
  let ?m = "fold (\<lambda>k. gm_set k (?f k)) ?ks []"
  have doc: "json_document (encode_leases m) = Some (leases_document m)"
    using json_document_encode leases_document_ok [OF inv] by (simp add: encode_leases_def)
  have dec: "decodeStrict state_fields (encode_leases m) \<lparr>p_version = 0, p_leases = None\<rparr> =
      Some \<lparr>p_version = 1, p_leases = Some ?m\<rparr>"
    by (simp add: decodeStrict_def doc)
      (simp add: leases_document_def decode_struct_def state_fields_def set_int_def set_leases_def
        parse_int_def digit_val_def decode_map_strings)
  have get: "gm_get ?m k = gm_get m k" for k
    using gm_get_None_iff [of m k] by (auto simp: gm_get_fold_set)
  have inv': "gm_inv ?m" by (simp add: gm_inv_fold_set)
  have wf: "list_all lease_wf ?m"
  proof (rule list_all_fold_set)
    show "\<forall>k \<in> set ?ks. lease_wf (k, ?f k)"
    proof
      fix k assume "k \<in> set ?ks"
      then obtain v where "gm_get m k = Some v"
        using gm_get_None_iff [of m k] by (cases "gm_get m k") auto
      then show "lease_wf (k, ?f k)"
        using gm_get_mem [of m k v] inv(2) by (simp add: list_all_iff)
    qed
  qed simp
  then have "list_all lease_entry_ok ?m"
    by (rule list_all_mono_on) (simp add: lease_wf_def)
  moreover have "encode_leases m \<noteq> []"
    by (simp add: encode_leases_def leases_document_def)
  ultimately have "reload p s = Inr \<lparr>s_path = p, s_leases = ?m\<rparr>"
    using len dec stored by (simp add: reload_def loadStateStore_def)
  then show ?thesis
    using get inv' wf by simp
qed

section \<open>One operation\<close>

definition lease_key_ok :: "bytes \<Rightarrow> bool" where
  "lease_key_ok k = (case hex_decode k of None \<Rightarrow> False | Some d \<Rightarrow> length d = 32)"

text \<open>The store with the file system under it, and what a restart would make of the file.\<close>

type_synonym lease_state = "stateStore \<times> os"

definition held :: "lease_state \<Rightarrow> bytes \<Rightarrow> bytes option" where
  "held st = gm_get (s_leases (fst st))"

definition restarted :: "lease_state \<Rightarrow> (bytes \<Rightarrow> bytes option) option" where
  "restarted st =
     (case reload (s_path (fst st)) (snd st) of Inl _ \<Rightarrow> None | Inr st' \<Rightarrow> Some (gm_get (s_leases st')))"

definition state_fits :: "lease_state \<Rightarrow> bool" where
  "state_fits st = (length (encode_leases (s_leases (fst st))) \<le> 4194304)"

text \<open>A restart loads the leases held or, when the state is too large for the loader, may fail.\<close>

definition lease_state_inv :: "lease_state \<Rightarrow> bool" where
  "lease_state_inv st =
     (store_inv (fst st) \<and> (restarted st = None \<or> restarted st = Some (held st)) \<and>
      (state_fits st \<longrightarrow> restarted st = Some (held st)))"

definition put_lease :: "bytes \<Rightarrow> bytes \<Rightarrow> lease_state \<Rightarrow> unit result \<times> lease_state" where
  "put_lease k a st = store_set (fst st) k a (snd st)"

definition drop_lease :: "bytes \<Rightarrow> lease_state \<Rightarrow> unit result \<times> lease_state" where
  "drop_lease k st = store_remove (fst st) k (snd st)"

lemma reload_cong: "gm_get (nodes s) p = gm_get (nodes s') p \<Longrightarrow> reload p s = reload p s'"
  by (simp add: reload_def loadStateStore_def)

text \<open>A store that failed to persist \<open>m\<close> and went back to an equal map.\<close>

lemma rolled_back:
  assumes inv: "lease_state_inv (store, s)" and run: "persistLocked (s_path store) m s = (Inl err, s')"
    and same: "\<And>k. gm_get m' k = gm_get (s_leases store) k" and "gm_inv m'" and wf: "list_all lease_wf m'"
  shows "lease_state_inv (store\<lparr>s_leases := m'\<rparr>, s') \<and> held (store\<lparr>s_leases := m'\<rparr>, s') = held (store, s)"
proof -
  have target: "state_file (s_path store)"
    using inv by (simp add: lease_state_inv_def store_inv_def)
  have "reload (s_path store) s' = reload (s_path store) s"
    using persistLocked_effect(4) [OF run target] by (intro reload_cong) simp
  moreover have "encode_leases m' = encode_leases (s_leases store)"
    using inv assms(4) same by (intro encode_leases_cong) (simp_all add: lease_state_inv_def store_inv_def)
  moreover have "gm_get m' = gm_get (s_leases store)"
    using same by (rule ext)
  ultimately show ?thesis
    using assms(4) wf inv
    by (simp add: lease_state_inv_def store_inv_def held_def state_fits_def restarted_def)
qed

text \<open>A store that persisted its new map.\<close>

lemma committed:
  assumes "lease_state_inv (store, s)" and run: "persistLocked (s_path store) m s = (Inr u, s')"
    and "gm_inv m" and "list_all lease_wf m"
  shows "lease_state_inv (store\<lparr>s_leases := m\<rparr>, s')"
proof -
  have target: "state_file (s_path store)"
    using assms(1) by (simp add: lease_state_inv_def store_inv_def)
  have disk: "gm_get (nodes s') (s_path store) = Some (Regular 384 (encode_leases m) True)"
    using persistLocked_effect(4) [OF run target] by simp
  then have "restarted (store\<lparr>s_leases := m\<rparr>, s') = Some (gm_get m)"
    if "length (encode_leases m) \<le> 4194304"
    using load_persisted [OF assms(3,4) that] by (fastforce simp: restarted_def)
  moreover have "restarted (store\<lparr>s_leases := m\<rparr>, s') = None" if "\<not> length (encode_leases m) \<le> 4194304"
    using disk that by (simp add: restarted_def reload_def loadStateStore_def)
  ultimately show ?thesis
    using assms target by (auto simp: lease_state_inv_def store_inv_def state_fits_def held_def)
qed

lemma put_lease_effect:
  assumes inv: "lease_state_inv st" and key: "lease_key_ok k" and acc: "valid_utf8 a"
    and run: "put_lease k a st = (r, st')"
  shows "lease_state_inv st' \<and> held st' = (case r of Inr _ \<Rightarrow> (held st)(k \<mapsto> a) | Inl _ \<Rightarrow> held st)"
proof -
  obtain store s where st: "st = (store, s)" by (cases st)
  have sinv: "store_inv store" using inv by (simp add: st lease_state_inv_def)
  show ?thesis
  proof (cases "validOpaqueSecret a 4096")
    case False
    then show ?thesis using run inv by (auto simp: put_lease_def store_set_def st)
  next
    case True
    let ?m = "gm_set k a (s_leases store)"
    obtain r' s' where p: "persistLocked (s_path store) ?m s = (r', s')"
      by (cases "persistLocked (s_path store) ?m s")
    have wf: "list_all lease_wf ?m" "gm_inv ?m"
      using sinv True key acc
      by (auto simp: store_inv_def lease_wf_def lease_entry_ok_def lease_key_ok_def intro: list_all_gm_set)
    show ?thesis
    proof (cases r')
      case (Inr u)
      then have res: "r = Inr ()" "st' = (store\<lparr>s_leases := ?m\<rparr>, s')"
        using run True p by (auto simp: put_lease_def store_set_def st Let_def)
      have "lease_state_inv st'"
        using committed [of store s ?m u s'] inv p wf Inr res by (simp add: st)
      then show ?thesis using res by (auto simp: held_def st)
    next
      case (Inl err)
      define m' where "m' = (case gm_get (s_leases store) k of
          Some p \<Rightarrow> gm_set k p ?m | None \<Rightarrow> gm_del k ?m)"
      have res: "r = Inl err" "st' = (store\<lparr>s_leases := m'\<rparr>, s')"
        using run True p Inl
        by (auto simp: put_lease_def store_set_def st Let_def m'_def split: option.splits)
      have same: "gm_get m' q = gm_get (s_leases store) q" for q
        by (auto simp: m'_def split: option.splits)
      have old: "lease_wf (k, p)" if "gm_get (s_leases store) k = Some p" for p
        using gm_get_mem [OF that] sinv by (auto simp: store_inv_def list_all_iff)
      have inv': "gm_inv m'" and wf': "list_all lease_wf m'"
        using wf old by (auto simp: m'_def intro: list_all_gm_set list_all_gm_del split: option.splits)
      show ?thesis
        using rolled_back [of store s ?m err s' m'] inv p Inl same inv' wf' res by (simp add: st)
    qed
  qed
qed

lemma drop_lease_effect:
  assumes inv: "lease_state_inv st" and run: "drop_lease k st = (r, st')"
  shows "lease_state_inv st' \<and> held st' = (case r of Inr _ \<Rightarrow> (held st)(k := None) | Inl _ \<Rightarrow> held st)"
proof -
  obtain store s where st: "st = (store, s)" by (cases st)
  have sinv: "store_inv store" using inv by (simp add: st lease_state_inv_def)
  show ?thesis
  proof (cases "gm_get (s_leases store) k")
    case None
    then show ?thesis using run inv by (auto simp: drop_lease_def store_remove_def st held_def)
  next
    case (Some v)
    let ?m = "gm_del k (s_leases store)"
    obtain r' s' where p: "persistLocked (s_path store) ?m s = (r', s')"
      by (cases "persistLocked (s_path store) ?m s")
    have wf: "list_all lease_wf ?m" "gm_inv ?m"
      using sinv by (auto simp: store_inv_def intro: list_all_gm_del)
    show ?thesis
    proof (cases r')
      case (Inr u)
      then have res: "r = Inr ()" "st' = (store\<lparr>s_leases := ?m\<rparr>, s')"
        using run Some p by (auto simp: drop_lease_def store_remove_def st Let_def)
      have "lease_state_inv st'"
        using committed [of store s ?m u s'] inv p wf Inr res by (simp add: st)
      then show ?thesis using res by (auto simp: held_def st)
    next
      case (Inl err)
      let ?m' = "gm_set k v ?m"
      have res: "r = Inl err" "st' = (store\<lparr>s_leases := ?m'\<rparr>, s')"
        using run Some p Inl by (auto simp: drop_lease_def store_remove_def st Let_def)
      have same: "gm_get ?m' q = gm_get (s_leases store) q" for q
        using Some by simp
      have "lease_wf (k, v)"
        using gm_get_mem [OF Some] sinv by (auto simp: store_inv_def list_all_iff)
      then have inv': "gm_inv ?m'" and wf': "list_all lease_wf ?m'"
        using wf by (simp_all add: list_all_gm_set)
      show ?thesis
        using rolled_back [of store s ?m err s' ?m'] inv p Inl same inv' wf' res by (simp add: st)
    qed
  qed
qed

section \<open>The contract\<close>

datatype lease_cmd = Put bytes bytes | Drop bytes

fun apply_cmd :: "lease_cmd \<Rightarrow> (bytes \<Rightarrow> bytes option) \<Rightarrow> bytes \<Rightarrow> bytes option" where
  "apply_cmd (Put k a) m = m(k \<mapsto> a)"
| "apply_cmd (Drop k) m = m(k := None)"

text \<open>The abstract run: commands that succeeded take effect, the others do not.\<close>

fun apply_run :: "(lease_cmd \<times> unit result) list \<Rightarrow> (bytes \<Rightarrow> bytes option) \<Rightarrow> bytes \<Rightarrow> bytes option" where
  "apply_run [] m = m"
| "apply_run ((c, r) # crs) m = apply_run crs (if is_ok r then apply_cmd c m else m)"

text \<open>Commands in sequence, with their results.\<close>

fun run_cmds :: "('c \<Rightarrow> 's \<Rightarrow> 'r \<times> 's) \<Rightarrow> 'c list \<Rightarrow> 's \<Rightarrow> 'r list \<times> 's" where
  "run_cmds ex [] s = ([], s)"
| "run_cmds ex (c # cs) s = (let (r, s1) = ex c s; (rs, s2) = run_cmds ex cs s1 in (r # rs, s2))"

locale lease_map =
  fixes inv :: "'s \<Rightarrow> bool"
    and lookup :: "'s \<Rightarrow> bytes \<Rightarrow> bytes option"
    and fits :: "'s \<Rightarrow> bool"
    and restart :: "'s \<Rightarrow> (bytes \<Rightarrow> bytes option) option"
    and allowed :: "lease_cmd \<Rightarrow> bool"
    and exec :: "lease_cmd \<Rightarrow> 's \<Rightarrow> unit result \<times> 's"
  assumes exec_inv: "inv s \<Longrightarrow> allowed c \<Longrightarrow> inv (snd (exec c s))"
    and exec_ok: "inv s \<Longrightarrow> allowed c \<Longrightarrow> is_ok (fst (exec c s)) \<Longrightarrow>
      lookup (snd (exec c s)) = apply_cmd c (lookup s)"
    and exec_fail: "inv s \<Longrightarrow> allowed c \<Longrightarrow> \<not> is_ok (fst (exec c s)) \<Longrightarrow>
      lookup (snd (exec c s)) = lookup s"
    and restart_held: "inv s \<Longrightarrow> fits s \<Longrightarrow> restart s = Some (lookup s)"
begin

lemma run_refines:
  assumes "inv s" and "list_all allowed cs" and "run_cmds exec cs s = (rs, s')"
  shows "inv s' \<and> lookup s' = apply_run (zip cs rs) (lookup s)"
  using assms
proof (induction cs arbitrary: s rs)
  case (Cons c cs)
  obtain r s1 where e: "exec c s = (r, s1)" by (cases "exec c s")
  obtain rs1 where r: "run_cmds exec cs s1 = (rs1, s')" "rs = r # rs1"
    using Cons.prems(3) e by (auto split: prod.splits)
  have "inv s1" using exec_inv [of s c] Cons.prems e by simp
  with Cons.IH [OF _ _ r(1)] Cons.prems
  have "inv s' \<and> lookup s' = apply_run (zip cs rs1) (lookup s1)" by simp
  moreover have "lookup s1 = (if is_ok r then apply_cmd c (lookup s) else lookup s)"
    using exec_ok [of s c] exec_fail [of s c] Cons.prems e by simp
  ultimately show ?case using r by simp
qed simp

lemma run_restart:
  assumes "inv s" and "list_all allowed cs" and "run_cmds exec cs s = (rs, s')" and "fits s'"
  shows "restart s' = Some (apply_run (zip cs rs) (lookup s))"
  using run_refines [OF assms(1-3)] restart_held assms(4) by simp

end

fun exec_lease :: "lease_cmd \<Rightarrow> lease_state \<Rightarrow> unit result \<times> lease_state" where
  "exec_lease (Put k a) st = put_lease k a st"
| "exec_lease (Drop k) st = drop_lease k st"

fun lease_cmd_ok :: "lease_cmd \<Rightarrow> bool" where
  "lease_cmd_ok (Put k a) = (lease_key_ok k \<and> valid_utf8 a)"
| "lease_cmd_ok (Drop k) = True"

lemma exec_lease_effect:
  assumes "lease_state_inv st" and "lease_cmd_ok c" and "exec_lease c st = (r, st')"
  shows "lease_state_inv st' \<and> held st' = (if is_ok r then apply_cmd c (held st) else held st)"
proof (cases c)
  case (Put k a)
  then show ?thesis using put_lease_effect [of st k a r st'] assms by (cases r) auto
next
  case (Drop k)
  then show ?thesis using drop_lease_effect [of st k r st'] assms by (cases r) auto
qed

interpretation lease_db: lease_map lease_state_inv held state_fits restarted lease_cmd_ok exec_lease
proof unfold_locales
  fix st c
  assume "lease_state_inv st" and "lease_cmd_ok c"
  note e = exec_lease_effect [OF this, of "fst (exec_lease c st)" "snd (exec_lease c st)"]
  show "lease_state_inv (snd (exec_lease c st))" using e by simp
  show "is_ok (fst (exec_lease c st)) \<Longrightarrow> held (snd (exec_lease c st)) = apply_cmd c (held st)"
    using e by simp
  show "\<not> is_ok (fst (exec_lease c st)) \<Longrightarrow> held (snd (exec_lease c st)) = held st"
    using e by simp
qed (simp add: lease_state_inv_def)

end
