(* ===== verification/Nonce.thy ===== *)
theory Nonce
  imports Names
begin

text \<open>
  The replay cache (\<^verbatim>\<open>internal/broker/nonce.go\<close>) and its contract: a pair of host and nonce,
  once accepted, is refused until its entry expires, and the cache never outgrows its limit. The
  contract is the locale \<open>replay_guard\<close>; the replay lemma is proved from the contract and reaches
  the code by the interpretation at the end.
\<close>

section \<open>The cache\<close>

record nonce_cache =
  ttl :: nanos
  maximum :: int
  entries :: "(bytes, nanos) gomap"

definition newNonceCache :: "nanos \<Rightarrow> int \<Rightarrow> nonce_cache" where
  "newNonceCache t m = \<lparr>ttl = t, maximum = m, entries = []\<rparr>"

definition nonce_key :: "bytes \<Rightarrow> bytes \<Rightarrow> bytes" where
  "nonce_key hostUUID nonce = hex_encode (sha256 (hostUUID @ CHR 0x00 # nonce))"

text \<open>\<^verbatim>\<open>expires.After(now)\<close> keeps an entry; every other entry is deleted by the sweep.\<close>

definition purge :: "nanos \<Rightarrow> (bytes, nanos) gomap \<Rightarrow> (bytes, nanos) gomap" where
  "purge now es = filter (\<lambda>(entry, expires). now < expires) es"

definition use_nonce :: "nonce_cache \<Rightarrow> bytes \<Rightarrow> bytes \<Rightarrow> nanos \<Rightarrow> bool \<times> nonce_cache" where
  "use_nonce cache hostUUID nonce now =
     (let key = nonce_key hostUUID nonce;
          swept = purge now (entries cache)
      in if gm_get swept key \<noteq> None \<or> int (length swept) \<ge> maximum cache
         then (False, cache\<lparr>entries := swept\<rparr>)
         else (True, cache\<lparr>entries := gm_set key (now + ttl cache) swept\<rparr>))"

definition nonce_inv :: "nonce_cache \<Rightarrow> bool" where
  "nonce_inv cache = (gm_inv (entries cache) \<and> length (entries cache) \<le> nat (maximum cache))"

text \<open>What the cache remembers of a pair: the instant its entry expires.\<close>

definition remembered :: "nonce_cache \<Rightarrow> bytes \<Rightarrow> bytes \<Rightarrow> nanos option" where
  "remembered cache hostUUID nonce = gm_get (entries cache) (nonce_key hostUUID nonce)"

lemma gm_get_purge:
  "gm_inv es \<Longrightarrow> gm_get (purge now es) k =
     (case gm_get es k of None \<Rightarrow> None | Some e \<Rightarrow> if now < e then Some e else None)"
  by (simp add: purge_def gm_get_filter split: option.splits)

lemma gm_inv_purge [simp, intro]: "gm_inv es \<Longrightarrow> gm_inv (purge now es)"
  by (simp add: purge_def)

lemma length_purge_le: "length (purge now es) \<le> length es"
  by (simp add: purge_def)

lemma nonce_inv_new: "nonce_inv (newNonceCache t m)"
  by (simp add: nonce_inv_def newNonceCache_def)

lemma use_nonce_inv:
  assumes "nonce_inv cache"
  shows "nonce_inv (snd (use_nonce cache h n t))"
proof -
  let ?swept = "purge t (entries cache)"
  have "length ?swept \<le> nat (maximum cache)"
    using assms length_purge_le [of t "entries cache"] by (simp add: nonce_inv_def)
  moreover have "length (gm_set (nonce_key h n) e ?swept) \<le> nat (maximum cache)"
    if "gm_get ?swept (nonce_key h n) = None" "int (length ?swept) < maximum cache" for e
    using that by (simp add: length_gm_set_fresh)
  ultimately show ?thesis
    using assms by (auto simp: use_nonce_def nonce_inv_def Let_def)
qed

lemma use_nonce_frame:
  "ttl (snd (use_nonce cache h n t)) = ttl cache"
  "maximum (snd (use_nonce cache h n t)) = maximum cache"
  by (simp_all add: use_nonce_def Let_def)

section \<open>The contract of a replay guard\<close>

text \<open>Other uses of the cache in between, each with its host, nonce and instant.\<close>

fun use_all :: "('c \<Rightarrow> bytes \<Rightarrow> bytes \<Rightarrow> nanos \<Rightarrow> bool \<times> 'c) \<Rightarrow> 'c \<Rightarrow> (bytes \<times> bytes \<times> nanos) list \<Rightarrow> 'c" where
  "use_all f c [] = c"
| "use_all f c ((h, n, t) # us) = use_all f (snd (f c h n t)) us"

locale replay_guard =
  fixes inv :: "'c \<Rightarrow> bool"
    and lifetime :: "'c \<Rightarrow> nanos"
    and use :: "'c \<Rightarrow> bytes \<Rightarrow> bytes \<Rightarrow> nanos \<Rightarrow> bool \<times> 'c"
    and seen :: "'c \<Rightarrow> bytes \<Rightarrow> bytes \<Rightarrow> nanos option"
  assumes use_inv: "inv c \<Longrightarrow> inv (snd (use c h n t))"
    and use_lifetime: "lifetime (snd (use c h n t)) = lifetime c"
    and use_accepts: "inv c \<Longrightarrow> fst (use c h n t) \<Longrightarrow> seen (snd (use c h n t)) h n = Some (t + lifetime c)"
    and use_rejects: "inv c \<Longrightarrow> seen c h n = Some e \<Longrightarrow> t < e \<Longrightarrow> \<not> fst (use c h n t)"
    and use_keeps: "inv c \<Longrightarrow> seen c h n = Some e \<Longrightarrow> t < e \<Longrightarrow> seen (snd (use c h' n' t)) h n = Some e"
begin

lemma uses_inv: "inv c \<Longrightarrow> inv (use_all use c us)"
  by (induction us arbitrary: c) (auto simp: use_inv)

lemma uses_keep:
  "inv c \<Longrightarrow> seen c h n = Some e \<Longrightarrow> \<forall>(h', n', t) \<in> set us. t < e \<Longrightarrow> seen (use_all use c us) h n = Some e"
  by (induction us arbitrary: c) (auto simp: use_inv use_keeps)

lemma replay_refused:
  assumes "inv c" and "fst (use c h n t)"
    and "\<forall>(h', n', t') \<in> set us. t' < t + lifetime c" and "t'' < t + lifetime c"
  shows "\<not> fst (use (use_all use (snd (use c h n t)) us) h n t'')"
proof -
  have "seen (use_all use (snd (use c h n t)) us) h n = Some (t + lifetime c)"
    using assms by (intro uses_keep use_inv use_accepts)
  then show ?thesis
    using assms by (intro use_rejects uses_inv use_inv)
qed

end

interpretation nonces: replay_guard nonce_inv ttl use_nonce remembered
proof unfold_locales
  fix c h n t
  show "nonce_inv c \<Longrightarrow> nonce_inv (snd (use_nonce c h n t))" by (rule use_nonce_inv)
  show "ttl (snd (use_nonce c h n t)) = ttl c" by (rule use_nonce_frame)
  show "nonce_inv c \<Longrightarrow> fst (use_nonce c h n t) \<Longrightarrow>
      remembered (snd (use_nonce c h n t)) h n = Some (t + ttl c)"
    by (auto simp: use_nonce_def remembered_def Let_def split: if_splits)
next
  fix c h n e t
  assume "nonce_inv c" and "remembered c h n = Some e" and "t < e"
  then show "\<not> fst (use_nonce c h n t)"
    by (auto simp: use_nonce_def remembered_def nonce_inv_def gm_get_purge Let_def)
next
  fix c h n e t h' n'
  assume "nonce_inv c" and "remembered c h n = Some e" and "t < e"
  then show "remembered (snd (use_nonce c h' n' t)) h n = Some e"
    by (auto simp: use_nonce_def remembered_def nonce_inv_def gm_get_purge Let_def)
qed

text \<open>The other direction: a pair that is not remembered is accepted while there is room.\<close>

lemma use_nonce_fresh:
  assumes "nonce_inv c" and "remembered c h n = None" and "int (length (entries c)) < maximum c"
  shows "fst (use_nonce c h n t)"
  using assms length_purge_le [of t "entries c"]
  by (auto simp: use_nonce_def remembered_def nonce_inv_def gm_get_purge Let_def)

text \<open>At its expiry instant an entry no longer protects: the sweep drops it first.\<close>

lemma use_nonce_expired:
  assumes "nonce_inv c" and "remembered c h n = Some e" and "e \<le> t"
    and "length (purge t (entries c)) < nat (maximum c)"
  shows "fst (use_nonce c h n t)"
  using assms by (auto simp: use_nonce_def remembered_def nonce_inv_def gm_get_purge Let_def)

end
