(* ===== verification/Server.thy ===== *)
theory Server
  imports VaultClient Envelope LeaseStore Nonce
begin

text \<open>
  The HTTP service (\<^verbatim>\<open>internal/broker/server.go\<close>): its state, the four handlers, the request
  checks and the renewal of the issuer token. The two Go interfaces it is built on are the record
  \<open>vaultAPI\<close> and the type \<open>hostKeyProvider\<close>; every call the server makes of them and of the
  lease store is also appended to an event log, which only the theorems read.
\<close>

section \<open>The server and what it talks to\<close>

record 'w vaultAPI =
  op_issue :: "bytes list \<Rightarrow> 'w \<Rightarrow> (bytes \<times> bytes) result \<times> 'w"
  op_revoke :: "bytes \<Rightarrow> 'w \<Rightarrow> unit result \<times> 'w"
  op_renew :: "'w \<Rightarrow> unit result \<times> 'w"
  op_healthy :: "'w \<Rightarrow> bool \<times> 'w"

type_synonym 'w hostKeyProvider = "bytes \<Rightarrow> 'w \<Rightarrow> rsa_key result \<times> 'w"

text \<open>
  The fixed parts of a server. \<open>d_media\<close> is \<^verbatim>\<open>mime.ParseMediaType\<close> (the media type, or \<open>None\<close> for
  its error) and \<open>d_verify_pss\<close> is \<^verbatim>\<open>rsa.VerifyPSS\<close> over a SHA-256 digest with a salt as long as
  the hash.
\<close>

record 'w deps =
  d_config :: config
  d_platform :: "'w hostKeyProvider"
  d_vault :: "'w vaultAPI"
  d_crypto :: lease_crypto
  d_verify_pss :: "rsa_key \<Rightarrow> bytes \<Rightarrow> bytes \<Rightarrow> bool"
  d_media :: "bytes \<Rightarrow> bytes option"

datatype event =
  HostKey bytes "rsa_key result"
| Revoke bytes "unit result"
| Issue "bytes list" "(bytes \<times> bytes) result"
| SetLease bytes bytes "unit result"
| RemoveLease bytes "unit result"
| Renew "unit result"
| Healthy bool

text \<open>
  The clock and the random source are scripts read one entry at a time: each \<^verbatim>\<open>server.now()\<close> and
  each encryption takes the next one.
\<close>

record 'w server =
  st_leases :: lease_state
  st_nonces :: nonce_cache
  st_ready :: bool
  st_world :: 'w
  st_clock :: "nat \<Rightarrow> nanos"
  st_ticks :: nat
  st_entropy :: "nat \<Rightarrow> entropy"
  st_draws :: nat
  st_log :: "event list"

definition newServer ::
  "config \<Rightarrow> lease_state \<Rightarrow> 'w \<Rightarrow> (nat \<Rightarrow> nanos) \<Rightarrow> (nat \<Rightarrow> entropy) \<Rightarrow> 'w server" where
  "newServer config leases world clock rnd =
     \<lparr>st_leases = leases, st_nonces = newNonceCache (NonceTTL config) (MaxRememberedNonce config),
      st_ready = True, st_world = world, st_clock = clock, st_ticks = 0, st_entropy = rnd,
      st_draws = 0, st_log = []\<rparr>"

definition read_clock :: "'w server \<Rightarrow> nanos \<times> 'w server" where
  "read_clock s = (st_clock s (st_ticks s), s\<lparr>st_ticks := Suc (st_ticks s)\<rparr>)"

definition logged :: "event \<Rightarrow> 'w server \<Rightarrow> 'w server" where
  "logged e s = s\<lparr>st_log := st_log s @ [e]\<rparr>"

definition call_host :: "'w deps \<Rightarrow> bytes \<Rightarrow> 'w server \<Rightarrow> rsa_key result \<times> 'w server" where
  "call_host d h s =
     (let (r, w) = d_platform d h (st_world s) in (r, logged (HostKey h r) (s\<lparr>st_world := w\<rparr>)))"

definition call_revoke :: "'w deps \<Rightarrow> bytes \<Rightarrow> 'w server \<Rightarrow> unit result \<times> 'w server" where
  "call_revoke d a s =
     (let (r, w) = op_revoke (d_vault d) a (st_world s) in (r, logged (Revoke a r) (s\<lparr>st_world := w\<rparr>)))"

definition call_issue :: "'w deps \<Rightarrow> bytes list \<Rightarrow> 'w server \<Rightarrow> (bytes \<times> bytes) result \<times> 'w server" where
  "call_issue d ps s =
     (let (r, w) = op_issue (d_vault d) ps (st_world s) in (r, logged (Issue ps r) (s\<lparr>st_world := w\<rparr>)))"

definition call_set :: "bytes \<Rightarrow> bytes \<Rightarrow> 'w server \<Rightarrow> unit result \<times> 'w server" where
  "call_set k a s =
     (let (r, l) = put_lease k a (st_leases s) in (r, logged (SetLease k a r) (s\<lparr>st_leases := l\<rparr>)))"

definition call_remove :: "bytes \<Rightarrow> 'w server \<Rightarrow> unit result \<times> 'w server" where
  "call_remove k s =
     (let (r, l) = drop_lease k (st_leases s) in (r, logged (RemoveLease k r) (s\<lparr>st_leases := l\<rparr>)))"

section \<open>Requests and responses\<close>

text \<open>Header names are kept in their canonical form, as \<^verbatim>\<open>net/http\<close> stores them.\<close>

record inbound =
  h_method :: bytes
  h_path :: bytes
  h_rawQuery :: bytes
  h_headers :: "(bytes \<times> bytes) list"
  h_data :: bytes
  h_broken :: bool

record outbound =
  o_status :: nat
  o_headers :: "(bytes \<times> bytes) list"
  o_body :: bytes

definition header_values :: "bytes \<Rightarrow> inbound \<Rightarrow> bytes list" where
  "header_values name req = map snd (filter (\<lambda>(k, v). k = name) (h_headers req))"

definition header_get :: "bytes \<Rightarrow> inbound \<Rightarrow> bytes" where
  "header_get name req = (case header_values name req of [] \<Rightarrow> '''' | v # _ \<Rightarrow> v)"

text \<open>The canonical form of \<^verbatim>\<open>X-PastureStack-Host-Signature\<close>.\<close>

definition signatureHeader :: bytes where
  "signatureHeader = ''X-Pasturestack-Host-Signature''"

definition writeJSON :: "nat \<Rightarrow> jv \<Rightarrow> outbound" where
  "writeJSON status v =
     \<lparr>o_status = status,
      o_headers = [(''Content-Type'', ''application/json''), (''Cache-Control'', ''no-store'')],
      o_body = json_encode True v @ [CHR 0x0A]\<rparr>"

definition writeError :: "nat \<Rightarrow> outbound" where
  "writeError status = writeJSON status (JvObj [(''error'', JvStr ''request rejected'')])"

definition no_content :: outbound where
  "no_content = \<lparr>o_status = 204, o_headers = [], o_body = []\<rparr>"

section \<open>Checks on a request\<close>

text \<open>The status of the error response, or \<open>None\<close> when the request may proceed.\<close>

definition validRequestEnvelope :: "'w deps \<Rightarrow> inbound \<Rightarrow> nat option" where
  "validRequestEnvelope d req =
     (if h_method req \<noteq> ''POST'' then Some 405
      else if d_media d (header_get ''Content-Type'' req) \<noteq> Some ''application/json'' \<or>
              h_rawQuery req \<noteq> '''' \<or> length (header_values signatureHeader req) \<noteq> 1
      then Some 400 else None)"

definition readRequest :: "config \<Rightarrow> inbound \<Rightarrow> bytes option" where
  "readRequest config req =
     (if h_broken req \<or> int (length (h_data req)) > MaxRequestBytes config \<or> length (h_data req) = 0
      then None else Some (h_data req))"

definition verifyHostRequest ::
  "'w deps \<Rightarrow> inbound \<Rightarrow> bytes \<Rightarrow> bytes \<Rightarrow> bytes \<Rightarrow> 'w server \<Rightarrow> rsa_key option \<times> 'w server" where
  "verifyHostRequest d req body hostUUID nonce s =
     (case call_host d hostUUID s of
        (Inl _, s1) \<Rightarrow> (None, s1)
      | (Inr publicKey, s1) \<Rightarrow>
          (case std_decode_strict (header_get signatureHeader req) of
             None \<Rightarrow> (None, s1)
           | Some signature \<Rightarrow>
               if length signature \<noteq> key_size publicKey then (None, s1)
               else if \<not> d_verify_pss d publicKey (sha256 body) signature then (None, s1)
               else (let (now, s2) = read_clock s1;
                         (fresh_nonce, cache) = use_nonce (st_nonces s2) hostUUID nonce now;
                         s3 = s2\<lparr>st_nonces := cache\<rparr>
                     in if \<not> fresh_nonce then (None, s3) else (Some publicKey, s3))))"

section \<open>Issuing a lease\<close>

text \<open>The part of the handler under the operation lock.\<close>

definition issue_locked ::
  "'w deps \<Rightarrow> rsa_key \<Rightarrow> issueRequest \<Rightarrow> 'w server \<Rightarrow> outbound \<times> 'w server" where
  "issue_locked d publicKey input s0 =
     (let key = leaseStateKey (i_hostUUID input) (i_volumeName input);
          previous = store_accessor (fst (st_leases s0)) key;
          (revoked, s1) = (if previous \<noteq> '''' then call_revoke d previous s0 else (Inr (), s0))
      in if \<not> is_ok revoked then (writeError 502, s1)
         else case call_issue d (i_policies input) s1 of
           (Inl _, s2) \<Rightarrow> (writeError 502, s2)
         | (Inr (token, acc), s2) \<Rightarrow>
             (let s3 = s2\<lparr>st_draws := Suc (st_draws s2)\<rparr>
              in case encryptLeaseRecord (d_crypto d) (st_entropy s2 (st_draws s2)) (Some publicKey) input token of
                Inl _ \<Rightarrow> (writeError 500, snd (call_revoke d acc s3))
              | Inr rec \<Rightarrow>
                  (case call_set key acc s3 of
                     (Inl _, s4) \<Rightarrow> (writeError 500, snd (call_revoke d acc s4))
                   | (Inr _, s4) \<Rightarrow> (writeJSON 200 (issue_response [rec]), s4))))"

definition handleIssue :: "'w deps \<Rightarrow> inbound \<Rightarrow> 'w server \<Rightarrow> outbound \<times> 'w server" where
  "handleIssue d req s =
     (case validRequestEnvelope d req of
        Some status \<Rightarrow> (writeError status, s)
      | None \<Rightarrow>
          (case readRequest (d_config d) req of
             None \<Rightarrow> (writeError 400, s)
           | Some body \<Rightarrow>
               (case decode_issue body of
                  None \<Rightarrow> (writeError 400, s)
                | Some input \<Rightarrow>
                    (let (now, s1) = read_clock s
                     in if \<not> is_ok (validate_issue input (d_config d) now) then (writeError 400, s1)
                        else (case verifyHostRequest d req body (i_hostUUID input) (i_nonce input) s1 of
                                (None, s2) \<Rightarrow> (writeError 401, s2)
                              | (Some publicKey, s2) \<Rightarrow> issue_locked d publicKey input s2)))))"

section \<open>Revoking a lease\<close>

definition revoke_locked :: "'w deps \<Rightarrow> revokeRequest \<Rightarrow> 'w server \<Rightarrow> outbound \<times> 'w server" where
  "revoke_locked d input s0 =
     (let key = leaseStateKey (r_hostUUID input) (r_volumeName input);
          acc = store_accessor (fst (st_leases s0)) key
      in if acc = '''' then (no_content, s0)
         else case call_revoke d acc s0 of
           (Inl _, s1) \<Rightarrow> (writeError 502, s1)
         | (Inr _, s1) \<Rightarrow>
             (case call_remove key s1 of
                (Inl _, s2) \<Rightarrow> (writeError 500, s2)
              | (Inr _, s2) \<Rightarrow> (no_content, s2)))"

definition handleRevoke :: "'w deps \<Rightarrow> inbound \<Rightarrow> 'w server \<Rightarrow> outbound \<times> 'w server" where
  "handleRevoke d req s =
     (case validRequestEnvelope d req of
        Some status \<Rightarrow> (writeError status, s)
      | None \<Rightarrow>
          (case readRequest (d_config d) req of
             None \<Rightarrow> (writeError 400, s)
           | Some body \<Rightarrow>
               (case decode_revoke body of
                  None \<Rightarrow> (writeError 400, s)
                | Some input \<Rightarrow>
                    (let (now, s1) = read_clock s
                     in if \<not> is_ok (validate_revoke input (d_config d) now) then (writeError 400, s1)
                        else (case verifyHostRequest d req body (r_hostUUID input) (r_nonce input) s1 of
                                (None, s2) \<Rightarrow> (writeError 401, s2)
                              | (Some _, s2) \<Rightarrow> revoke_locked d input s2)))))"

section \<open>Health, readiness, renewal, routing\<close>

definition handleHealth :: "inbound \<Rightarrow> outbound" where
  "handleHealth req =
     (if h_method req \<noteq> ''GET'' then writeError 405
      else writeJSON 200 (JvObj [(''status'', JvStr ''healthy'')]))"

definition handleReady :: "'w deps \<Rightarrow> inbound \<Rightarrow> 'w server \<Rightarrow> outbound \<times> 'w server" where
  "handleReady d req s =
     (if h_method req \<noteq> ''GET'' then (writeError 405, s)
      else (let (ready, s1) =
                  (if st_ready s
                   then (let (b, w) = op_healthy (d_vault d) (st_world s)
                         in (b, logged (Healthy b) (s\<lparr>st_world := w\<rparr>)))
                   else (False, s))
            in (writeJSON (if ready then 200 else 503)
                  (JvObj [(''lease_count'', JvNum (show_nat (lease_count (fst (st_leases s1))))),
                          (''status'', JvStr (if ready then ''ready'' else ''not-ready''))]), s1)))"

text \<open>One tick of the renewal loop.\<close>

definition renewal_tick :: "'w deps \<Rightarrow> 'w server \<Rightarrow> 'w server" where
  "renewal_tick d s =
     (let (r, w) = op_renew (d_vault d) (st_world s)
      in (logged (Renew r) (s\<lparr>st_world := w\<rparr>))\<lparr>st_ready := is_ok r\<rparr>)"

definition ServeHTTP :: "'w deps \<Rightarrow> inbound \<Rightarrow> 'w server \<Rightarrow> outbound \<times> 'w server" where
  "ServeHTTP d req s =
     (if h_path req = ''/healthz'' then (handleHealth req, s)
      else if h_path req = ''/readyz'' then handleReady d req s
      else if h_path req = ''/v1/leases'' then handleIssue d req s
      else if h_path req = ''/v1/leases/revoke'' then handleRevoke d req s
      else (writeError 404, s))"

end
