(* ===== verification/ServerFlow.thy ===== *)
theory ServerFlow
  imports Server
begin

text \<open>
  How a request flows through the server (\<^verbatim>\<open>internal/broker/server.go\<close>): the handlers split
  into an admission phase and the part under the operation lock, what admission establishes, and
  the order of the calls made under the lock.
\<close>

section \<open>Calls\<close>

lemma call_simps [simp]:
  "call_host d h s = (r, s') \<longleftrightarrow> (\<exists>w. d_platform d h (st_world s) = (r, w) \<and>
     s' = s\<lparr>st_world := w, st_log := st_log s @ [HostKey h r]\<rparr>)"
  "call_revoke d a s = (r', s') \<longleftrightarrow> (\<exists>w. op_revoke (d_vault d) a (st_world s) = (r', w) \<and>
     s' = s\<lparr>st_world := w, st_log := st_log s @ [Revoke a r']\<rparr>)"
  "call_issue d ps s = (ri, s') \<longleftrightarrow> (\<exists>w. op_issue (d_vault d) ps (st_world s) = (ri, w) \<and>
     s' = s\<lparr>st_world := w, st_log := st_log s @ [Issue ps ri]\<rparr>)"
  "call_set k a s = (r', s') \<longleftrightarrow> (\<exists>l. put_lease k a (st_leases s) = (r', l) \<and>
     s' = s\<lparr>st_leases := l, st_log := st_log s @ [SetLease k a r']\<rparr>)"
  "call_remove k s = (r', s') \<longleftrightarrow> (\<exists>l. drop_lease k (st_leases s) = (r', l) \<and>
     s' = s\<lparr>st_leases := l, st_log := st_log s @ [RemoveLease k r']\<rparr>)"
  by (auto simp: call_host_def call_revoke_def call_issue_def call_set_def call_remove_def logged_def
      split: prod.splits)

section \<open>Admission\<close>

text \<open>The requester's key verifies the header's signature over the exact body.\<close>

definition signed_by :: "'w deps \<Rightarrow> inbound \<Rightarrow> bytes \<Rightarrow> rsa_key \<Rightarrow> bool" where
  "signed_by d req body key =
     (case std_decode_strict (header_get signatureHeader req) of
        None \<Rightarrow> False
      | Some sig \<Rightarrow> length sig = key_size key \<and> d_verify_pss d key (sha256 body) sig)"

lemma verifyHostRequest_some:
  "verifyHostRequest d req body h n s = (Some key, s') \<longleftrightarrow>
     (\<exists>w. d_platform d h (st_world s) = (Inr key, w) \<and> signed_by d req body key \<and>
        fst (use_nonce (st_nonces s) h n (st_clock s (st_ticks s))) \<and>
        s' = s\<lparr>st_world := w, st_log := st_log s @ [HostKey h (Inr key)],
               st_ticks := Suc (st_ticks s),
               st_nonces := snd (use_nonce (st_nonces s) h n (st_clock s (st_ticks s)))\<rparr>)"
proof -
  obtain r s1 where c: "call_host d h s = (r, s1)" by (cases "call_host d h s")
  then obtain w where w: "d_platform d h (st_world s) = (r, w)"
      and s1: "s1 = s\<lparr>st_world := w, st_log := st_log s @ [HostKey h r]\<rparr>"
    by auto
  obtain b cache where u: "use_nonce (st_nonces s) h n (st_clock s (st_ticks s)) = (b, cache)"
    by (cases "use_nonce (st_nonces s) h n (st_clock s (st_ticks s))")
  have u1: "use_nonce (st_nonces s1) h n (st_clock s1 (st_ticks s1)) = (b, cache)"
    using u s1 by simp
  show ?thesis
    by (cases r; cases "std_decode_strict (header_get signatureHeader req)"; cases b)
      (auto simp: verifyHostRequest_def c w u u1 signed_by_def read_clock_def Let_def s1
        simp del: call_simps)
qed

lemma verifyHostRequest_none:
  assumes "verifyHostRequest d req body h n s = (None, s')"
  shows "st_leases s' = st_leases s \<and>
     (st_nonces s' = st_nonces s \<or>
      st_nonces s' = snd (use_nonce (st_nonces s) h n (st_clock s (st_ticks s)))) \<and>
     (\<exists>r. st_log s' = st_log s @ [HostKey h r])"
  using assms
  by (auto simp: verifyHostRequest_def read_clock_def Let_def
      split: prod.splits sum.splits option.splits if_splits)

text \<open>The admission phases of the two handlers: an early response, or the decoded request and the key.\<close>

definition admit ::
  "(bytes \<Rightarrow> 'q option) \<Rightarrow> ('q \<Rightarrow> config \<Rightarrow> nanos \<Rightarrow> unit result) \<Rightarrow> ('q \<Rightarrow> bytes) \<Rightarrow> ('q \<Rightarrow> bytes) \<Rightarrow>
     'w deps \<Rightarrow> inbound \<Rightarrow> 'w server \<Rightarrow> (outbound + 'q \<times> rsa_key) \<times> 'w server" where
  "admit dec val host nonce d req s =
     (case validRequestEnvelope d req of
        Some status \<Rightarrow> (Inl (writeError status), s)
      | None \<Rightarrow>
          (case readRequest (d_config d) req of
             None \<Rightarrow> (Inl (writeError 400), s)
           | Some body \<Rightarrow>
               (case dec body of
                  None \<Rightarrow> (Inl (writeError 400), s)
                | Some input \<Rightarrow>
                    (let (now, s1) = read_clock s
                     in if \<not> is_ok (val input (d_config d) now) then (Inl (writeError 400), s1)
                        else (case verifyHostRequest d req body (host input) (nonce input) s1 of
                                (None, s2) \<Rightarrow> (Inl (writeError 401), s2)
                              | (Some key, s2) \<Rightarrow> (Inr (input, key), s2))))))"

lemma handleIssue_admit:
  "handleIssue d req s =
     (case admit decode_issue validate_issue i_hostUUID i_nonce d req s of
        (Inl resp, s1) \<Rightarrow> (resp, s1)
      | (Inr (q, key), s1) \<Rightarrow> issue_locked d key q s1)"
  by (auto simp: handleIssue_def admit_def Let_def split: option.splits prod.splits)

lemma handleRevoke_admit:
  "handleRevoke d req s =
     (case admit decode_revoke validate_revoke r_hostUUID r_nonce d req s of
        (Inl resp, s1) \<Rightarrow> (resp, s1)
      | (Inr (q, key), s1) \<Rightarrow> revoke_locked d q s1)"
  by (auto simp: handleRevoke_def admit_def Let_def split: option.splits prod.splits)

text \<open>What admission of a request establishes, and the state it leaves.\<close>

definition well_formed :: "'w deps \<Rightarrow> inbound \<Rightarrow> bool" where
  "well_formed d req =
     (h_method req = ''POST'' \<and> d_media d (header_get ''Content-Type'' req) = Some ''application/json'' \<and>
      h_rawQuery req = '''' \<and> length (header_values signatureHeader req) = 1 \<and>
      \<not> h_broken req \<and> h_data req \<noteq> '''' \<and> int (length (h_data req)) \<le> MaxRequestBytes (d_config d))"

lemma well_formed_iff:
  "well_formed d req \<longleftrightarrow>
     validRequestEnvelope d req = None \<and> readRequest (d_config d) req = Some (h_data req)"
  by (auto simp: well_formed_def validRequestEnvelope_def readRequest_def)

lemma readRequest_data: "readRequest c req = Some b \<Longrightarrow> b = h_data req"
  by (auto simp: readRequest_def split: if_splits)

lemma admit_ok:
  "admit dec val host nonce d req s = (Inr (q, key), s') \<longleftrightarrow>
     well_formed d req \<and> dec (h_data req) = Some q \<and>
     val q (d_config d) (st_clock s (st_ticks s)) = Inr () \<and>
     (\<exists>w. d_platform d (host q) (st_world s) = (Inr key, w) \<and> signed_by d req (h_data req) key \<and>
        fst (use_nonce (st_nonces s) (host q) (nonce q) (st_clock s (Suc (st_ticks s)))) \<and>
        s' = s\<lparr>st_world := w, st_log := st_log s @ [HostKey (host q) (Inr key)],
               st_ticks := Suc (Suc (st_ticks s)),
               st_nonces := snd (use_nonce (st_nonces s) (host q) (nonce q)
                                  (st_clock s (Suc (st_ticks s))))\<rparr>)"
proof (cases "well_formed d req")
  case False
  then consider st where "validRequestEnvelope d req = Some st"
    | "validRequestEnvelope d req = None" "readRequest (d_config d) req = None"
    using readRequest_data by (fastforce simp: well_formed_iff)
  then show ?thesis
    using False by cases (simp_all add: admit_def)
next
  case True
  then have e: "validRequestEnvelope d req = None" "readRequest (d_config d) req = Some (h_data req)"
    by (simp_all add: well_formed_iff)
  show ?thesis
  proof (cases "dec (h_data req)")
    case None
    then show ?thesis by (simp add: admit_def e)
  next
    case (Some q')
    define s1 where "s1 = s\<lparr>st_ticks := Suc (st_ticks s)\<rparr>"
    obtain ok s2 where v: "verifyHostRequest d req (h_data req) (host q') (nonce q') s1 = (ok, s2)"
      by (cases "verifyHostRequest d req (h_data req) (host q') (nonce q') s1")
    have val: "is_ok r \<longleftrightarrow> r = Inr ()" for r :: "unit result"
      by (cases r) auto
    have "admit dec val host nonce d req s = (Inr (q, key), s') \<longleftrightarrow>
        q = q' \<and> val q (d_config d) (st_clock s (st_ticks s)) = Inr () \<and>
        verifyHostRequest d req (h_data req) (host q) (nonce q) s1 = (Some key, s')"
      using v by (cases ok) (auto simp: admit_def e Some read_clock_def val s1_def)
    then show ?thesis
      using True Some by (auto simp: verifyHostRequest_some s1_def)
  qed
qed

lemma admit_rejected:
  assumes "admit dec val host nonce d req s = (Inl resp, s')"
  shows "o_status resp \<in> {400, 401, 405} \<and> st_leases s' = st_leases s \<and>
     (st_nonces s' = st_nonces s \<or> (\<exists>h n t. st_nonces s' = snd (use_nonce (st_nonces s) h n t))) \<and>
     (st_log s' = st_log s \<or> (\<exists>h r. st_log s' = st_log s @ [HostKey h r]))"
proof (cases "validRequestEnvelope d req = None \<and> readRequest (d_config d) req \<noteq> None")
  case False
  then show ?thesis
    using assms
    by (auto simp: admit_def validRequestEnvelope_def writeError_def writeJSON_def
        split: option.splits if_splits)
next
  case True
  then obtain body where e: "validRequestEnvelope d req = None" "readRequest (d_config d) req = Some body"
    by auto
  show ?thesis
  proof (cases "dec body")
    case None
    then show ?thesis using assms by (auto simp: admit_def e writeError_def writeJSON_def)
  next
    case (Some q)
    define s1 where "s1 = s\<lparr>st_ticks := Suc (st_ticks s)\<rparr>"
    show ?thesis
    proof (cases "is_ok (val q (d_config d) (st_clock s (st_ticks s)))")
      case False
      then show ?thesis
        using assms by (auto simp: admit_def e Some read_clock_def writeError_def writeJSON_def)
    next
      case ok: True
      then have v: "verifyHostRequest d req body (host q) (nonce q) s1 = (None, s')" and "o_status resp = 401"
        using assms
        by (auto simp: admit_def e Some read_clock_def s1_def writeError_def writeJSON_def
            split: option.splits prod.splits)
      then show ?thesis
        using verifyHostRequest_none [OF v] by (auto simp: s1_def)
    qed
  qed
qed

section \<open>Under the operation lock\<close>

lemma snd_call_revoke [simp]:
  "st_leases (snd (call_revoke d a s)) = st_leases s"
  "st_nonces (snd (call_revoke d a s)) = st_nonces s"
  "st_ticks (snd (call_revoke d a s)) = st_ticks s"
  "st_log (snd (call_revoke d a s)) = st_log s @ [Revoke a (fst (op_revoke (d_vault d) a (st_world s)))]"
  by (simp_all add: call_revoke_def logged_def split: prod.splits)

text \<open>
  A run of the locked part, one case per return of the code: the outcome, the events, and what
  happened to the lease map.
\<close>

text \<open>
  The locked part of an issue has three stages: the earlier lease is revoked, the token issued, and
  the token kept; each is analysed alone.
\<close>

definition keep_token ::
  "'w deps \<Rightarrow> rsa_key \<Rightarrow> issueRequest \<Rightarrow> bytes \<Rightarrow> bytes \<Rightarrow> bytes \<Rightarrow> 'w server \<Rightarrow> outbound \<times> 'w server" where
  "keep_token d pk q key token acc s2 =
     (let s3 = s2\<lparr>st_draws := Suc (st_draws s2)\<rparr>
      in case encryptLeaseRecord (d_crypto d) (st_entropy s2 (st_draws s2)) (Some pk) q token of
           Inl _ \<Rightarrow> (writeError 500, snd (call_revoke d acc s3))
         | Inr rec \<Rightarrow>
             (case call_set key acc s3 of
                (Inl _, s4) \<Rightarrow> (writeError 500, snd (call_revoke d acc s4))
              | (Inr _, s4) \<Rightarrow> (writeJSON 200 (issue_response [rec]), s4)))"

lemma keep_token_cases:
  assumes run: "keep_token d pk q key t a s2 = (resp, s')"
  obtains
    (unsealed) r where "resp = writeError 500" "st_leases s' = st_leases s2" "st_log s' = st_log s2 @ [Revoke a r]"
  | (unsaved) e r where "put_lease key a (st_leases s2) = (Inl e, st_leases s')" "resp = writeError 500"
      "st_log s' = st_log s2 @ [SetLease key a (Inl e), Revoke a r]"
  | (granted) rec where "put_lease key a (st_leases s2) = (Inr (), st_leases s')"
      "encryptLeaseRecord (d_crypto d) (st_entropy s2 (st_draws s2)) (Some pk) q t = Inr rec"
      "resp = writeJSON 200 (issue_response [rec])" "st_log s' = st_log s2 @ [SetLease key a (Inr ())]"
proof -
  let ?s3 = "s2\<lparr>st_draws := Suc (st_draws s2)\<rparr>"
  obtain rs l where p: "put_lease key a (st_leases s2) = (rs, l)"
    by (cases "put_lease key a (st_leases s2)")
  then have set: "call_set key a ?s3 = (rs, ?s3\<lparr>st_leases := l, st_log := st_log s2 @ [SetLease key a rs]\<rparr>)"
    by simp
  show thesis
  proof (cases "encryptLeaseRecord (d_crypto d) (st_entropy s2 (st_draws s2)) (Some pk) q t")
    case (Inl e)
    then show thesis using unsealed run by (auto simp: keep_token_def Let_def)
  next
    case (Inr rec)
    then show thesis
      using unsaved granted run p unfolding keep_token_def Let_def set
      by (cases rs) (auto simp del: call_simps)
  qed
qed

lemma issue_locked_stages:
  "issue_locked d pk q s =
     (let key = leaseStateKey (i_hostUUID q) (i_volumeName q);
          previous = store_accessor (fst (st_leases s)) key;
          (revoked, s1) = (if previous \<noteq> '''' then call_revoke d previous s else (Inr (), s))
      in if \<not> is_ok revoked then (writeError 502, s1)
         else case call_issue d (i_policies q) s1 of
           (Inl _, s2) \<Rightarrow> (writeError 502, s2)
         | (Inr (token, acc), s2) \<Rightarrow> keep_token d pk q key token acc s2)"
  unfolding issue_locked_def keep_token_def Let_def by (rule refl)

lemma issue_locked_cases:
  fixes q s
  defines "key \<equiv> leaseStateKey (i_hostUUID q) (i_volumeName q)"
  defines "prev \<equiv> store_accessor (fst (st_leases s)) key"
  assumes run: "issue_locked d pk q s = (resp, s')"
  obtains
    (stuck) e where "prev \<noteq> ''''" "resp = writeError 502" "st_leases s' = st_leases s"
      "st_log s' = st_log s @ [Revoke prev (Inl e)]"
  | (refused) e pre where "pre = (if prev = '''' then [] else [Revoke prev (Inr ())])"
      "resp = writeError 502" "st_leases s' = st_leases s"
      "st_log s' = st_log s @ pre @ [Issue (i_policies q) (Inl e)]"
  | (unsealed) pre t a r w w' where "pre = (if prev = '''' then [] else [Revoke prev (Inr ())])"
      "op_issue (d_vault d) (i_policies q) w = (Inr (t, a), w')"
      "resp = writeError 500" "st_leases s' = st_leases s"
      "st_log s' = st_log s @ pre @ [Issue (i_policies q) (Inr (t, a)), Revoke a r]"
  | (unsaved) pre t a e r w w' where "pre = (if prev = '''' then [] else [Revoke prev (Inr ())])"
      "op_issue (d_vault d) (i_policies q) w = (Inr (t, a), w')"
      "put_lease key a (st_leases s) = (Inl e, st_leases s')" "resp = writeError 500"
      "st_log s' = st_log s @ pre @ [Issue (i_policies q) (Inr (t, a)), SetLease key a (Inl e), Revoke a r]"
  | (granted) pre t a rec w w' where "pre = (if prev = '''' then [] else [Revoke prev (Inr ())])"
      "op_issue (d_vault d) (i_policies q) w = (Inr (t, a), w')"
      "put_lease key a (st_leases s) = (Inr (), st_leases s')"
      "encryptLeaseRecord (d_crypto d) (st_entropy s (st_draws s)) (Some pk) q t = Inr rec"
      "resp = writeJSON 200 (issue_response [rec])"
      "st_log s' = st_log s @ pre @ [Issue (i_policies q) (Inr (t, a)), SetLease key a (Inr ())]"
proof -
  define pre where "pre = (if prev = '''' then [] else [Revoke prev (Inr ())])"
  obtain rv s1 where rv: "(if prev \<noteq> '''' then call_revoke d prev s else (Inr (), s)) = (rv, s1)"
    by (cases "if prev \<noteq> '''' then call_revoke d prev s else (Inr (), s)")
  then have s1: "st_leases s1 = st_leases s" "st_entropy s1 = st_entropy s" "st_draws s1 = st_draws s"
      "st_log s1 = st_log s @ (if prev = '''' then [] else [Revoke prev rv])" "prev = '''' \<Longrightarrow> rv = Inr ()"
    by (auto split: if_splits)
  obtain ri s2 where ri: "call_issue d (i_policies q) s1 = (ri, s2)"
    by (cases "call_issue d (i_policies q) s1")
  then obtain w2 where w2: "op_issue (d_vault d) (i_policies q) (st_world s1) = (ri, w2)"
      and s2: "s2 = s1\<lparr>st_world := w2, st_log := st_log s1 @ [Issue (i_policies q) ri]\<rparr>"
    by auto
  note run = run [unfolded issue_locked_stages Let_def, folded key_def, folded prev_def, unfolded rv prod.case ri]
  show thesis
  proof (cases rv)
    case (Inl e)
    then show thesis using stuck [of e] run s1 by (cases "prev = ''''") simp_all
  next
    case (Inr u)
    then have log1: "st_log s1 = st_log s @ pre" using s1(4) by (simp add: pre_def)
    show thesis
    proof (cases ri)
      case (Inl e)
      then show thesis using refused [OF pre_def] run Inr s2 s1(1) log1 by auto
    next
      case inr: (Inr ta)
      then obtain t a where ta: "ri = Inr (t, a)" by (cases ta) simp
      then have "keep_token d pk q key t a s2 = (resp, s')" using run Inr by simp
      then show thesis
        by (cases rule: keep_token_cases)
          (use s2 s1 log1 ta w2 unsealed [OF pre_def] unsaved [OF pre_def] granted [OF pre_def] in auto)
    qed
  qed
qed

lemma revoke_locked_cases:
  fixes q s
  defines "key \<equiv> leaseStateKey (r_hostUUID q) (r_volumeName q)"
  defines "acc \<equiv> store_accessor (fst (st_leases s)) key"
  assumes run: "revoke_locked d q s = (resp, s')"
  obtains
    (absent) "acc = ''''" "resp = no_content" "s' = s"
  | (stuck) e where "acc \<noteq> ''''" "resp = writeError 502" "st_leases s' = st_leases s"
      "st_log s' = st_log s @ [Revoke acc (Inl e)]"
  | (unsaved) e where "acc \<noteq> ''''" "resp = writeError 500"
      "drop_lease key (st_leases s) = (Inl e, st_leases s')"
      "st_log s' = st_log s @ [Revoke acc (Inr ()), RemoveLease key (Inl e)]"
  | (dropped) "acc \<noteq> ''''" "resp = no_content"
      "drop_lease key (st_leases s) = (Inr (), st_leases s')"
      "st_log s' = st_log s @ [Revoke acc (Inr ()), RemoveLease key (Inr ())]"
proof (cases "acc = ''''")
  case True
  then show thesis
    using absent run by (simp add: revoke_locked_def key_def acc_def)
next
  case False
  obtain rv w where rv: "op_revoke (d_vault d) acc (st_world s) = (rv, w)"
    by (cases "op_revoke (d_vault d) acc (st_world s)")
  obtain rd l where rd: "drop_lease key (st_leases s) = (rd, l)"
    by (cases "drop_lease key (st_leases s)")
  define s1 where "s1 = s\<lparr>st_world := w, st_log := st_log s @ [Revoke acc rv]\<rparr>"
  have c1: "call_revoke d acc s = (rv, s1)"
    using rv by (simp add: s1_def)
  have c2: "call_remove key s1 = (rd, s1\<lparr>st_leases := l, st_log := st_log s1 @ [RemoveLease key rd]\<rparr>)"
    using rd by (simp add: s1_def)
  have "revoke_locked d q s =
      (if acc = '''' then (no_content, s)
       else case call_revoke d acc s of
         (Inl _, s1) \<Rightarrow> (writeError 502, s1)
       | (Inr _, s1) \<Rightarrow> (case call_remove key s1 of
           (Inl _, s2) \<Rightarrow> (writeError 500, s2) | (Inr _, s2) \<Rightarrow> (no_content, s2)))"
    unfolding revoke_locked_def key_def acc_def Let_def by (rule refl)
  note unf = this [unfolded run c1, simplified False prod.case if_False c2]
  show thesis
  proof (cases rv)
    case (Inl e)
    then show thesis using stuck [of e] unf False by (simp add: s1_def)
  next
    case (Inr u)
    then show thesis
      using unsaved dropped unf False c2 rd by (cases rd) (simp_all add: s1_def)
  qed
qed

end
