(* ===== verification/Replay.thy ===== *)
theory Replay
  imports ServerFlow
begin

text \<open>
  Replay protection of the whole server (\<^verbatim>\<open>internal/broker/server.go\<close> over
  \<^verbatim>\<open>internal/broker/nonce.go\<close>): what any run of the server does to the nonce cache is a sequence
  of uses at the clock's readings, so the contract of the cache carries over to the handlers.
\<close>

section \<open>Steps of the server\<close>

text \<open>A step serves one request or is one tick of the renewal loop.\<close>

inductive server_step :: "'w deps \<Rightarrow> 'w server \<Rightarrow> 'w server \<Rightarrow> bool" for d where
  serve: "ServeHTTP d req s = (resp, s') \<Longrightarrow> server_step d s s'"
| renew: "server_step d s (renewal_tick d s)"

inductive_cases server_stepE: "server_step d s s'"

section \<open>Uses of the cache between two states\<close>

definition elapsed :: "'w server \<Rightarrow> 'w server \<Rightarrow> bool" where
  "elapsed s s' =
     (st_clock s' = st_clock s \<and> st_ticks s \<le> st_ticks s' \<and>
      (\<exists>us. st_nonces s' = use_all use_nonce (st_nonces s) us \<and>
            (\<forall>(h, n, t) \<in> set us. \<exists>i. st_ticks s \<le> i \<and> i < st_ticks s' \<and> t = st_clock s i)))"

lemma use_all_append: "use_all f c (us @ vs) = use_all f (use_all f c us) vs"
  by (induction us arbitrary: c) auto

lemma elapsed_quiet [inv_intros]:
  "st_clock s' = st_clock s \<Longrightarrow> st_ticks s \<le> st_ticks s' \<Longrightarrow> st_nonces s' = st_nonces s \<Longrightarrow> elapsed s s'"
  by (auto simp: elapsed_def intro: exI [of _ "[]"])

lemma elapsed_use:
  "st_clock s' = st_clock s \<Longrightarrow> st_ticks s \<le> i \<Longrightarrow> i < st_ticks s' \<Longrightarrow>
     st_nonces s' = snd (use_nonce (st_nonces s) h n (st_clock s i)) \<Longrightarrow> elapsed s s'"
  by (auto simp: elapsed_def intro!: exI [of _ "[(h, n, st_clock s i)]"])

lemma elapsed_trans [inv_intros]:
  assumes "elapsed s s'" and "elapsed s' s''"
  shows "elapsed s s''"
proof -
  from assms obtain us vs where
      us: "st_nonces s' = use_all use_nonce (st_nonces s) us"
        "\<forall>(h, n, t) \<in> set us. \<exists>i. st_ticks s \<le> i \<and> i < st_ticks s' \<and> t = st_clock s i" and
      vs: "st_nonces s'' = use_all use_nonce (st_nonces s') vs"
        "\<forall>(h, n, t) \<in> set vs. \<exists>i. st_ticks s' \<le> i \<and> i < st_ticks s'' \<and> t = st_clock s' i"
    unfolding elapsed_def by blast
  have c: "st_clock s' = st_clock s" "st_clock s'' = st_clock s" "st_ticks s \<le> st_ticks s'"
      "st_ticks s' \<le> st_ticks s''"
    using assms by (simp_all add: elapsed_def)
  have "\<exists>i. st_ticks s \<le> i \<and> i < st_ticks s'' \<and> t = st_clock s i" if u: "(h, n, t) \<in> set (us @ vs)" for h n t
  proof (cases "(h, n, t) \<in> set us")
    case True
    then obtain i where "st_ticks s \<le> i" "i < st_ticks s'" "t = st_clock s i"
      using us(2) by blast
    then show ?thesis using c(4) less_le_trans by blast
  next
    case False
    then have "(h, n, t) \<in> set vs" using u by simp
    then obtain i where "st_ticks s' \<le> i" "i < st_ticks s''" "t = st_clock s' i"
      using vs(2) by blast
    then show ?thesis using c(1,3) order.trans by metis
  qed
  then have "\<forall>(h, n, t) \<in> set (us @ vs). \<exists>i. st_ticks s \<le> i \<and> i < st_ticks s'' \<and> t = st_clock s i"
    by blast
  moreover have "st_nonces s'' = use_all use_nonce (st_nonces s) (us @ vs)"
    using us(1) vs(1) by (simp add: use_all_append)
  ultimately show ?thesis
    using c unfolding elapsed_def by (intro conjI exI [of _ "us @ vs"]) simp_all
qed

lemma verify_elapsed:
  "elapsed s (snd (verifyHostRequest d req body h n s))"
proof -
  obtain r s1 where c: "call_host d h s = (r, s1)" by (cases "call_host d h s")
  then have s1: "st_clock s1 = st_clock s" "st_ticks s1 = st_ticks s" "st_nonces s1 = st_nonces s"
    by auto
  then have quiet: "elapsed s s1" by (intro elapsed_quiet) simp_all
  let ?s3 = "s1\<lparr>st_ticks := Suc (st_ticks s), st_nonces := snd (use_nonce (st_nonces s) h n (st_clock s (st_ticks s)))\<rparr>"
  have use: "elapsed s ?s3"
    by (rule elapsed_use [of _ _ "st_ticks s" h n]) (simp_all add: s1)
  have "snd (verifyHostRequest d req body h n s) \<in> {s1, ?s3}"
    by (auto simp: verifyHostRequest_def c read_clock_def s1 Let_def simp del: call_simps
        split: sum.splits option.splits prod.splits)
  then show ?thesis using quiet use by auto
qed

lemma admit_elapsed: "elapsed s (snd (admit dec val host nonce d req s))"
proof -
  let ?s1 = "s\<lparr>st_ticks := Suc (st_ticks s)\<rparr>"
  have q: "elapsed s s" "elapsed s ?s1"
    by (intro elapsed_quiet; simp)+
  have v: "elapsed s (snd (verifyHostRequest d req b h n ?s1))" for b h n
    using elapsed_trans [OF q(2) verify_elapsed] .
  have "snd (admit dec val host nonce d req s) \<in>
      {s, ?s1} \<union> {snd (verifyHostRequest d req b h n ?s1) | b h n. True}"
    by (auto simp: admit_def read_clock_def split: option.splits prod.splits) (metis snd_conv)+
  then show ?thesis using q v by auto
qed

lemma call_clock [simp]:
  "st_clock (snd (call_revoke d a s)) = st_clock s" "st_clock (snd (call_issue d ps s)) = st_clock s"
  "st_ticks (snd (call_issue d ps s)) = st_ticks s" "st_nonces (snd (call_issue d ps s)) = st_nonces s"
  by (simp_all add: call_revoke_def call_issue_def logged_def split: prod.splits)

definition same_clock :: "'w server \<Rightarrow> 'w server \<Rightarrow> bool" where
  "same_clock s s' = (st_clock s' = st_clock s \<and> st_ticks s' = st_ticks s \<and> st_nonces s' = st_nonces s)"

lemma same_clock_elapsed: "same_clock s s' \<Longrightarrow> elapsed s s'"
  by (rule elapsed_quiet) (simp_all add: same_clock_def)

lemma call_same_clock:
  "call_revoke d a s = (r, s') \<Longrightarrow> same_clock s s'" "call_issue d ps s = (ri, s') \<Longrightarrow> same_clock s s'"
  "call_set k a s = (r, s') \<Longrightarrow> same_clock s s'" "call_remove k s = (r, s') \<Longrightarrow> same_clock s s'"
  by (auto simp: same_clock_def)

lemma same_clock_refl [simp]: "same_clock s s"
  by (simp add: same_clock_def)

lemma same_clock_trans: "same_clock s s' \<Longrightarrow> same_clock s' s'' \<Longrightarrow> same_clock s s''"
  by (simp add: same_clock_def)

lemma same_clock_revoke: "same_clock s s' \<Longrightarrow> same_clock s (snd (call_revoke d a s'))"
  by (simp add: same_clock_def)

lemma same_clock_draws: "same_clock s s' \<Longrightarrow> same_clock s (s'\<lparr>st_draws := n\<rparr>)"
  by (simp add: same_clock_def)

lemma issue_locked_clock: "same_clock s (snd (issue_locked d k q s))"
proof -
  let ?prev = "store_accessor (fst (st_leases s)) (leaseStateKey (i_hostUUID q) (i_volumeName q))"
  obtain rv s1 where rv: "(if ?prev \<noteq> '''' then call_revoke d ?prev s else (Inr (), s)) = (rv, s1)"
    by (cases "if ?prev \<noteq> '''' then call_revoke d ?prev s else (Inr (), s)")
  then have c1: "same_clock s s1"
    by (auto simp del: call_simps dest: call_same_clock split: if_splits)
  obtain ri s2 where ri: "call_issue d (i_policies q) s1 = (ri, s2)"
    by (cases "call_issue d (i_policies q) s1")
  have c2: "same_clock s s2"
    using same_clock_trans [OF c1] call_same_clock(2) [OF ri] .
  define s3 where "s3 = s2\<lparr>st_draws := Suc (st_draws s2)\<rparr>"
  have c3: "same_clock s s3" "same_clock s (snd (call_revoke d a s3))" for a
    unfolding s3_def by (intro same_clock_revoke same_clock_draws c2)+
  have c4: "same_clock s s4" "same_clock s (snd (call_revoke d a s4))"
    if "call_set key a s3 = (rs, s4)" for key a rs s4
    using same_clock_trans [OF c3(1) call_same_clock(3) [OF that]] by (auto intro: same_clock_revoke)
  show ?thesis
    unfolding issue_locked_def Let_def rv prod.case ri s3_def [symmetric]
    using c1 c2 c3 c4
    by (auto simp del: call_simps split: sum.splits prod.splits)
qed

lemma revoke_locked_clock: "same_clock s (snd (revoke_locked d q s))"
  unfolding revoke_locked_def Let_def
  by (auto simp del: call_simps split: prod.splits sum.splits
      dest!: call_same_clock intro: same_clock_trans)

lemma handler_elapsed:
  "elapsed s (snd (handleIssue d req s))" "elapsed s (snd (handleRevoke d req s))"
proof -
  obtain r1 s1 where a1: "admit decode_issue validate_issue i_hostUUID i_nonce d req s = (r1, s1)"
    by (cases "admit decode_issue validate_issue i_hostUUID i_nonce d req s")
  obtain r2 s2 where a2: "admit decode_revoke validate_revoke r_hostUUID r_nonce d req s = (r2, s2)"
    by (cases "admit decode_revoke validate_revoke r_hostUUID r_nonce d req s")
  have e: "elapsed s s1" "elapsed s s2"
    using admit_elapsed a1 a2 by (metis snd_conv)+
  show "elapsed s (snd (handleIssue d req s))"
    using e(1) elapsed_trans [OF e(1) same_clock_elapsed [OF issue_locked_clock]]
    by (auto simp: handleIssue_admit a1 split: sum.splits)
  show "elapsed s (snd (handleRevoke d req s))"
    using e(2) elapsed_trans [OF e(2) same_clock_elapsed [OF revoke_locked_clock]]
    by (auto simp: handleRevoke_admit a2 split: sum.splits)
qed

lemma ready_clock: "same_clock s (snd (handleReady d req s))"
  by (auto simp: handleReady_def same_clock_def logged_def Let_def split: prod.splits)

lemma tick_clock: "same_clock s (renewal_tick d s)"
  by (auto simp: renewal_tick_def same_clock_def logged_def Let_def split: prod.splits)

lemma step_elapsed: "server_step d s s' \<Longrightarrow> elapsed s s'"
proof (induction rule: server_step.induct)
  case (serve req s resp s')
  have "elapsed s s" by (rule elapsed_quiet) simp_all
  then have "elapsed s (snd (ServeHTTP d req s))"
    using handler_elapsed [of s d req] same_clock_elapsed [OF ready_clock [of s d req]]
    by (simp add: ServeHTTP_def)
  then show ?case using serve by simp
next
  case (renew s)
  show ?case by (rule same_clock_elapsed [OF tick_clock])
qed

lemma steps_elapsed: "(server_step d)\<^sup>*\<^sup>* s s' \<Longrightarrow> elapsed s s'"
proof (induction rule: rtranclp_induct)
  case base
  show ?case by (rule elapsed_quiet) simp_all
next
  case (step s1 s2)
  then show ?case using elapsed_trans step_elapsed by blast
qed

section \<open>A nonce is spent until its entry expires\<close>

definition clock_mono :: "'w server \<Rightarrow> bool" where
  "clock_mono s = (\<forall>i j. i \<le> j \<longrightarrow> st_clock s i \<le> st_clock s j)"

text \<open>The instants at which an admitted request was checked: for freshness, then for its nonce.\<close>

definition checked_at :: "'w server \<Rightarrow> nanos" where
  "checked_at s = st_clock s (st_ticks s)"

definition spent_at :: "'w server \<Rightarrow> nanos" where
  "spent_at s = st_clock s (Suc (st_ticks s))"

text \<open>
  A host and nonce admitted once, by whichever handler, are admitted again only when the clock, at a
  reading after the first nonce check and up to the second, has reached the expiry of the entry. The
  clock is that of the wall, which may be set back: \<^verbatim>\<open>time.Now().UTC()\<close> drops the monotonic reading.
\<close>

lemma admitted_twice:
  assumes inv: "nonce_inv (st_nonces s)"
    and first: "admit dec val host nonce d req s = (Inr (q, key), s1)"
    and run: "elapsed s1 s2"
    and second: "admit dec' val' host' nonce' d req' s2 = (Inr (q', key'), s3)"
    and same: "host' q' = host q" "nonce' q' = nonce q"
  shows "\<exists>i. Suc (st_ticks s) < i \<and> i \<le> Suc (st_ticks s2) \<and> spent_at s + ttl (st_nonces s) \<le> st_clock s i"
proof (rule ccontr)
  assume "\<not> ?thesis"
  then have early: "Suc (st_ticks s) < i \<Longrightarrow> i \<le> Suc (st_ticks s2) \<Longrightarrow> st_clock s i < spent_at s + ttl (st_nonces s)" for i
    by auto
  have use1: "fst (use_nonce (st_nonces s) (host q) (nonce q) (spent_at s))"
    and n1: "st_nonces s1 = snd (use_nonce (st_nonces s) (host q) (nonce q) (spent_at s))"
    and c1: "st_clock s1 = st_clock s" "st_ticks s1 = Suc (Suc (st_ticks s))"
    using first by (auto simp: admit_ok spent_at_def)
  obtain us where us: "st_nonces s2 = use_all use_nonce (st_nonces s1) us"
      "\<forall>(h, n, t) \<in> set us. \<exists>i. st_ticks s1 \<le> i \<and> i < st_ticks s2 \<and> t = st_clock s1 i"
    and c2: "st_clock s2 = st_clock s1" "st_ticks s1 \<le> st_ticks s2"
    using run unfolding elapsed_def by blast
  have "\<forall>(h, n, t) \<in> set us. t < spent_at s + ttl (st_nonces s)"
  proof clarify
    fix h n t assume "(h, n, t) \<in> set us"
    then obtain i where "st_ticks s1 \<le> i" "i < st_ticks s2" "t = st_clock s1 i" using us(2) by blast
    then show "t < spent_at s + ttl (st_nonces s)" using early [of i] c1 by simp
  qed
  moreover have "spent_at s2 < spent_at s + ttl (st_nonces s)"
    using early [of "Suc (st_ticks s2)"] c1 c2 by (simp add: spent_at_def)
  ultimately have "\<not> fst (use_nonce (st_nonces s2) (host q) (nonce q) (spent_at s2))"
    using nonces.replay_refused [OF inv use1] us(1) n1 by simp
  moreover have "fst (use_nonce (st_nonces s2) (host q) (nonce q) (spent_at s2))"
    using second same by (auto simp: admit_ok spent_at_def)
  ultimately show False by simp
qed

end
