(* ===== verification/Bridge.thy ===== *)
theory Bridge
  imports Replay
begin

text \<open>
  The bridge assembled: the contracts the server expects of its two upstream interfaces
  (\<^verbatim>\<open>vaultAPI\<close> and \<^verbatim>\<open>hostKeyProvider\<close> in \<^verbatim>\<open>internal/broker\<close>), the effect of a handler on the
  lease map, the invariant of every reachable state, and the interpretation of the contracts by
  the real clients.
\<close>

section \<open>Contracts of the upstream interfaces\<close>

locale vault_contract =
  fixes vault :: "'w vaultAPI"
  assumes issue_wf: "op_issue vault ps w = (Inr (t, a), w') \<Longrightarrow>
      validOpaqueSecret t (64 * 1024) \<and> validOpaqueSecret a 4096 \<and> valid_utf8 a"

locale host_contract =
  fixes platform :: "'w hostKeyProvider"
  assumes key_wf: "platform h w = (Inr k, w') \<Longrightarrow>
      validName h 128 \<and> 2048 \<le> bit_len (k_modulus k) \<and> bit_len (k_modulus k) \<le> 8192"

section \<open>The invariant and the lease map\<close>

definition server_inv :: "'w server \<Rightarrow> bool" where
  "server_inv s = (lease_state_inv (st_leases s) \<and> nonce_inv (st_nonces s))"

abbreviation leases_of :: "'w server \<Rightarrow> bytes \<Rightarrow> bytes option" where
  "leases_of s \<equiv> held (st_leases s)"

lemma lease_key_ok_state [simp]: "lease_key_ok (leaseStateKey h v)"
  by (simp add: lease_key_ok_def leaseStateKey_decodes)

lemma store_accessor_held:
  assumes "lease_state_inv l"
  shows "store_accessor (fst l) k = '''' \<longleftrightarrow> held l k = None"
    and "store_accessor (fst l) k \<noteq> '''' \<Longrightarrow> held l k = Some (store_accessor (fst l) k)"
proof -
  have "a \<noteq> ''''" if "held l k = Some a" for a
  proof -
    have "(k, a) \<in> set (s_leases (fst l))"
      using that gm_get_mem by (simp add: held_def)
    then have "lease_wf (k, a)"
      using assms by (auto simp: lease_state_inv_def store_inv_def list_all_iff)
    then show ?thesis
      by (auto simp: lease_wf_def lease_entry_ok_def validOpaqueSecret_def split: option.splits)
  qed
  then show "store_accessor (fst l) k = '''' \<longleftrightarrow> held l k = None"
    and "store_accessor (fst l) k \<noteq> '''' \<Longrightarrow> held l k = Some (store_accessor (fst l) k)"
    by (auto simp: store_accessor_def held_def split: option.splits)
qed

lemma elapsed_nonce_inv: "elapsed s s' \<Longrightarrow> nonce_inv (st_nonces s) \<Longrightarrow> nonce_inv (st_nonces s')"
  using nonces.uses_inv by (auto simp: elapsed_def)

lemma drop_lease_held:
  assumes "lease_state_inv l" and "drop_lease k l = (r, l')"
  shows "lease_state_inv l'" and "held l' = (if is_ok r then (held l)(k := None) else held l)"
  using drop_lease_effect [OF assms] by (auto split: sum.splits)

lemma revoke_locked_effect:
  assumes inv: "lease_state_inv (st_leases s)" and run: "revoke_locked d q s = (resp, s')"
  shows "lease_state_inv (st_leases s')"
    and "leases_of s' =
         (if o_status resp = 204 then (leases_of s)(leaseStateKey (r_hostUUID q) (r_volumeName q) := None)
          else leases_of s)"
proof -
  let ?key = "leaseStateKey (r_hostUUID q) (r_volumeName q)"
  from run have "lease_state_inv (st_leases s') \<and> leases_of s' =
         (if o_status resp = 204 then (leases_of s)(?key := None) else leases_of s)"
  proof (cases rule: revoke_locked_cases)
    case absent
    then have "leases_of s ?key = None"
      using store_accessor_held(1) [OF inv] by blast
    then show ?thesis using absent inv by (auto simp: no_content_def)
  next
    case (unsaved e)
    then show ?thesis
      using drop_lease_held [OF inv unsaved(3)] by (simp add: writeError_def writeJSON_def)
  next
    case dropped
    then show ?thesis
      using drop_lease_held [OF inv dropped(3)] by (simp add: no_content_def)
  qed (use inv in \<open>simp_all add: writeError_def writeJSON_def\<close>)
  then show "lease_state_inv (st_leases s')"
    and "leases_of s' = (if o_status resp = 204 then (leases_of s)(?key := None) else leases_of s)"
    by blast+
qed

context vault_contract
begin

lemma issue_locked_effect:
  assumes d: "d_vault d = vault" and inv: "lease_state_inv (st_leases s)"
    and run: "issue_locked d k q s = (resp, s')"
  shows "lease_state_inv (st_leases s')"
    and "leases_of s' = leases_of s \<and> o_status resp \<noteq> 200 \<or>
         (\<exists>a. leases_of s' = (leases_of s)(leaseStateKey (i_hostUUID q) (i_volumeName q) \<mapsto> a)) \<and>
         o_status resp = 200"
proof -
  let ?key = "leaseStateKey (i_hostUUID q) (i_volumeName q)"
  have put: "lease_state_inv (st_leases s')"
      "leases_of s' = (if is_ok r then (leases_of s)(?key \<mapsto> a) else leases_of s)"
    if "op_issue (d_vault d) ps w = (Inr (t, a), w')" "put_lease ?key a (st_leases s) = (r, st_leases s')"
    for ps w t a w' r
  proof -
    have "valid_utf8 a" using issue_wf that(1) d by blast
    then show "lease_state_inv (st_leases s')"
      "leases_of s' = (if is_ok r then (leases_of s)(?key \<mapsto> a) else leases_of s)"
      using put_lease_effect [OF inv lease_key_ok_state _ that(2)] by (auto split: sum.splits)
  qed
  from run have "lease_state_inv (st_leases s') \<and>
      (leases_of s' = leases_of s \<and> o_status resp \<noteq> 200 \<or>
       (\<exists>a. leases_of s' = (leases_of s)(?key \<mapsto> a)) \<and> o_status resp = 200)"
  proof (cases rule: issue_locked_cases)
    case (unsaved pre t a e r w w')
    then show ?thesis using put [OF unsaved(2,3)] by (simp add: writeError_def writeJSON_def)
  next
    case (granted pre t a rec w w')
    then show ?thesis using put [OF granted(2,3)] by (auto simp: writeJSON_def)
  qed (use inv in \<open>simp_all add: writeError_def writeJSON_def\<close>)
  then show "lease_state_inv (st_leases s')"
    and "leases_of s' = leases_of s \<and> o_status resp \<noteq> 200 \<or>
         (\<exists>a. leases_of s' = (leases_of s)(?key \<mapsto> a)) \<and> o_status resp = 200"
    by blast+
qed

end

section \<open>Tokens are accounted for\<close>

text \<open>
  What a list of events says of the tokens Vault has issued. The accessors that Vault has not
  confirmed as revoked since are \<open>outstanding\<close>; the ones that were neither revoked nor recorded in
  the lease store since are \<open>undelivered\<close>, for a token leaves the bridge only after its accessor is
  recorded. \<open>given_up\<close> are the accessors whose revocation Vault did not confirm when asked.
\<close>

fun outstanding_step :: "bytes set \<Rightarrow> event \<Rightarrow> bytes set" where
  "outstanding_step out (Issue ps r) = (case r of Inr (t, a) \<Rightarrow> insert a out | Inl _ \<Rightarrow> out)"
| "outstanding_step out (Revoke a r) = (if is_ok r then out - {a} else out)"
| "outstanding_step out _ = out"

fun undelivered_step :: "bytes set \<Rightarrow> event \<Rightarrow> bytes set" where
  "undelivered_step out (Issue ps r) = (case r of Inr (t, a) \<Rightarrow> insert a out | Inl _ \<Rightarrow> out)"
| "undelivered_step out (Revoke a r) = (if is_ok r then out - {a} else out)"
| "undelivered_step out (SetLease k a r) = (if is_ok r then out - {a} else out)"
| "undelivered_step out _ = out"

definition outstanding :: "event list \<Rightarrow> bytes set" where
  "outstanding es = foldl outstanding_step {} es"

definition undelivered :: "event list \<Rightarrow> bytes set" where
  "undelivered es = foldl undelivered_step {} es"

definition given_up :: "event list \<Rightarrow> bytes set" where
  "given_up es = {a. \<exists>e. Revoke a (Inl e) \<in> set es}"

lemma outstanding_append: "outstanding (es @ fs) = foldl outstanding_step (outstanding es) fs"
  and undelivered_append: "undelivered (es @ fs) = foldl undelivered_step (undelivered es) fs"
  and given_up_append: "given_up (es @ fs) = given_up es \<union> given_up fs"
  by (auto simp: outstanding_def undelivered_def given_up_def)

lemma given_up_simps [simp]:
  "given_up [] = {}" "given_up (Revoke a r # es) = (if is_ok r then given_up es else insert a (given_up es))"
  "given_up (Issue ps r' # es) = given_up es" "given_up (SetLease k a r # es) = given_up es"
  "given_up (RemoveLease k r # es) = given_up es" "given_up (HostKey h r'' # es) = given_up es"
  "given_up (Renew r # es) = given_up es" "given_up (Healthy b # es) = given_up es"
  by (auto simp: given_up_def is_ok_def split: sum.splits)

text \<open>
  The custody of the tokens, for the accessors kept and the ones lost: an outstanding token's
  accessor is kept or the token is undelivered, and an undelivered one is given up or lost.
\<close>

definition custody :: "event list \<Rightarrow> bytes set \<Rightarrow> bytes set \<Rightarrow> bool" where
  "custody es lost kept = (outstanding es \<subseteq> kept \<union> undelivered es \<and> undelivered es \<subseteq> given_up es \<union> lost)"

lemma custody_extend:
  assumes "custody es lost kept"
    and "\<And>out und. out \<subseteq> kept \<union> und \<Longrightarrow> foldl outstanding_step out fs \<subseteq> kept' \<union> foldl undelivered_step und fs"
    and "\<And>und. foldl undelivered_step und fs \<subseteq> und \<union> given_up fs \<union> new"
  shows "custody (es @ fs) (lost \<union> new) kept'"
  using assms(1) assms(2) [of "outstanding es" "undelivered es"] assms(3) [of "undelivered es"]
  by (auto simp: custody_def outstanding_append undelivered_append given_up_append)

text \<open>The state of a server keeps them, after the events \<open>es0\<close> of earlier sessions.\<close>

definition accounted :: "event list \<Rightarrow> bytes set \<Rightarrow> 'w server \<Rightarrow> bool" where
  "accounted es0 lost s = custody (es0 @ st_log s) lost (ran (leases_of s))"

lemma accounted_step:
  assumes "accounted es0 lost s" and "st_log s' = st_log s @ es"
    and "\<And>out und. out \<subseteq> ran (leases_of s) \<union> und \<Longrightarrow>
      foldl outstanding_step out es \<subseteq> ran (leases_of s') \<union> foldl undelivered_step und es"
    and "\<And>und. foldl undelivered_step und es \<subseteq> und \<union> given_up es"
  shows "accounted es0 lost s'"
  using custody_extend [of "es0 @ st_log s" lost "ran (leases_of s)" es "ran (leases_of s')" "{}"] assms
  by (simp add: accounted_def)

text \<open>Events that say nothing of a token.\<close>

fun silent :: "event \<Rightarrow> bool" where
  "silent (HostKey h r) = True"
| "silent (Renew r) = True"
| "silent (Healthy b) = True"
| "silent e = False"

lemma silent_folds:
  assumes "list_all silent es"
  shows "foldl outstanding_step out es = out" and "foldl undelivered_step und es = und" and "given_up es = {}"
proof -
  have "foldl outstanding_step out es = out \<and> foldl undelivered_step und es = und \<and> given_up es = {}"
    using assms
  proof (induction es)
    case (Cons e es)
    then show ?case by (cases e) auto
  qed simp
  then show "foldl outstanding_step out es = out" and "foldl undelivered_step und es = und" and "given_up es = {}"
    by blast+
qed

lemma accounted_silent:
  assumes "accounted es0 lost s" and "st_log s' = st_log s @ es" and "list_all silent es"
    and "leases_of s' = leases_of s"
  shows "accounted es0 lost s'"
  by (rule accounted_step [OF assms(1,2)]) (simp_all add: silent_folds [OF assms(3)] assms(4))

text \<open>An accessor that is no longer held was its volume's.\<close>

lemma ran_upd_key: "ran m \<subseteq> ran (m(k := x)) \<union> set_option (m k)"
  by (auto simp: ran_def split: if_splits)

lemma previous_held:
  assumes "lease_state_inv l"
  shows "set_option (held l k) = (if store_accessor (fst l) k = '''' then {} else {store_accessor (fst l) k})"
  using store_accessor_held [OF assms, of k] by (cases "store_accessor (fst l) k = ''''") simp_all

context vault_contract
begin

lemma issue_locked_accounted:
  assumes d: "d_vault d = vault" and inv: "lease_state_inv (st_leases s)" and acc: "accounted es0 lost s"
    and run: "issue_locked d k q s = (resp, s')"
  shows "accounted es0 lost s'"
  using run
proof (cases rule: issue_locked_cases)
  case (stuck e)
  then show ?thesis by (intro accounted_step [OF acc stuck(4)]) auto
next
  case (refused e pre)
  then show ?thesis by (intro accounted_step [OF acc refused(4)]) (auto split: if_splits)
next
  case (unsealed pre t a r w w')
  then show ?thesis by (intro accounted_step [OF acc unsealed(5)]) (auto split: if_splits)
next
  case (unsaved pre t a e r w w')
  have "leases_of s' = leases_of s"
    using issue_locked_effect(2) [OF d inv run] unsaved(4) by (simp add: writeError_def writeJSON_def)
  then show ?thesis
    using unsaved by (intro accounted_step [OF acc unsaved(5)]) (auto split: if_splits)
next
  case (granted pre t a rec w w')
  let ?key = "leaseStateKey (i_hostUUID q) (i_volumeName q)"
  have "valid_utf8 a" using issue_wf granted(2) d by blast
  then have held': "leases_of s' = (leases_of s)(?key \<mapsto> a)"
    using put_lease_effect [OF inv lease_key_ok_state _ granted(3)] by simp
  then have "ran (leases_of s) \<subseteq> ran (leases_of s') \<union> set_option (leases_of s ?key)" "a \<in> ran (leases_of s')"
    using ran_upd_key [of "leases_of s" ?key "Some a"] by (auto simp: ran_def)
  then show ?thesis
    using granted(1) previous_held [OF inv, of ?key]
    by (intro accounted_step [OF acc granted(6)]) (auto split: if_splits)
qed

end

lemma revoke_locked_accounted:
  assumes inv: "lease_state_inv (st_leases s)" and acc: "accounted es0 lost s"
    and run: "revoke_locked d q s = (resp, s')"
  shows "accounted es0 lost s'"
  using run
proof (cases rule: revoke_locked_cases)
  case absent
  then show ?thesis using acc by simp
next
  case (stuck e)
  then show ?thesis by (intro accounted_step [OF acc stuck(4)]) auto
next
  case (unsaved e)
  then have "leases_of s' = leases_of s"
    using drop_lease_held(2) [OF inv unsaved(3)] by simp
  then show ?thesis by (intro accounted_step [OF acc unsaved(4)]) auto
next
  case dropped
  let ?key = "leaseStateKey (r_hostUUID q) (r_volumeName q)"
  have "leases_of s' = (leases_of s)(?key := None)"
    using drop_lease_held(2) [OF inv dropped(3)] by simp
  then have "ran (leases_of s) \<subseteq> ran (leases_of s') \<union> set_option (leases_of s ?key)"
    using ran_upd_key [of "leases_of s" ?key None] by simp
  then show ?thesis
    using dropped(1) previous_held [OF inv, of ?key]
    by (intro accounted_step [OF acc dropped(4)]) auto
qed

section \<open>Reachable states\<close>

text \<open>A bridge is a server whose two upstreams keep their contracts.\<close>

lemma admit_silent:
  assumes "admit dec val host nonce d req s = (r, s1)"
  shows "st_leases s1 = st_leases s \<and> (\<exists>es. st_log s1 = st_log s @ es \<and> list_all silent es)"
proof (cases r)
  case (Inl resp)
  then show ?thesis using admit_rejected [OF assms [unfolded Inl]] by auto
next
  case (Inr qk)
  then obtain q k where "r = Inr (q, k)" by (cases qk) simp
  then show ?thesis using assms by (auto simp: admit_ok)
qed

locale bridge = vault_contract "d_vault d" + host_contract "d_platform d" for d :: "'w deps"
begin

lemma handleIssue_effect:
  assumes inv: "server_inv s" and acc: "accounted es0 lost s" and run: "handleIssue d req s = (resp, s')"
  shows "server_inv s' \<and> accounted es0 lost s'"
proof -
  have n: "nonce_inv (st_nonces s')"
    using elapsed_nonce_inv [OF handler_elapsed(1)] inv run by (metis server_inv_def snd_conv)
  obtain r s1 where a: "admit decode_issue validate_issue i_hostUUID i_nonce d req s = (r, s1)"
    by (cases "admit decode_issue validate_issue i_hostUUID i_nonce d req s")
  have s1: "lease_state_inv (st_leases s1)" "accounted es0 lost s1"
    using admit_silent [OF a] inv accounted_silent [OF acc, of s1] by (auto simp: server_inv_def)
  have "s' = s1 \<or> (\<exists>k q. issue_locked d k q s1 = (resp, s'))"
    using run a by (cases r) (auto simp: handleIssue_admit)
  then show ?thesis
    using s1 issue_locked_effect(1) [OF refl s1(1)] issue_locked_accounted [OF refl s1] n
    by (auto simp: server_inv_def)
qed

lemma handleRevoke_effect:
  assumes inv: "server_inv s" and acc: "accounted es0 lost s" and run: "handleRevoke d req s = (resp, s')"
  shows "server_inv s' \<and> accounted es0 lost s'"
proof -
  have n: "nonce_inv (st_nonces s')"
    using elapsed_nonce_inv [OF handler_elapsed(2)] inv run by (metis server_inv_def snd_conv)
  obtain r s1 where a: "admit decode_revoke validate_revoke r_hostUUID r_nonce d req s = (r, s1)"
    by (cases "admit decode_revoke validate_revoke r_hostUUID r_nonce d req s")
  have s1: "lease_state_inv (st_leases s1)" "accounted es0 lost s1"
    using admit_silent [OF a] inv accounted_silent [OF acc, of s1] by (auto simp: server_inv_def)
  have "s' = s1 \<or> (\<exists>q. revoke_locked d q s1 = (resp, s'))"
    using run a by (cases r) (auto simp: handleRevoke_admit)
  then show ?thesis
    using s1 revoke_locked_effect(1) [OF s1(1)] revoke_locked_accounted [OF s1] n
    by (auto simp: server_inv_def)
qed

lemma ready_effect:
  assumes "server_inv s" and "accounted es0 lost s" and "handleReady d req s = (resp, s')"
  shows "server_inv s' \<and> accounted es0 lost s'"
proof -
  have "st_leases s' = st_leases s \<and> st_nonces s' = st_nonces s \<and>
      (\<exists>es. st_log s' = st_log s @ es \<and> list_all silent es)"
    using assms(3) by (auto simp: handleReady_def logged_def Let_def split: prod.splits if_splits)
  then show ?thesis
    using assms(1) accounted_silent [OF assms(2), of s'] by (auto simp: server_inv_def)
qed

lemma tick_effect:
  assumes "server_inv s" and "accounted es0 lost s"
  shows "server_inv (renewal_tick d s) \<and> accounted es0 lost (renewal_tick d s)"
proof -
  have "st_leases (renewal_tick d s) = st_leases s \<and> st_nonces (renewal_tick d s) = st_nonces s \<and>
      (\<exists>r. st_log (renewal_tick d s) = st_log s @ [Renew r])"
    by (auto simp: renewal_tick_def logged_def Let_def split: prod.splits)
  then show ?thesis
    using assms(1) accounted_silent [OF assms(2), of "renewal_tick d s" "[Renew _]"]
    by (auto simp: server_inv_def)
qed

lemma step_inv:
  "server_step d s s' \<Longrightarrow> server_inv s \<and> accounted es0 lost s \<Longrightarrow> server_inv s' \<and> accounted es0 lost s'"
proof (induction rule: server_step.induct)
  case (serve req s resp s')
  then show ?case
    using handleIssue_effect [of s es0 lost req resp s'] handleRevoke_effect [of s es0 lost req resp s']
      ready_effect [of s es0 lost req resp s']
    by (auto simp: ServeHTTP_def split: if_splits)
next
  case (renew s)
  then show ?case using tick_effect by blast
qed

lemma reachable_inv:
  "(server_step d)\<^sup>*\<^sup>* s s' \<Longrightarrow> server_inv s \<and> accounted es0 lost s \<Longrightarrow> server_inv s' \<and> accounted es0 lost s'"
  by (induction rule: rtranclp_induct) (auto dest: step_inv)

end

section \<open>The real clients\<close>

definition live_vault :: "'w transport \<Rightarrow> vaultClient \<Rightarrow> 'w vaultAPI" where
  "live_vault send client =
     \<lparr>op_issue = vault_issue send client, op_revoke = vault_revoke send client,
      op_renew = vault_renew send client, op_healthy = vault_healthy send client\<rparr>"

text \<open>What \<^verbatim>\<open>RunServe\<close> wires together: the two clients over one network, and the libraries.\<close>

definition live_deps ::
  "'w transport \<Rightarrow> key_parsers \<Rightarrow> lease_crypto \<Rightarrow> (rsa_key \<Rightarrow> bytes \<Rightarrow> bytes \<Rightarrow> bool) \<Rightarrow>
     (bytes \<Rightarrow> bytes option) \<Rightarrow> config \<Rightarrow> vaultClient \<Rightarrow> platformClient \<Rightarrow> 'w deps" where
  "live_deps send parsers crypto pss media config vault platform =
     \<lparr>d_config = config, d_platform = hostPublicKey send parsers platform,
      d_vault = live_vault send vault, d_crypto = crypto, d_verify_pss = pss, d_media = media\<rparr>"

lemma hostPublicKey_wf:
  "hostPublicKey send ps c h w = (Inr k, w') \<Longrightarrow>
     validName h 128 \<and> 2048 \<le> bit_len (k_modulus k) \<and> bit_len (k_modulus k) \<le> 8192"
  using parseHostPublicKey_size
  by (auto simp: hostPublicKey_def split: prod.splits option.splits list.splits if_splits)

interpretation live: bridge "live_deps send parsers crypto pss media config vault platform"
  for send parsers crypto pss media config vault platform
proof unfold_locales
  show "op_issue (d_vault (live_deps send parsers crypto pss media config vault platform)) ps w =
      (Inr (t, a), w') \<Longrightarrow>
      validOpaqueSecret t (64 * 1024) \<and> validOpaqueSecret a 4096 \<and> valid_utf8 a" for ps w t a w'
    using vault_issue_wf [of send vault ps w t a w'] by (simp add: live_deps_def live_vault_def)
  show "d_platform (live_deps send parsers crypto pss media config vault platform) h w = (Inr k, w') \<Longrightarrow>
      validName h 128 \<and> 2048 \<le> bit_len (k_modulus k) \<and> bit_len (k_modulus k) \<le> 8192" for h w k w'
    using hostPublicKey_wf [of send parsers platform h w k w'] by (simp add: live_deps_def)
qed

section \<open>A loaded store is well-formed\<close>

lemma decode_map_wf:
  "decode_map ms m = Some m' \<Longrightarrow> list_all (\<lambda>(k, v). jv_utf8 v) ms \<Longrightarrow> gm_inv m \<Longrightarrow>
     list_all (\<lambda>kv. valid_utf8 (snd kv)) m \<Longrightarrow>
     gm_inv m' \<and> list_all (\<lambda>kv. valid_utf8 (snd kv)) m'"
  by (induction ms m rule: decode_map.induct)
    (auto simp: list_all_gm_set split: jv.splits)

definition leases_utf8 :: "persistedState \<Rightarrow> bool" where
  "leases_utf8 st =
     (case p_leases st of
        None \<Rightarrow> True | Some m \<Rightarrow> gm_inv m \<and> list_all (\<lambda>kv. valid_utf8 (snd kv)) m)"

lemma set_leases_utf8:
  assumes "set_leases v s = Some s'" and "jv_utf8 v" and "leases_utf8 s"
  shows "leases_utf8 s'"
proof (cases v)
  case (JvObj ms)
  then have ms: "list_all (\<lambda>(k, v). jv_utf8 v) ms"
    using assms(2) by (auto simp: list_all_iff)
  obtain m where "decode_map ms (case p_leases s of None \<Rightarrow> [] | Some m \<Rightarrow> m) = Some m"
      and s': "s' = s\<lparr>p_leases := Some m\<rparr>"
    using assms(1) JvObj by (auto simp: set_leases_def)
  then have "gm_inv m \<and> list_all (\<lambda>kv. valid_utf8 (snd kv)) m"
    using assms(3) decode_map_wf [OF _ ms] by (auto simp: leases_utf8_def split: option.splits)
  then show ?thesis by (simp add: s' leases_utf8_def)
qed (use assms in \<open>auto simp: set_leases_def leases_utf8_def\<close>)

lemma load_inv:
  assumes "state_file p" and load: "loadStateStore l r p s = Inr st"
  shows "lease_state_inv (st, s)"
proof -
  have same: "reload p s = Inr st"
    using load by (auto simp: reload_def loadStateStore_def split: option.splits node.splits if_splits)
  have "store_inv st \<and> s_path st = p"
  proof (cases "gm_get (nodes s) p")
    case None
    then show ?thesis
      using assms by (auto simp: loadStateStore_def store_inv_def split: if_splits)
  next
    case (Some n)
    then obtain m c b ps lm where n: "n = Regular m c b"
        and dec: "decodeStrict state_fields c \<lparr>p_version = 0, p_leases = None\<rparr> = Some ps"
        and lm: "p_leases ps = Some lm" "list_all lease_entry_ok lm"
        and st: "st = \<lparr>s_path = p, s_leases = lm\<rparr>"
      using load by (auto simp: loadStateStore_def split: node.splits if_splits option.splits)
    obtain v where v: "json_document c = Some v"
        and d: "decode_struct True state_fields v \<lparr>p_version = 0, p_leases = None\<rparr> = Some ps"
      using dec by (auto simp: decodeStrict_def split: option.splits)
    have "leases_utf8 ps"
    proof (rule decode_struct_keep [where P = leases_utf8, OF d])
      fix nm de v s s'
      assume f: "(nm, de) \<in> set state_fields" "jv_utf8 v" "leases_utf8 s" "de v s = Some s'"
      then consider "de = set_int (\<lambda>n. p_version_update (\<lambda>_. n))" | "de = set_leases"
        by (auto simp: state_fields_def)
      then show "leases_utf8 s'"
      proof cases
        case 1
        then show ?thesis
          using f by (auto simp: set_int_def leases_utf8_def split: jv.splits option.splits)
      next
        case 2
        then show ?thesis using f set_leases_utf8 by simp
      qed
    qed (use json_document_utf8 [OF v] in \<open>simp_all add: leases_utf8_def\<close>)
    then have "gm_inv lm" "list_all lease_wf lm"
      using lm by (auto simp: leases_utf8_def lease_wf_def list_all_iff)
    then show ?thesis using assms(1) st by (simp add: store_inv_def)
  qed
  then show ?thesis
    using same by (auto simp: lease_state_inv_def restarted_def held_def)
qed

text \<open>A server begins with an empty log and cache, on the leases it loaded.\<close>

lemma newServer_inv:
  assumes "lease_state_inv l" and "custody es0 lost (ran (held l))"
  shows "server_inv (newServer c l w clock rnd) \<and> accounted es0 lost (newServer c l w clock rnd)"
  using assms nonce_inv_new by (simp add: server_inv_def newServer_def accounted_def)

lemma no_events [simp]: "custody [] lost kept"
  by (simp add: custody_def outstanding_def undelivered_def)

end
