(* ===== verification/Demo.thy ===== *)
theory Demo
  imports Bridge
begin

text \<open>
  A concrete bridge: one host, one policy, an upstream that answers, an empty store and a working
  file system. The witnesses of the properties run the handlers of \<^verbatim>\<open>internal/broker/server.go\<close>
  on it.
\<close>

section \<open>The parts\<close>

definition demo_config :: config where
  "demo_config =
     \<lparr>Listen = ''0.0.0.0:8080'', VaultURL = ''https://vault:8200'', VaultToken = ''issuer'',
      VaultTokenFile = '''', VaultRole = ''bridge'', AllowedPolicies = [(''app'', ())],
      TokenTTL = 300000000000, WrapTTL = 60000000000, RenewInterval = 300000000000,
      ControlPlaneURL = ''https://control'', AccessKey = ''ak'', SecretKey = ''sk'',
      StatePath = ''/var/lib/pasturestack/leases.json'', RequestTimeout = 10000000000,
      MaxRequestBytes = 65536, MaxResponseBytes = 2097152, NonceTTL = 300000000000,
      MaxRememberedNonce = 10000\<rparr>"

definition demo_key :: rsa_key where
  "demo_key = \<lparr>k_modulus = 2 ^ 2047, k_exponent = 65537\<rparr>"

definition demo_vault :: "unit vaultAPI" where
  "demo_vault =
     \<lparr>op_issue = \<lambda>ps w. (Inr (''token'', ''accessor''), w), op_revoke = \<lambda>a w. (Inr (), w),
      op_renew = \<lambda>w. (Inr (), w), op_healthy = \<lambda>w. (True, w)\<rparr>"

definition demo_crypto :: lease_crypto where
  "demo_crypto = \<lparr>gcm_seal = \<lambda>k n p. p, oaep_encrypt = \<lambda>k r m. Some m\<rparr>"

definition demo_deps :: "unit deps" where
  "demo_deps =
     \<lparr>d_config = demo_config, d_platform = \<lambda>h w. (if validName h 128 then Inr demo_key else Inl '''', w),
      d_vault = demo_vault, d_crypto = demo_crypto, d_verify_pss = \<lambda>k d s. True,
      d_media = \<lambda>m. Some m\<rparr>"

definition demo_faults :: persist_faults where
  "demo_faults =
     \<lparr>mkdir_fault = None, chdir_ok = True, temp_tries = [''1''], chmod_ok = True, write_fault = None,
      sync_ok = True, close_ok = True, rename_ok = True, remove_ok = True\<rparr>"

definition demo_os :: os where
  "demo_os = \<lparr>nodes = [], journal = [], calls = 0, script = \<lambda>_. demo_faults\<rparr>"

definition demo_store :: lease_state where
  "demo_store = (\<lparr>s_path = StatePath demo_config, s_leases = []\<rparr>, demo_os)"

definition demo_entropy :: entropy where
  "demo_entropy =
     \<lparr>y_key = Some (\<lambda>_. CHR 0x01), y_gcm = Some (\<lambda>_. CHR 0x02), y_signing = Some (\<lambda>_. CHR 0x03),
      y_oaep = \<lambda>_. CHR 0x00\<rparr>"

text \<open>The clock stands still at the request's time stamp.\<close>

definition demo_now :: nanos where
  "demo_now = the (parse_rfc3339 ''2026-01-01T00:00:00Z'')"

definition demo_server :: "unit server" where
  "demo_server = newServer demo_config demo_store () (\<lambda>_. demo_now) (\<lambda>_. demo_entropy)"

definition demo_issue :: issueRequest where
  "demo_issue =
     \<lparr>i_version = 1, i_hostUUID = ''host'', i_volumeName = ''vol'', i_policies = [''app''],
      i_file = ''token'', i_uid = ''0'', i_gid = ''0'', i_mode = ''0400'',
      i_timestamp = ''2026-01-01T00:00:00Z'', i_nonce = rawurl_encode (replicate 24 CHR 0x07)\<rparr>"

definition demo_inbound :: inbound where
  "demo_inbound =
     \<lparr>h_method = ''POST'', h_path = ''/v1/leases'', h_rawQuery = '''',
      h_headers = [(''Content-Type'', ''application/json''),
                   (signatureHeader, std_encode (replicate 256 CHR 0x00))],
      h_data = json_encode True (issue_document demo_issue), h_broken = False\<rparr>"

section \<open>The request is admitted\<close>

lemma bit_len_power [simp]: "bit_len (2 ^ n) = Suc n"
proof (induction n)
  case 0
  show ?case by (simp add: bit_len.simps [of "Suc 0"] bit_len.simps [of 0])
next
  case (Suc n)
  then show ?case by (simp add: bit_len.simps [of "2 * 2 ^ n"])
qed

lemma demo_key_size: "bit_len (k_modulus demo_key) = 2048" "key_size demo_key = 256"
proof -
  show "bit_len (k_modulus demo_key) = 2048"
    unfolding demo_key_def rsa_key.simps bit_len_power by simp
  then show "key_size demo_key = 256" by (simp add: key_size_def)
qed

lemma demo_names:
  "validName ''host'' 128" "validName ''vol'' 128" "validName ''app'' 64" "validName ''token'' 64"
  by (simp_all add: validName_iff name_byte_def name_rune_def)

lemma demo_time: "parse_rfc3339 ''2026-01-01T00:00:00Z'' = Some demo_now"
proof -
  have "parse_rfc3339 ''2026-01-01T00:00:00Z'' \<noteq> None"
    by code_simp
  then show ?thesis by (auto simp: demo_now_def)
qed

lemma demo_nonce: "rawurl_decode_strict (i_nonce demo_issue) = Some (replicate 24 CHR 0x07)"
  by (simp add: demo_issue_def)

lemma length_b64_raw: "length (b64_encode e [] s) \<le> 2 * length s"
  by (induction s rule: chunk3_induct) (simp_all add: Let_def)

lemma demo_issue_wf: "request_wf demo_issue"
  by (simp add: request_wf_def demo_issue_def ascii_utf8 ascii_rawurl)

lemma demo_decode: "decode_issue (h_data demo_inbound) = Some demo_issue"
  unfolding demo_inbound_def using decode_issue_document [OF demo_issue_wf] by simp

lemma demo_body: "h_data demo_inbound \<noteq> '''' \<and> int (length (h_data demo_inbound)) \<le> 65536"
proof -
  let ?f = "\<lambda>x. length (json_quote True x)"
  have "?f x \<le> 6 * length x + 2" if "ascii x" for x
    using length_json_quote [OF that] .
  then have "?f (i_nonce demo_issue) \<le> 290"
    using length_b64_raw [of "b64_char CHR ''-'' CHR ''_''" "replicate 24 CHR 0x07"]
      ascii_rawurl [of "replicate 24 CHR 0x07"]
    by (fastforce simp: demo_issue_def rawurl_encode_def)
  moreover have "length (json_encode True (issue_document (demo_issue\<lparr>i_nonce := []\<rparr>))) \<le> 1000"
    by code_simp
  ultimately have "length (h_data demo_inbound) \<le> 65536"
    by (simp add: demo_inbound_def issue_document_def demo_issue_def)
  moreover have "h_data demo_inbound \<noteq> []"
    by (simp add: demo_inbound_def issue_document_def)
  ultimately show ?thesis by simp
qed

lemma demo_path: "validRelativePath ''token''"
  unfolding validRelativePath_iff using demo_names(4)
  by (intro exI [of _ "[''token'']"]) (simp add: join_byte_def)

lemma demo_valid: "validate_issue demo_issue demo_config demo_now = Inr ()"
proof -
  have "validOwnership ''0''"
    by (simp add: validOwnership_def parse_int_def digit_val_def)
  moreover have "fresh (i_timestamp demo_issue) (i_nonce demo_issue) (NonceTTL demo_config) demo_now"
    using demo_time demo_nonce by (simp add: fresh_def demo_issue_def demo_config_def)
  ultimately show ?thesis
    by (subst validate_issue_iff)
      (simp_all add: demo_issue_def demo_config_def demo_names demo_path validReadOnlyMode_def
        policies_allowed_def gm_keys_def max_duration_def)
qed

lemma demo_well_formed: "well_formed demo_deps demo_inbound"
  using demo_body
  by (simp add: well_formed_def demo_deps_def demo_config_def header_get_def header_values_def)
    (simp add: demo_inbound_def signatureHeader_def)

lemma demo_signed: "signed_by demo_deps demo_inbound (h_data demo_inbound) demo_key"
proof -
  have "header_get signatureHeader demo_inbound = std_encode (replicate 256 CHR 0x00)"
    by (simp add: header_get_def header_values_def demo_inbound_def signatureHeader_def)
  then show ?thesis
    by (simp add: signed_by_def demo_key_size demo_deps_def)
qed

section \<open>The request is granted\<close>

lemma use_nonce_new: "0 < m \<Longrightarrow> fst (use_nonce (newNonceCache t m) h n now)"
  by (simp add: use_nonce_def newNonceCache_def purge_def Let_def)

definition demo_admitted :: "unit server" where
  "demo_admitted =
     snd (admit decode_issue validate_issue i_hostUUID i_nonce demo_deps demo_inbound demo_server)"

lemma demo_server_parts:
  "st_clock demo_server = (\<lambda>_. demo_now)" "st_leases demo_server = demo_store" "st_log demo_server = []"
  "st_nonces demo_server = newNonceCache 300000000000 10000" "st_ticks demo_server = 0"
  "st_entropy demo_server = (\<lambda>_. demo_entropy)" "st_draws demo_server = 0"
  by (simp_all add: demo_server_def newServer_def demo_config_def)

lemma demo_admit:
  "admit decode_issue validate_issue i_hostUUID i_nonce demo_deps demo_inbound demo_server =
     (Inr (demo_issue, demo_key), demo_admitted)"
proof -
  have "\<exists>s'. admit decode_issue validate_issue i_hostUUID i_nonce demo_deps demo_inbound demo_server =
      (Inr (demo_issue, demo_key), s')"
    unfolding admit_ok
    using demo_well_formed demo_decode demo_valid demo_signed demo_names(1) use_nonce_new [of 10000]
    by (simp add: demo_server_parts demo_deps_def demo_issue_def)
  then show ?thesis
    by (metis demo_admitted_def snd_conv)
qed

lemma demo_admitted_parts:
  "st_leases demo_admitted = demo_store" "st_entropy demo_admitted = (\<lambda>_. demo_entropy)"
  "st_clock demo_admitted = (\<lambda>_. demo_now)" "st_ticks demo_admitted = 2" "st_draws demo_admitted = 0"
proof -
  obtain w l n where eq: "demo_admitted =
      demo_server\<lparr>st_world := w, st_log := l, st_ticks := Suc (Suc (st_ticks demo_server)), st_nonces := n\<rparr>"
    using demo_admit unfolding admit_ok by blast
  then show "st_leases demo_admitted = demo_store" "st_entropy demo_admitted = (\<lambda>_. demo_entropy)"
      "st_clock demo_admitted = (\<lambda>_. demo_now)" "st_ticks demo_admitted = 2" "st_draws demo_admitted = 0"
    unfolding eq by (simp_all add: demo_server_parts)
qed

lemma demo_state_path:
  "StatePath demo_config = abs_path ([''var'', ''lib'', ''pasturestack''] @ [''leases.json''])"
  by (simp add: demo_config_def abs_path_def join_byte_def)

lemma demo_state_file: "state_file (StatePath demo_config)"
proof -
  have "list_all plain_elem ([''var'', ''lib'', ''pasturestack''] @ [''leases.json''])"
    by (simp add: plain_elem_def)
  moreover have "\<not> has_suffix (StatePath demo_config) ''.tmp''"
    by (auto simp: demo_config_def has_suffix_iff)
  ultimately show ?thesis
    unfolding state_file_def demo_state_path by blast
qed

lemma demo_persist: "fst (persistLocked (StatePath demo_config) l demo_os) = Inr ()"
  by (rule persistLocked_works [OF demo_state_file])
    (simp_all add: demo_os_def demo_faults_def no_faults_def is_dir_def)

lemma demo_put: "fst (put_lease k ''accessor'' demo_store) = Inr ()"
proof -
  have "validOpaqueSecret ''accessor'' 4096"
    by (simp add: validOpaqueSecret_iff secret_byte_def)
  moreover obtain s' where "persistLocked (StatePath demo_config) (gm_set k ''accessor'' []) demo_os = (Inr (), s')"
    using demo_persist by (metis prod.collapse)
  ultimately show ?thesis
    by (simp add: put_lease_def demo_store_def store_set_def)
qed

lemma demo_encrypt: "\<exists>r. encryptLeaseRecord demo_crypto demo_entropy (Some demo_key) demo_issue ''token'' = Inr r"
  using demo_key_size
  by (simp add: encryptLeaseRecord_def demo_crypto_def demo_entropy_def rand_read_def Let_def)

lemma demo_granted: "o_status (fst (handleIssue demo_deps demo_inbound demo_server)) = 200"
proof -
  obtain r where r: "encryptLeaseRecord demo_crypto demo_entropy (Some demo_key) demo_issue ''token'' = Inr r"
    using demo_encrypt by blast
  let ?key = "leaseStateKey (i_hostUUID demo_issue) (i_volumeName demo_issue)"
  have prev: "store_accessor (fst (st_leases demo_admitted)) ?key = ''''"
    by (simp add: store_accessor_def demo_store_def demo_admitted_parts)
  obtain s2 where s2: "call_issue demo_deps (i_policies demo_issue) demo_admitted = (Inr (''token'', ''accessor''), s2)"
      and p2: "st_leases s2 = demo_store" "st_entropy s2 = (\<lambda>_. demo_entropy)"
    by (simp add: demo_deps_def demo_vault_def demo_admitted_parts)
  obtain l where put: "put_lease ?key ''accessor'' demo_store = (Inr (), l)"
    using demo_put [of ?key] by (metis prod.collapse)
  obtain s4 where s4: "call_set ?key ''accessor'' (s2\<lparr>st_draws := Suc (st_draws s2)\<rparr>) = (Inr (), s4)"
    using put p2 by simp
  have crypto: "d_crypto demo_deps = demo_crypto" by (simp add: demo_deps_def)
  have "fst (handleIssue demo_deps demo_inbound demo_server) =
      fst (issue_locked demo_deps demo_key demo_issue demo_admitted)"
    by (simp add: handleIssue_admit demo_admit)
  also have "issue_locked demo_deps demo_key demo_issue demo_admitted = (writeJSON 200 (issue_response [r]), s4)"
    unfolding issue_locked_def Let_def prev
    by (simp add: s2 p2 crypto r s4 del: call_simps)
  finally show ?thesis by (simp add: writeJSON_def)
qed

end
