(* ===== verification/StoreProps.thy ===== *)
theory StoreProps
  imports Demo
begin

text \<open>
  The properties of the lease store (\<^verbatim>\<open>internal/broker/state.go\<close>) and of the nonce cache
  (\<^verbatim>\<open>internal/broker/nonce.go\<close>): refinement of a map, what a crash or a failing system call
  leaves behind, what the loader accepts, and the cache's bound.
\<close>

section \<open>The store\<close>

text \<open>
  C10: the store refines a finite map. Any sequence of \<^verbatim>\<open>set\<close> and \<^verbatim>\<open>remove\<close>, with any system
  calls failing on the way, acts on the map as the commands that reported success, in order; and a
  restart then loads that map, if it fits the loader's limit.
\<close>

theorem lease_store_refines:
  assumes "lease_state_inv st" and "list_all lease_cmd_ok cs" and "run_cmds exec_lease cs st = (rs, st')"
  shows "held st' = apply_run (zip cs rs) (held st) \<and>
     (state_fits st' \<longrightarrow> restarted st' = Some (apply_run (zip cs rs) (held st)))"
  using lease_db.run_refines [OF assms] lease_db.run_restart [OF assms] by blast

lemma demo_store_inv: "lease_state_inv demo_store"
proof -
  have "loadStateStore True True (StatePath demo_config) demo_os = Inr (fst demo_store)"
    by (simp add: loadStateStore_def demo_os_def demo_store_def)
  from load_inv [OF demo_state_file this] show ?thesis by (simp add: demo_store_def)
qed

theorem lease_store_refines_witness:
  "held (snd (run_cmds exec_lease [Put (leaseStateKey ''h'' ''v'') ''accessor'', Drop (leaseStateKey ''h'' ''v'')]
       demo_store)) ''other'' = None"
proof -
  let ?cs = "[Put (leaseStateKey ''h'' ''v'') ''accessor'', Drop (leaseStateKey ''h'' ''v'')]"
  have ok: "list_all lease_cmd_ok ?cs"
    by simp
  have none: "held demo_store k = None" for k
    by (simp add: held_def demo_store_def)
  have "apply_run crs m k = None" if "set (map fst crs) \<subseteq> set ?cs" "m k = None" "k \<noteq> leaseStateKey ''h'' ''v''"
    for crs and m :: "bytes \<Rightarrow> bytes option" and k
    using that by (induction crs m rule: apply_run.induct) auto
  moreover have "set (map fst (zip ?cs rs)) \<subseteq> set ?cs" for rs :: "unit result list"
    by (auto dest: set_zip_leftD)
  moreover have "''other'' \<noteq> leaseStateKey ''h'' ''v''"
  proof
    assume "''other'' = leaseStateKey ''h'' ''v''"
    then have "length ''other'' = 64" by (simp only: length_leaseStateKey)
    then show False by simp
  qed
  ultimately show ?thesis
    using lease_store_refines [OF demo_store_inv ok prod.collapse [symmetric]] none by simp
qed

text \<open>
  C11: writing the state file is atomic. Whatever system calls fail, in every state of the file
  system that a crash during the write could leave, the state file is either what it was before
  or the complete new content, synchronised and readable by its owner only; it is the new content
  at the end exactly when success is reported.
\<close>

theorem persist_crash_atomic:
  assumes "persistLocked p l s = (r, s')" and "state_file p"
  shows "(\<exists>js. journal s' = journal s @ js \<and>
       list_all (\<lambda>ns. gm_get ns p = gm_get (nodes s) p \<or>
          gm_get ns p = Some (Regular 384 (encode_leases l) True)) js) \<and>
     gm_get (nodes s') p =
       (if is_ok r then Some (Regular 384 (encode_leases l) True) else gm_get (nodes s) p)"
  using persistLocked_effect(1,4) [OF assms]
  by (auto simp: evolves_def list_all_iff split: sum.splits)

theorem persist_crash_atomic_witness:
  "gm_get (nodes (snd (persistLocked (StatePath demo_config) [] demo_os))) (StatePath demo_config) =
     Some (Regular 384 (encode_leases []) True)"
  using persist_crash_atomic [OF prod.collapse [symmetric] demo_state_file] demo_persist
  by (metis is_ok_simps(1))

text \<open>
  A persist leaves no stray file: after a success, and after a failure whose cleanup could
  remove the temporary file, everything but the state file and its parent directories is as before.
\<close>

theorem persist_leaves_no_stray:
  assumes "persistLocked p l s = (r, s')" and "state_file p"
    and "is_ok r \<or> remove_ok (script s (calls s))"
    and "q \<noteq> p" and "q \<notin> set (dir_chain (path_dir p))"
  shows "gm_get (nodes s') q = gm_get (nodes s) q"
  using persistLocked_effect(5) [OF assms(1,2), of q] assms(3-5) by simp

theorem persist_leaves_no_stray_witness:
  "gm_get (nodes (snd (persistLocked (StatePath demo_config) [] demo_os))) ''/tmp/x'' = None"
proof -
  have d: "path_dir (StatePath demo_config) = abs_path [''var'', ''lib'', ''pasturestack'']"
    unfolding demo_state_path by (rule path_dir_abs_path) (simp add: plain_elem_def)
  have "path_elems (abs_path [''var'', ''lib'', ''pasturestack'']) = [''var'', ''lib'', ''pasturestack'']"
    by (rule path_elems_abs_path) (simp add: plain_elem_def)
  then have "''/tmp/x'' \<notin> set (dir_chain (path_dir (StatePath demo_config)))"
    by (simp add: d dir_chain_def abs_path_def join_byte_def)
  moreover have "''/tmp/x'' \<noteq> StatePath demo_config"
    by (simp add: demo_config_def)
  moreover have "is_ok (fst (persistLocked (StatePath demo_config) [] demo_os)) \<or>
      remove_ok (script demo_os (calls demo_os))"
    by (simp add: demo_persist)
  ultimately show ?thesis
    using persist_leaves_no_stray [OF prod.collapse [symmetric] demo_state_file]
    by (metis demo_os_def gm_get_Nil os.select_convs(1))
qed

text \<open>
  C23: a persist succeeds whenever no system call fails, nothing but directories is in the way of
  the parent directories, one of the random names is free and the state file is no directory.
\<close>

theorem persist_succeeds:
  assumes "state_file p" and "no_faults (script s (calls s))"
    and "\<forall>d \<in> set (dir_chain (path_dir p)). gm_get (nodes s) d = None \<or> is_dir (gm_get (nodes s) d)"
    and "\<exists>r \<in> set (temp_tries (script s (calls s))). gm_get (nodes s) (temp_path (path_dir p) r) = None"
    and "\<not> is_dir (gm_get (nodes s) p)"
  shows "fst (persistLocked p l s) = Inr () \<and>
     gm_get (nodes (snd (persistLocked p l s))) (path_dir p) = Some (Dir 448)"
  using persistLocked_works [OF assms] persistLocked_effect(6) [OF prod.collapse [symmetric] assms(1)]
  by (metis is_ok_simps(1))

theorem persist_succeeds_witness: "fst (persistLocked (StatePath demo_config) [] demo_os) = Inr ()"
proof -
  have f: "no_faults (script demo_os (calls demo_os))"
    by (simp add: demo_os_def demo_faults_def no_faults_def)
  show ?thesis
    using persist_succeeds [OF demo_state_file f]
    by (simp add: demo_os_def demo_faults_def is_dir_def)
qed

text \<open>
  C24: the loader accepts only an absent file, which gives an empty store, or a private regular
  file: no permission bit for group or others, non-empty, at most 4 MiB, every key the hexadecimal
  form of 32 bytes and every accessor an opaque secret; and what it accepts is well-formed.
\<close>

theorem load_accepts_private:
  assumes "loadStateStore lst rd p s = Inr st" and "state_file p"
  shows "store_inv st \<and> s_path st = p \<and> list_all lease_entry_ok (s_leases st) \<and>
     (gm_get (nodes s) p = None \<and> s_leases st = [] \<or>
      (\<exists>mode content b. gm_get (nodes s) p = Some (Regular mode content b) \<and> mode mod 64 = 0 \<and>
         content \<noteq> [] \<and> length content \<le> 4194304))"
proof -
  have inv: "store_inv st"
    using load_inv [OF assms(2,1)] by (simp add: lease_state_inv_def)
  moreover have "list_all lease_entry_ok (s_leases st)"
    using inv by (auto simp: store_inv_def lease_wf_def list_all_iff)
  moreover have "mode mod 64 = 0" if "and mode 63 = 0" for mode :: nat
    using that mask_eq_exp_minus_1 [of 6, where 'a = nat] take_bit_eq_mask [of 6 mode]
    by (simp add: take_bit_eq_mod)
  ultimately show ?thesis
    using assms(1) by (auto simp: loadStateStore_def split: option.splits node.splits if_splits)
qed

theorem load_accepts_private_witness: "store_inv (fst demo_store)"
proof -
  have "loadStateStore True True (StatePath demo_config) demo_os = Inr (fst demo_store)"
    by (simp add: loadStateStore_def demo_os_def demo_store_def)
  from load_accepts_private [OF this demo_state_file] show ?thesis by simp
qed

section \<open>The nonce cache\<close>

text \<open>
  The cache never exceeds its limit, whatever is presented to it and however its clock moves,
  and its time to live and limit never change.
\<close>

theorem nonce_cache_bounded:
  "length (entries (use_all use_nonce (newNonceCache t m) us)) \<le> nat m"
proof -
  have "nonce_inv (use_all use_nonce (newNonceCache t m) us)"
    by (rule nonces.uses_inv) (rule nonce_inv_new)
  moreover have "maximum (use_all use_nonce c us) = maximum c" for c
    by (induction us arbitrary: c) (auto simp: use_nonce_frame)
  ultimately show ?thesis
    by (simp add: nonce_inv_def newNonceCache_def)
qed

text \<open>
  The decision of the cache, exactly: a pair is accepted at an instant when no unexpired entry
  has its key and fewer than the limit of entries are unexpired; after acceptance its entry
  expires one time to live later.
\<close>

theorem use_nonce_decision:
  assumes "nonce_inv c"
  shows "fst (use_nonce c h n now) \<longleftrightarrow>
     (case remembered c h n of None \<Rightarrow> True | Some e \<Rightarrow> e \<le> now) \<and>
     int (length (filter (\<lambda>(k, e). now < e) (entries c))) < maximum c"
  using assms
  by (auto simp: use_nonce_def remembered_def nonce_inv_def gm_get_purge Let_def purge_def [symmetric]
      split: option.splits)

theorem use_nonce_decision_witness: "fst (use_nonce (newNonceCache 60 1) ''h'' ''n'' 0)"
  using use_nonce_decision [OF nonce_inv_new, of 60 1 "''h''" "''n''" 0]
  by (simp add: newNonceCache_def remembered_def)

section \<open>The size of the file\<close>

text \<open>The file is at least as long as the accessors in it.\<close>

lemma sum_list_lengths: "\<forall>x \<in> set xs. n \<le> length (f x) \<Longrightarrow> length xs * n \<le> sum_list (map length (map f xs))"
  by (induction xs) auto

lemma encode_leases_length:
  assumes "\<forall>k \<in> set (gm_keys m). ascii (the (gm_get m k)) \<and> n \<le> length (the (gm_get m k))"
  shows "length m * n \<le> length (encode_leases m)"
proof -
  let ?f = "\<lambda>k. the (gm_get m k)"
  let ?members = "map (\<lambda>k. json_quote True k @ CHR '':'' # json_quote True (?f k)) (sort (gm_keys m))"
  have "\<forall>k \<in> set (sort (gm_keys m)). n \<le> length (json_quote True k @ CHR '':'' # json_quote True (?f k))"
  proof
    fix k
    assume "k \<in> set (sort (gm_keys m))"
    then have "ascii (?f k)" "n \<le> length (?f k)" using assms by simp_all
    then have "n \<le> length (json_quote True (?f k))"
      using length_json_quote_ge le_trans by blast
    then show "n \<le> length (json_quote True k @ CHR '':'' # json_quote True (?f k))" by simp
  qed
  then have "length (sort (gm_keys m)) * n \<le> sum_list (map length ?members)"
    by (rule sum_list_lengths)
  also have "\<dots> \<le> length (encode_leases m)"
    using length_commas_ge [of ?members "CHR '',''"]
    by (simp add: encode_leases_def leases_document_def o_def)
  finally show ?thesis by (simp add: gm_keys_def)
qed

text \<open>Leases with distinct keys and accessors of the greatest length.\<close>

definition long_accessor :: bytes where
  "long_accessor = replicate 4096 CHR ''a''"

definition numbered_key :: "nat \<Rightarrow> bytes" where
  "numbered_key i = hex_encode (replicate 30 CHR 0x00 @ [char_of (i div 256), char_of i])"

lemma numbered_key_inj: "i < 65536 \<Longrightarrow> j < 65536 \<Longrightarrow> numbered_key i = numbered_key j \<Longrightarrow> i = j"
proof -
  assume "i < 65536" "j < 65536" and eq: "numbered_key i = numbered_key j"
  then have "byte_val (char_of (i div 256) :: char) = byte_val (char_of (j div 256) :: char)"
      "byte_val (char_of i :: char) = byte_val (char_of j :: char)"
    by (simp_all add: numbered_key_def)
  then have "i div 256 mod 256 = j div 256 mod 256" "i mod 256 = j mod 256" by simp_all
  moreover have "i div 256 < 256" "j div 256 < 256"
    using \<open>i < 65536\<close> \<open>j < 65536\<close> by simp_all
  ultimately show "i = j" by (metis div_mod_decomp mod_less)
qed

lemma numbered_key_ok: "lease_key_ok (numbered_key i)"
  by (simp add: lease_key_ok_def numbered_key_def)

lemma length_long_accessor: "length long_accessor = 4096"
  by (simp add: long_accessor_def)

lemma long_accessor_ok: "validOpaqueSecret long_accessor 4096" "valid_utf8 long_accessor" "ascii long_accessor"
proof -
  have "ascii (replicate n CHR ''a'')" for n by (induction n) simp_all
  then show "ascii long_accessor" by (simp add: long_accessor_def)
  then show "valid_utf8 long_accessor" by (rule ascii_utf8)
  show "validOpaqueSecret long_accessor 4096"
    by (simp add: validOpaqueSecret_iff long_accessor_def list_all_iff secret_byte_def secret_rune_def)
qed

text \<open>Puts on a working file system all succeed, and the last one leaves the whole map in the file.\<close>

definition on_disk :: "lease_state \<Rightarrow> bool" where
  "on_disk st \<longleftrightarrow>
     gm_get (nodes (snd st)) (s_path (fst st)) = Some (Regular 384 (encode_leases (s_leases (fst st))) True)"

lemma put_ready:
  assumes "persist_ready (s_path store) s" and "validOpaqueSecret a 4096"
  shows "\<exists>s'. put_lease k a (store, s) = (Inr (), (store\<lparr>s_leases := gm_set k a (s_leases store)\<rparr>, s')) \<and>
     persist_ready (s_path store) s' \<and> on_disk (store\<lparr>s_leases := gm_set k a (s_leases store)\<rparr>, s')"
proof -
  let ?m = "gm_set k a (s_leases store)"
  obtain s' where s': "persistLocked (s_path store) ?m s = (Inr (), s')" "persist_ready (s_path store) s'"
    using persist_ready_again [OF assms(1)] by blast
  moreover have "state_file (s_path store)" using assms(1) by (simp add: persist_ready_def)
  ultimately show ?thesis
    using persistLocked_effect(4) [OF s'(1)] assms(2) by (simp add: put_lease_def store_set_def on_disk_def)
qed

lemma puts_ready:
  assumes "persist_ready (s_path store) s" and "validOpaqueSecret a 4096"
  shows "\<exists>store' s'. run_cmds exec_lease (map (\<lambda>k. Put k a) ks) (store, s) = (replicate (length ks) (Inr ()), (store', s')) \<and>
     s_path store' = s_path store \<and> s_leases store' = fold (\<lambda>k. gm_set k a) ks (s_leases store) \<and>
     (ks = [] \<or> on_disk (store', s'))"
  using assms(1)
proof (induction ks arbitrary: store s)
  case (Cons k ks)
  let ?store = "store\<lparr>s_leases := gm_set k a (s_leases store)\<rparr>"
  obtain s1 where s1: "put_lease k a (store, s) = (Inr (), (?store, s1))" "persist_ready (s_path ?store) s1" "on_disk (?store, s1)"
    using put_ready [OF Cons.prems assms(2), of k] by auto
  obtain store' s' where IH: "run_cmds exec_lease (map (\<lambda>k. Put k a) ks) (?store, s1) = (replicate (length ks) (Inr ()), (store', s'))"
      "s_path store' = s_path ?store" "s_leases store' = fold (\<lambda>k. gm_set k a) ks (s_leases ?store)" "ks = [] \<or> on_disk (store', s')"
    using Cons.IH [OF s1(2)] by blast
  moreover have "on_disk (store', s')" if "ks = []" using IH(1) s1(3) that by simp
  ultimately show ?case using s1(1) by auto
qed simp

lemma demo_ready: "persist_ready (StatePath demo_config) demo_os"
  using demo_state_file by (simp add: persist_ready_def demo_os_def demo_faults_def no_faults_def is_dir_def)

text \<open>
  C25: the store accepts more than its loader. There is a run of \<^verbatim>\<open>set\<close> calls from an empty store,
  with no system call failing, every one of which reports success, and after which the bridge
  cannot be started again: the state file is over the 4 MiB that \<^verbatim>\<open>loadStateStore\<close> reads.
\<close>

theorem oversized_state_refused:
  "\<exists>cs st'. list_all lease_cmd_ok cs \<and> run_cmds exec_lease cs demo_store = (replicate (length cs) (Inr ()), st') \<and>
     loadStateStore True True (StatePath demo_config) (snd st') = Inl ''Vault lease state file is invalid''"
proof -
  define ks where "ks = map numbered_key [0..<1025]"
  let ?cs = "map (\<lambda>k. Put k long_accessor) ks" and ?m = "fold (\<lambda>k. gm_set k long_accessor) ks []"
  obtain store' s' where run: "run_cmds exec_lease ?cs demo_store = (replicate (length ks) (Inr ()), (store', s'))"
      "s_path store' = StatePath demo_config" "s_leases store' = ?m" "ks = [] \<or> on_disk (store', s')"
    using puts_ready [of "fst demo_store" demo_os, OF _ long_accessor_ok(1), of ks] demo_ready
    by (auto simp: demo_store_def)
  have get: "gm_get ?m k = (if k \<in> set ks then Some long_accessor else None)" for k
    using gm_get_fold_set [of "\<lambda>_. long_accessor" ks "[]" k] by simp
  have inv: "gm_inv ?m" using gm_inv_fold_set [of "[]" "\<lambda>_. long_accessor" ks] by simp
  have keys: "set (gm_keys ?m) = set ks"
    using get gm_get_None_iff [of ?m] by (metis option.distinct(1) subsetI subset_antisym)
  have "distinct ks"
    using numbered_key_inj by (auto simp: ks_def distinct_map inj_on_def)
  then have "length (gm_keys ?m) = length ks"
    using inv keys by (metis distinct_card gm_inv_def)
  then have count: "length ?m = 1025" by (simp add: gm_keys_def ks_def)
  have "length ?m * 4096 \<le> length (encode_leases ?m)"
    using long_accessor_ok(3) by (intro encode_leases_length) (simp add: keys get length_long_accessor)
  then have "4194304 < length (encode_leases ?m)"
    unfolding count by simp
  moreover have "on_disk (store', s')" using run(4) by (simp add: ks_def)
  ultimately have "loadStateStore True True (StatePath demo_config) s' = Inl ''Vault lease state file is invalid''"
    using run(2,3) by (simp add: loadStateStore_def on_disk_def)
  moreover have "list_all lease_cmd_ok ?cs"
    using long_accessor_ok(2) numbered_key_ok by (auto simp: list_all_iff ks_def)
  ultimately show ?thesis using run(1) by (metis length_map snd_conv)
qed

end
