(* ===== verification/Network.thy ===== *)
theory Network
  imports Names
begin

text \<open>
  Network addresses: \<^verbatim>\<open>net.SplitHostPort\<close>, the address classes of \<^verbatim>\<open>net.IP\<close>, and the dialer of
  \<^verbatim>\<open>internal/broker/platform.go\<close> that connects an unencrypted upstream only to private addresses.
\<close>

unbundle bit_operations_syntax

section \<open>Host and port\<close>

definition first_index_byte :: "bytes \<Rightarrow> char \<Rightarrow> nat option" where
  "first_index_byte s c = (if c \<in> set s then Some (length (takeWhile (\<lambda>x. x \<noteq> c) s)) else None)"

definition split_host_port :: "bytes \<Rightarrow> (bytes \<times> bytes) option" where
  "split_host_port s =
     (case last_index_byte s CHR '':'' of
        None \<Rightarrow> None
      | Some i \<Rightarrow>
          if hd s = CHR ''['' then
            (case first_index_byte s CHR '']'' of
               None \<Rightarrow> None
             | Some e \<Rightarrow>
                 if Suc e \<noteq> i \<or> CHR ''['' \<in> set (drop 1 s) \<or> CHR '']'' \<in> set (drop (Suc e) s)
                 then None
                 else Some (take (e - 1) (drop 1 s), drop (Suc i) s))
          else
            (if CHR '':'' \<in> set (take i s) \<or> CHR ''['' \<in> set s \<or> CHR '']'' \<in> set s then None
             else Some (take i s, drop (Suc i) s)))"

section \<open>Address classes\<close>

text \<open>An address is its 4 or 16 bytes as numbers.\<close>

type_synonym ip = "nat list"

definition to4 :: "ip \<Rightarrow> ip option" where
  "to4 ip =
     (if length ip = 4 then Some ip
      else if length ip = 16 \<and> take 12 ip = replicate 10 0 @ [255, 255] then Some (drop 12 ip)
      else None)"

definition is_private :: "ip \<Rightarrow> bool" where
  "is_private ip =
     (case to4 ip of
        Some a \<Rightarrow>
          a ! 0 = 10 \<or> a ! 0 = 172 \<and> (a ! 1) AND 240 = 16 \<or> a ! 0 = 192 \<and> a ! 1 = 168
      | None \<Rightarrow> length ip = 16 \<and> (ip ! 0) AND 254 = 252)"

definition is_loopback :: "ip \<Rightarrow> bool" where
  "is_loopback ip =
     (case to4 ip of Some a \<Rightarrow> a ! 0 = 127 | None \<Rightarrow> ip = replicate 15 0 @ [1])"

definition is_link_local :: "ip \<Rightarrow> bool" where
  "is_link_local ip =
     (case to4 ip of
        Some a \<Rightarrow> a ! 0 = 169 \<and> a ! 1 = 254
      | None \<Rightarrow> length ip = 16 \<and> ip ! 0 = 254 \<and> (ip ! 1) AND 192 = 128)"

definition internal_ip :: "ip \<Rightarrow> bool" where
  "internal_ip ip = (is_private ip \<or> is_loopback ip \<or> is_link_local ip)"

section \<open>The private dialer\<close>

text \<open>
  The loop over the resolved addresses, with the addresses it dials in order; \<open>connects\<close> says
  which dials succeed.
\<close>

fun dial_loop :: "(ip \<Rightarrow> bool) \<Rightarrow> ip list \<Rightarrow> ip list \<times> ip option" where
  "dial_loop connects [] = ([], None)"
| "dial_loop connects (a # as) =
     (if \<not> is_private a \<and> \<not> is_loopback a \<and> \<not> is_link_local a then dial_loop connects as
      else if connects a then ([a], Some a)
      else (let (dialed, r) = dial_loop connects as in (a # dialed, r)))"

definition privateDialContext ::
  "(bytes \<Rightarrow> ip list option) \<Rightarrow> (bytes \<Rightarrow> ip \<Rightarrow> bool) \<Rightarrow> bytes \<Rightarrow> ip list \<times> ip result" where
  "privateDialContext lookup connects address =
     (case split_host_port address of
        None \<Rightarrow> ([], Inl ''upstream address is invalid'')
      | Some (host, port) \<Rightarrow>
          (case lookup host of
             None \<Rightarrow> ([], Inl ''upstream address could not be resolved'')
           | Some addresses \<Rightarrow>
               if length addresses = 0 then ([], Inl ''upstream address could not be resolved'')
               else (case dial_loop (connects port) addresses of
                       (dialed, Some a) \<Rightarrow> (dialed, Inr a)
                     | (dialed, None) \<Rightarrow>
                         (dialed, Inl ''unencrypted upstream resolved outside the private network''))))"

lemma dial_loop_internal: "list_all internal_ip (fst (dial_loop connects as))"
  by (induction as) (auto simp: internal_ip_def split: prod.splits)

lemma dial_loop_found:
  "snd (dial_loop connects as) = find (\<lambda>a. internal_ip a \<and> connects a) as"
  by (induction as) (auto simp: internal_ip_def split: prod.splits)

lemma dial_loop_member: "set (fst (dial_loop connects as)) \<subseteq> set as"
  by (induction as) (auto split: prod.splits)

end
