(* ===== verification/ClientProps.thy ===== *)
theory ClientProps
  imports Demo Network
begin

text \<open>
  The properties of the two upstream clients and of the encrypted record
  (\<^verbatim>\<open>internal/broker/vault.go\<close>, \<^verbatim>\<open>platform.go\<close>, \<^verbatim>\<open>envelope.go\<close>): exactly which exchange with an
  upstream makes a call succeed, where an unencrypted connection may go, and that the holder of
  the host's private key recovers the token.
\<close>

section \<open>Vault\<close>

text \<open>
  C20: issuing succeeds exactly when the one POST to the role's create endpoint, carrying the
  issuer token, the wrap time and the requested policies, is answered with 200, within the size
  limit, by a document whose wrap information holds an acceptable token and wrapped accessor.
\<close>

theorem vault_issue_exact:
  assumes "0 \<le> v_maxResponseBytes c" and "validName (v_role c) 128" and "v_wrapTTL c \<noteq> ''''"
  shows "vault_issue send c ps w = (Inr (t, a), w') \<longleftrightarrow>
     (\<exists>reply. send (issue_http c ps) w = (Some reply, w') \<and> p_status reply = 200 \<and>
        \<not> p_broken reply \<and> int (length (p_data reply)) \<le> v_maxResponseBytes c \<and>
        issue_answer (p_data reply) t a)"
  unfolding vault_issue_answer vault_do_iff [OF assms(1)] issue_http_request [OF assms(2,3)]
  by auto

definition demo_client :: vaultClient where
  "demo_client = newVaultClient demo_config
     \<lparr>u_scheme = ''https'', u_host = ''vault'', u_path = [], u_query = []\<rparr>"

lemma demo_client_ok:
  "0 \<le> v_maxResponseBytes demo_client" "validName (v_role demo_client) 128" "v_wrapTTL demo_client \<noteq> ''''"
proof -
  show "0 \<le> v_maxResponseBytes demo_client"
    by (simp add: demo_client_def newVaultClient_def demo_config_def)
  show "validName (v_role demo_client) 128"
    by (simp add: demo_client_def newVaultClient_def demo_config_def validName_iff name_byte_def name_rune_def)
  have "duration_string 60000000000 \<noteq> ''''"
    by (simp add: duration_string_def Let_def)
  then show "v_wrapTTL demo_client \<noteq> ''''"
    by (simp add: demo_client_def newVaultClient_def demo_config_def)
qed

definition demo_wrap :: jv where
  "demo_wrap = JvObj [(''wrap_info'', JvObj
     [(''token'', JvStr ''tok''), (''wrapped_accessor'', JvStr ''acc'')])]"

lemma demo_answer: "issue_answer (json_encode True demo_wrap) ''tok'' ''acc''"
proof -
  have "json_document (json_encode True demo_wrap) = Some demo_wrap"
    by (rule json_document_encode)
      (simp_all add: demo_wrap_def max_nesting_def)
  then show ?thesis
    by (simp add: issue_answer_def unmarshal_def)
      (simp add: demo_wrap_def decode_struct_def issue_response_fields_def wrap_fields_def set_string_def
        no_wrap_def validOpaqueSecret_iff secret_byte_def)
qed

theorem vault_issue_exact_witness:
  "fst (vault_issue (\<lambda>q w. (Some \<lparr>p_status = 200, p_data = json_encode True demo_wrap, p_broken = False\<rparr>, w))
     demo_client [''app''] ()) = Inr (''tok'', ''acc'')"
proof -
  have "length (json_encode True demo_wrap) \<le> 1000"
    by code_simp
  then have "int (length (json_encode True demo_wrap)) \<le> v_maxResponseBytes demo_client"
    by (simp add: demo_client_def newVaultClient_def demo_config_def)
  then have "vault_issue (\<lambda>q w. (Some \<lparr>p_status = 200, p_data = json_encode True demo_wrap, p_broken = False\<rparr>, w))
      demo_client [''app''] () = (Inr (''tok'', ''acc''), ())"
    using demo_answer by (subst vault_issue_exact [OF demo_client_ok]) simp
  then show ?thesis by simp
qed

text \<open>
  C21: revoking succeeds exactly when the accessor is acceptable and the one POST to the
  revoke-accessor endpoint is answered, within the size limit, by 200, by 204, or by a 400 that
  says the accessor is invalid or the lease is gone, so that repeating a revocation is harmless.
\<close>

theorem vault_revoke_exact:
  assumes "0 \<le> v_maxResponseBytes c"
  shows "vault_revoke send c acc w = (Inr (), w') \<longleftrightarrow>
     validOpaqueSecret acc 4096 \<and>
     (\<exists>reply. send (vault_request c ''POST'' (vault_endpoint c ''/v1/auth/token/revoke-accessor'')
                (Some (revoke_body acc)) '''') w = (Some reply, w') \<and>
        \<not> p_broken reply \<and> int (length (p_data reply)) \<le> v_maxResponseBytes c \<and>
        revoke_answer (p_status reply) (p_data reply))"
  unfolding vault_revoke_answer vault_do_iff [OF assms] by auto

theorem vault_revoke_exact_witness:
  "fst (vault_revoke (\<lambda>q w. (Some \<lparr>p_status = 204, p_data = [], p_broken = False\<rparr>, w)) demo_client ''acc'' ()) =
     Inr ()"
proof -
  have "validOpaqueSecret ''acc'' 4096"
    by (simp add: validOpaqueSecret_iff secret_byte_def)
  then have "vault_revoke (\<lambda>q w. (Some \<lparr>p_status = 204, p_data = [], p_broken = False\<rparr>, w)) demo_client ''acc'' () =
      (Inr (), ())"
    using demo_client_ok(1) by (subst vault_revoke_exact [OF demo_client_ok(1)]) (simp add: revoke_answer_def)
  then show ?thesis by simp
qed

section \<open>The control plane\<close>

lemma parseHostPublicKey_iff:
  "parseHostPublicKey ps content = Inr key \<longleftrightarrow>
     (\<exists>block rest. pem_decode ps content = Some (block, rest) \<and> trim_space rest = [] \<and>
        parse_der ps block = Some key \<and>
        2048 \<le> bit_len (k_modulus key) \<and> bit_len (k_modulus key) \<le> 8192)"
  by (auto simp: parseHostPublicKey_def split: option.splits if_splits)

lemma host_answer_iff:
  "host_answer ps body h key \<longleftrightarrow>
     (\<exists>host. decode_hosts body = Some [host] \<and> e_uuid host = h \<and> e_state host = ''active'' \<and>
        parseHostPublicKey ps (e_key_data host) = Inr key)"
  by (auto simp: host_answer_def split: option.splits list.splits)

text \<open>
  C22: a host's key is returned exactly when the identity is a valid name and the one authenticated
  GET for it is answered with 200, within the size limit, by a collection of exactly one host, of
  that identity, active, whose key data is one PEM block holding an RSA key of 2048 to 8192 bits.
\<close>

theorem host_key_exact:
  assumes "0 \<le> f_maxResponseBytes c"
  shows "hostPublicKey send ps c h w = (Inr key, w') \<longleftrightarrow>
     validName h 128 \<and>
     (\<exists>reply host block rest. send (host_request c h) w = (Some reply, w') \<and> p_status reply = 200 \<and>
        \<not> p_broken reply \<and> int (length (p_data reply)) \<le> f_maxResponseBytes c \<and>
        decode_hosts (p_data reply) = Some [host] \<and> e_uuid host = h \<and> e_state host = ''active'' \<and>
        pem_decode ps (e_key_data host) = Some (block, rest) \<and> trim_space rest = [] \<and>
        parse_der ps block = Some key \<and>
        2048 \<le> bit_len (k_modulus key) \<and> bit_len (k_modulus key) \<le> 8192)"
  unfolding hostPublicKey_answer [OF assms] host_answer_iff parseHostPublicKey_iff
  by blast

definition demo_platform :: platformClient where
  "demo_platform = newPlatformClient demo_config
     \<lparr>u_scheme = ''https'', u_host = ''control'', u_path = [], u_query = []\<rparr>"

definition demo_hosts :: jv where
  "demo_hosts = JvObj [(''data'', JvArr [JvObj
     [(''uuid'', JvStr ''host''), (''state'', JvStr ''active''),
      (''info'', JvObj [(''hostKey'', JvObj [(''data'', JvStr ''pem'')])])]])]"

definition demo_parsers :: key_parsers where
  "demo_parsers =
     \<lparr>pem_decode = \<lambda>c. Some (c, []), parse_pkcs1 = \<lambda>d. Some demo_key, parse_pkix = \<lambda>d. None,
      parse_certificate = \<lambda>d. None\<rparr>"

lemma demo_hosts_decode:
  "decode_hosts (json_encode True demo_hosts) = Some [\<lparr>e_uuid = ''host'', e_state = ''active'', e_key_data = ''pem''\<rparr>]"
proof -
  have "json_document (json_encode True demo_hosts) = Some demo_hosts"
    by (rule json_document_encode) (simp_all add: demo_hosts_def max_nesting_def)
  then show ?thesis
    by (simp add: decode_hosts_def)
      (simp add: demo_hosts_def decode_struct_def collection_fields_def set_hosts_def host_fields_def
        host_info_fields_def host_key_fields_def set_string_def no_host_def)
qed

theorem host_key_exact_witness:
  "fst (hostPublicKey (\<lambda>q w. (Some \<lparr>p_status = 200, p_data = json_encode True demo_hosts, p_broken = False\<rparr>, w))
     demo_parsers demo_platform ''host'' ()) = Inr demo_key"
proof -
  have m: "0 \<le> f_maxResponseBytes demo_platform"
    by (simp add: demo_platform_def newPlatformClient_def demo_config_def)
  have "length (json_encode True demo_hosts) \<le> 1000"
    by code_simp
  then have "int (length (json_encode True demo_hosts)) \<le> f_maxResponseBytes demo_platform"
    by (simp add: demo_platform_def newPlatformClient_def demo_config_def)
  then have "hostPublicKey (\<lambda>q w. (Some \<lparr>p_status = 200, p_data = json_encode True demo_hosts, p_broken = False\<rparr>, w))
      demo_parsers demo_platform ''host'' () = (Inr demo_key, ())"
    using demo_hosts_decode demo_key_size(1) demo_names(1)
    by (subst host_key_exact [OF m]) (simp add: demo_parsers_def parse_der_def trim_space_def trim_left_space_def)
  then show ?thesis by simp
qed

definition demo_public :: ip where
  "demo_public = [8, 8, 8, 8]"

definition demo_private :: ip where
  "demo_private = [10, 0, 0, 7]"

text \<open>
  The dialer of an unencrypted upstream dials only private, loopback or link-local addresses
  among those the host name resolved to, and connects to the first of these that answers.
\<close>

theorem private_dial_internal:
  "list_all internal_ip (fst (privateDialContext lookup connects address)) \<and>
   (\<forall>a. snd (privateDialContext lookup connects address) = Inr a \<longrightarrow>
      (\<exists>host port addresses. split_host_port address = Some (host, port) \<and>
         lookup host = Some addresses \<and>
         find (\<lambda>a. internal_ip a \<and> connects port a) addresses = Some a))"
proof (cases "split_host_port address")
  case None
  then show ?thesis by (simp add: privateDialContext_def)
next
  case (Some hp)
  obtain host port where hp: "hp = (host, port)" by (cases hp)
  show ?thesis
  proof (cases "lookup host")
    case None
    then show ?thesis using Some hp by (simp add: privateDialContext_def)
  next
    case addrs: (Some addresses)
    obtain dialed r where d: "dial_loop (connects port) addresses = (dialed, r)"
      by (cases "dial_loop (connects port) addresses")
    then have "list_all internal_ip dialed" "r = find (\<lambda>a. internal_ip a \<and> connects port a) addresses"
      using dial_loop_internal [of "connects port" addresses] dial_loop_found [of "connects port" addresses]
      by simp_all
    then show ?thesis
      using Some hp addrs d by (auto simp: privateDialContext_def split: option.splits)
  qed
qed

theorem private_dial_internal_witness:
  "snd (privateDialContext (\<lambda>h. Some [demo_public, demo_private]) (\<lambda>p a. True) ''vault:80'') = Inr demo_private \<and>
   internal_ip demo_private"
proof -
  have d: "snd (privateDialContext (\<lambda>h. Some [demo_public, demo_private]) (\<lambda>p a. True) ''vault:80'') =
      Inr demo_private"
    by code_simp
  have "find (\<lambda>a. internal_ip a \<and> True) [demo_public, demo_private] = Some demo_private"
    using private_dial_internal [of "\<lambda>h. Some [demo_public, demo_private]" "\<lambda>p a. True" "''vault:80''"] d
    by fastforce
  then have "internal_ip demo_private"
    by (metis (no_types, lifting) find_Some_iff)
  with d show ?thesis by simp
qed

section \<open>The encrypted record\<close>

text \<open>
  C15: whoever decrypts what was encrypted to the host's key recovers exactly the issued token from
  the record, after checking its signature.
\<close>

theorem record_recovers_token:
  assumes "encryptLeaseRecord cr rnd (Some pk) q t = Inr r"
    and "\<And>rnd m c. oaep_encrypt cr pk rnd m = Some c \<Longrightarrow> oaep_decrypt c = Some m"
    and "\<And>k n p. length k = 32 \<Longrightarrow> length n = 12 \<Longrightarrow> gcm_open k n (gcm_seal cr k n p) = Some p"
  shows "open_record oaep_decrypt gcm_open (x_rewrapText r) = Some t \<and>
     x_name r = i_file q \<and> x_uid r = i_uid q \<and> x_gid r = i_gid q \<and> x_mode r = i_mode q"
  using encrypt_open [OF assms] encryptLeaseRecord_fields [OF assms(1)] by simp

theorem record_recovers_token_witness:
  "\<exists>r :: encryptedRecord. open_record Some (\<lambda>k n c. Some c) (x_rewrapText r) = Some ''token''"
proof -
  obtain r where r: "encryptLeaseRecord demo_crypto demo_entropy (Some demo_key) demo_issue ''token'' = Inr r"
    using demo_encrypt by blast
  have "open_record Some (\<lambda>k n c. Some c) (x_rewrapText r) = Some ''token''"
    using record_recovers_token [OF r, of Some "\<lambda>k n c. Some c"] by (simp add: demo_crypto_def)
  then show ?thesis by (rule exI [of _ r])
qed

end
