(* ===== verification/RequestProps.thy ===== *)
theory RequestProps
  imports Demo
begin

text \<open>
  The properties of the request records and of the syntactic checks
  (\<^verbatim>\<open>internal/broker/types.go\<close>, \<^verbatim>\<open>internal/broker/config.go\<close>): what the strict decoder accepts,
  the exact conditions of the two validators, and the reference definitions of the path checks.
\<close>

section \<open>Decoding\<close>

text \<open>
  An issue request survives its JSON encoding: decoding the document of a request, members in
  field order and with or without HTML escaping, gives back the request.
\<close>

theorem issue_request_roundtrip:
  assumes "request_wf q"
  shows "decode_issue (json_encode h (issue_document q)) = Some q"
  using assms by (rule decode_issue_document)

theorem issue_request_roundtrip_witness:
  "decode_issue (json_encode True (issue_document demo_issue)) = Some demo_issue"
  by (rule issue_request_roundtrip) (rule demo_issue_wf)

text \<open>
  The strict decoder accepts one JSON document whose members all name a field of the request,
  and nothing else: a body with an unknown member, with a second document or with trailing text is
  refused.
\<close>

theorem strict_decoding:
  assumes "decode_issue body = Some q"
  shows "json_document body = Some JvNull \<or>
     (\<exists>ms. json_document body = Some (JvObj ms) \<and>
        list_all (\<lambda>(k, v). find_field (map fst issue_fields) k \<noteq> None) ms)"
proof -
  obtain v s where v: "json_document body = Some v" and s: "decode_struct True issue_fields v (no_issue, []) = Some s"
    using assms by (auto simp: decode_issue_def decodeStrict_def split: option.splits)
  show ?thesis
    using v s decode_members_known [of issue_fields _ "(no_issue, [])" s]
    by (cases v) (auto simp: decode_struct_def list_all_iff)
qed

theorem strict_decoding_witness:
  "json_document (json_encode True (issue_document demo_issue)) \<noteq> None"
  using strict_decoding [of "json_encode True (issue_document demo_issue)" demo_issue]
    decode_issue_document [OF demo_issue_wf, of True]
  by auto

section \<open>Validation\<close>

text \<open>
  C26: an issue request passes validation exactly when it has version 1, valid names, a valid
  relative path, owners and read-only mode, a fresh time stamp and 24-byte nonce, and one to
  sixteen strictly increasing policies, each a valid name of the allowlist.
\<close>

theorem issue_validation_exact:
  assumes "0 \<le> NonceTTL c" and "NonceTTL c < max_duration"
  shows "validate_issue q c now = Inr () \<longleftrightarrow>
     i_version q = 1 \<and> validName (i_hostUUID q) 128 \<and> validName (i_volumeName q) 128 \<and>
     validRelativePath (i_file q) \<and> validOwnership (i_uid q) \<and> validOwnership (i_gid q) \<and>
     validReadOnlyMode (i_mode q) \<and>
     fresh (i_timestamp q) (i_nonce q) (NonceTTL c) now \<and>
     policies_allowed (AllowedPolicies c) (i_policies q)"
  using assms by (rule validate_issue_iff)

theorem issue_validation_exact_witness:
  "validate_issue (demo_issue\<lparr>i_policies := [''app'', ''app'']\<rparr>) demo_config 0 \<noteq> Inr ()"
  using issue_validation_exact [of demo_config "demo_issue\<lparr>i_policies := [''app'', ''app'']\<rparr>" 0]
  by (simp add: demo_config_def duration_defs max_duration_def policies_allowed_def)

text \<open>
  A revoke request passes validation exactly when it has version 1, valid names, and a fresh
  time stamp and nonce.
\<close>

theorem revoke_validation_exact:
  assumes "0 \<le> NonceTTL c" and "NonceTTL c < max_duration"
  shows "validate_revoke q c now = Inr () \<longleftrightarrow>
     r_version q = 1 \<and> validName (r_hostUUID q) 128 \<and> validName (r_volumeName q) 128 \<and>
     fresh (r_timestamp q) (r_nonce q) (NonceTTL c) now"
  using assms by (rule validate_revoke_iff)

theorem revoke_validation_exact_witness: "validate_revoke no_revoke demo_config 0 \<noteq> Inr ()"
  using revoke_validation_exact [of demo_config no_revoke 0]
  by (simp add: demo_config_def duration_defs max_duration_def no_revoke_def)

section \<open>Names, paths and keys\<close>

text \<open>
  C27: an accepted file name is one to sixteen names joined by slashes, of at most 240 bytes: no
  empty, dot or dot-dot segment, no leading slash, no backslash; and every such path is accepted.
\<close>

theorem relative_path_names:
  "validRelativePath v \<longleftrightarrow>
     (\<exists>ps. ps \<noteq> [] \<and> length ps \<le> 16 \<and> list_all (\<lambda>p. validName p 64) ps \<and>
           length v \<le> 240 \<and> v = join_byte CHR ''/'' ps)"
  by (rule validRelativePath_iff)

text \<open>
  The state path is accepted exactly when it is the required root extended by one or more
  plain elements, so no accepted path is the root or leaves it.
\<close>

theorem state_path_below_root:
  "validStatePath p = Inr () \<longleftrightarrow>
     (\<exists>rs. rs \<noteq> [] \<and> list_all plain_elem rs \<and>
           p = abs_path ([''var'', ''lib'', ''pasturestack''] @ rs))"
  using validStatePath_elems [of p] unfolding state_root_def .

text \<open>
  The policy allowlist is accepted exactly when it has a non-blank item and every non-blank
  item, blanks trimmed, is a valid name; it then holds exactly these names.
\<close>

theorem policy_allowlist_exact:
  "(\<exists>m. parsePolicyAllowlist raw = Inr m \<and> allowlist_ok m \<and> set (gm_keys m) = names) \<longleftrightarrow>
     names = trim_space ` set (split_byte CHR '','' raw) - {''''} \<and> names \<noteq> {} \<and>
     (\<forall>p\<in>names. validName p 64)"
proof -
  let ?items = "split_byte CHR '','' raw"
  have ok: "allowlist_ok ([] :: (bytes, unit) gomap)"
    by (simp add: allowlist_ok_def gm_keys_def)
  have keys: "set (gm_keys m) = trim_space ` set ?items - {''''}" and inv: "allowlist_ok m"
    if "allowlist_items ?items [] = Inr m" for m
    using allowlist_items_keys [OF that] allowlist_items_inv [OF ok that] by (simp_all add: gm_keys_def)
  have empty: "length m = 0 \<longleftrightarrow> set (gm_keys m) = {}" for m :: "(bytes, unit) gomap"
    by (simp add: gm_keys_def)
  have valid: "\<forall>p\<in>set (gm_keys m). validName p 64" if "allowlist_items ?items [] = Inr m" for m
    using inv [OF that] by (auto simp: allowlist_ok_def list_all_iff)
  show ?thesis
  proof (cases "allowlist_items ?items []")
    case (Inl e)
    then show ?thesis
      using allowlist_items_error [OF Inl] by (auto simp: parsePolicyAllowlist_def)
  next
    case (Inr m)
    then show ?thesis
      using inv [OF Inr] empty [of m] valid [OF Inr] unfolding keys [OF Inr, symmetric]
      by (auto simp: parsePolicyAllowlist_def)
  qed
qed

theorem policy_allowlist_exact_witness:
  "\<exists>m. parsePolicyAllowlist ''app'' = Inr m \<and> allowlist_ok m \<and> set (gm_keys m) = {''app''}"
proof -
  have "trim_space ''app'' = ''app''"
    by (rule trim_space_id) (simp_all add: ascii_space_def)
  moreover have "split_byte CHR '','' ''app'' = [''app'']"
    by simp
  ultimately show ?thesis
    unfolding policy_allowlist_exact using demo_names(3) by simp
qed

text \<open>
  C28: two pairs of valid names have the same state key only if they are the same pair, or SHA-256
  collides on their two messages.
\<close>

theorem lease_key_determines_pair:
  assumes "validName h m" and "validName h' m'" and "leaseStateKey h v = leaseStateKey h' v'"
  shows "h = h' \<and> v = v' \<or>
     h @ CHR 0x00 # v \<noteq> h' @ CHR 0x00 # v' \<and>
     sha256 (h @ CHR 0x00 # v) = sha256 (h' @ CHR 0x00 # v')"
proof -
  have "sha256 (h @ CHR 0x00 # v) = sha256 (h' @ CHR 0x00 # v')"
    using assms(3) leaseStateKey_decodes [of h v] leaseStateKey_decodes [of h' v'] by simp
  then show ?thesis
    using nul_separated [OF validName_no_nul [OF assms(1)] validName_no_nul [OF assms(2)]] by blast
qed

theorem lease_key_determines_pair_witness:
  "''host'' = ''host'' \<and> ''v'' = ''v'' \<or>
     ''host'' @ CHR 0x00 # ''v'' \<noteq> ''host'' @ CHR 0x00 # ''v'' \<and>
     sha256 (''host'' @ CHR 0x00 # ''v'') = sha256 (''host'' @ CHR 0x00 # ''v'')"
  by (rule lease_key_determines_pair [OF demo_names(1) demo_names(1) refl])

end
