(* ===== verification/StrictJson.thy ===== *)
theory StrictJson
  imports GoJsonEncode
begin

text \<open>
  The strict JSON reader of the planner (\<^verbatim>\<open>internal/strictjson/value.go\<close>): the token machine of
  \<^verbatim>\<open>json.Decoder\<close>, the recursive reader built on it, and what it accepts: exactly the documents
  whose tree has no null, no duplicate key, only canonical unsigned numbers and at most sixteen
  levels.
\<close>

section \<open>The token machine of the decoder\<close>

text \<open>
  \<^verbatim>\<open>Decoder.Token\<close> hands out delimiters and scalars and checks commas and colons against a state.
  Here it runs on the lexed text: a lexical error anywhere makes the whole document invalid, since
  an accepted document is read to its end.
\<close>

datatype token_state = TopValue | ArrayStart | ArrayValue | ArrayComma
  | ObjectStart | ObjectKey | ObjectColon | ObjectValue | ObjectComma

record decoder =
  d_rest :: "jtoken list"
  d_state :: token_state
  d_stack :: "token_state list"

datatype json_token = Delim char | StrTok bytes | NumTok bytes | BoolTok bool | NullTok

datatype token_result = Got json_token decoder | Eof | Bad

definition value_allowed :: "token_state \<Rightarrow> bool" where
  "value_allowed st = (st = TopValue \<or> st = ArrayStart \<or> st = ArrayValue \<or> st = ObjectValue)"

definition value_end :: "token_state \<Rightarrow> token_state" where
  "value_end st =
     (if st = ArrayStart \<or> st = ArrayValue then ArrayComma
      else if st = ObjectValue then ObjectComma else st)"

abbreviation dec :: "jtoken list \<Rightarrow> token_state \<Rightarrow> token_state list \<Rightarrow> decoder" where
  "dec ts st ss \<equiv> \<lparr>d_rest = ts, d_state = st, d_stack = ss\<rparr>"

definition open_token :: "char \<Rightarrow> token_state \<Rightarrow> token_state \<Rightarrow> token_state list \<Rightarrow> jtoken list \<Rightarrow> token_result" where
  "open_token c inner st ss ts = (if value_allowed st then Got (Delim c) (dec ts inner (st # ss)) else Bad)"

definition close_token :: "char \<Rightarrow> token_state set \<Rightarrow> token_state \<Rightarrow> token_state list \<Rightarrow> jtoken list \<Rightarrow> token_result" where
  "close_token c allowed st ss ts =
     (if st \<notin> allowed then Bad
      else case ss of [] \<Rightarrow> Bad | s # ss' \<Rightarrow> Got (Delim c) (dec ts (value_end s) ss'))"

definition scalar_token :: "json_token \<Rightarrow> token_state \<Rightarrow> token_state list \<Rightarrow> jtoken list \<Rightarrow> token_result" where
  "scalar_token x st ss ts = (if value_allowed st then Got x (dec ts (value_end st) ss) else Bad)"

fun token_from :: "jtoken list \<Rightarrow> token_state \<Rightarrow> token_state list \<Rightarrow> token_result" where
  "token_from [] st ss = Eof"
| "token_from (JLBrack # ts) st ss = open_token CHR ''['' ArrayStart st ss ts"
| "token_from (JRBrack # ts) st ss = close_token CHR '']'' {ArrayStart, ArrayComma} st ss ts"
| "token_from (JLBrace # ts) st ss = open_token CHR ''{'' ObjectStart st ss ts"
| "token_from (JRBrace # ts) st ss = close_token CHR ''}'' {ObjectStart, ObjectComma} st ss ts"
| "token_from (JColon # ts) st ss = (if st = ObjectColon then token_from ts ObjectValue ss else Bad)"
| "token_from (JComma # ts) st ss =
     (if st = ArrayComma then token_from ts ArrayValue ss
      else if st = ObjectComma then token_from ts ObjectKey ss else Bad)"
| "token_from (JString x # ts) st ss =
     (if st = ObjectStart \<or> st = ObjectKey then Got (StrTok x) (dec ts ObjectColon ss)
      else scalar_token (StrTok x) st ss ts)"
| "token_from (JNumber n # ts) st ss = scalar_token (NumTok n) st ss ts"
| "token_from (JTrue # ts) st ss = scalar_token (BoolTok True) st ss ts"
| "token_from (JFalse # ts) st ss = scalar_token (BoolTok False) st ss ts"
| "token_from (JNull # ts) st ss = scalar_token NullTok st ss ts"

definition next_token :: "decoder \<Rightarrow> token_result" where
  "next_token d = token_from (d_rest d) (d_state d) (d_stack d)"

definition more_values :: "decoder \<Rightarrow> bool" where
  "more_values d = (case d_rest d of [] \<Rightarrow> False | t # _ \<Rightarrow> t \<noteq> JRBrack \<and> t \<noteq> JRBrace)"

section \<open>The reader\<close>

text \<open>A value without null; an object is a map, so its members have distinct keys and no order.\<close>

datatype strict_value =
  KindObject "(bytes \<times> strict_value) list"
| KindArray "strict_value list"
| KindString bytes
| KindNumber bytes
| KindBool bool

definition MaxInputBytes :: nat where "MaxInputBytes = 2 * 1024 * 1024"
definition MaxDepth :: nat where "MaxDepth = 16"

definition canonicalUnsignedNumber :: "bytes \<Rightarrow> bool" where
  "canonicalUnsignedNumber v =
     (if v = ''0'' then True
      else case v of
        [] \<Rightarrow> False
      | c # t \<Rightarrow> \<not> (byte_val c < 49 \<or> byte_val c > 57) \<and>
          list_all (\<lambda>x. \<not> (byte_val x < 48 \<or> byte_val x > 57)) t)"

text \<open>
  The recursion of \<^verbatim>\<open>parseToken\<close> and its two loops. The fuel counts calls; \<open>parse_strict\<close> starts
  with two for every token left, which \<open>tree_reads\<close> below shows to be enough.
\<close>

fun parse_token :: "nat \<Rightarrow> decoder \<Rightarrow> json_token \<Rightarrow> nat \<Rightarrow> (strict_value \<times> decoder) option"
  and parse_object :: "nat \<Rightarrow> decoder \<Rightarrow> nat \<Rightarrow> (bytes, strict_value) gomap \<Rightarrow> (strict_value \<times> decoder) option"
  and parse_array :: "nat \<Rightarrow> decoder \<Rightarrow> nat \<Rightarrow> strict_value list \<Rightarrow> (strict_value \<times> decoder) option" where
  "parse_token 0 d token depth = None"
| "parse_token (Suc n) d token depth =
     (if depth > MaxDepth then None
      else case token of
        Delim c \<Rightarrow>
          if c = CHR ''{'' then parse_object n d depth []
          else if c = CHR ''['' then parse_array n d depth []
          else None
      | StrTok x \<Rightarrow> Some (KindString x, d)
      | NumTok x \<Rightarrow> if \<not> canonicalUnsignedNumber x then None else Some (KindNumber x, d)
      | BoolTok b \<Rightarrow> Some (KindBool b, d)
      | NullTok \<Rightarrow> None)"
| "parse_object 0 d depth object = None"
| "parse_object (Suc n) d depth object =
     (if more_values d then
        (case next_token d of
           Got (StrTok key) d1 \<Rightarrow>
             if gm_get object key \<noteq> None then None
             else (case next_token d1 of
                     Got child_token d2 \<Rightarrow>
                       (case parse_token n d2 child_token (Suc depth) of
                          None \<Rightarrow> None
                        | Some (child, d3) \<Rightarrow> parse_object n d3 depth (gm_set key child object))
                   | _ \<Rightarrow> None)
         | _ \<Rightarrow> None)
      else (case next_token d of
              Got (Delim c) d1 \<Rightarrow> if c = CHR ''}'' then Some (KindObject object, d1) else None
            | _ \<Rightarrow> None))"
| "parse_array 0 d depth array = None"
| "parse_array (Suc n) d depth array =
     (if more_values d then
        (case next_token d of
           Got child_token d1 \<Rightarrow>
             (case parse_token n d1 child_token (Suc depth) of
                None \<Rightarrow> None
              | Some (child, d2) \<Rightarrow> parse_array n d2 depth (array @ [child]))
         | _ \<Rightarrow> None)
      else (case next_token d of
              Got (Delim c) d1 \<Rightarrow> if c = CHR '']'' then Some (KindArray array, d1) else None
            | _ \<Rightarrow> None))"

text \<open>A reader delivers its bytes and then ends, or fails.\<close>

record input_reader =
  rd_data :: bytes
  rd_fails :: bool

definition byte_order_mark :: bytes where
  "byte_order_mark = map char_of [0xEF, 0xBB, 0xBF :: nat]"

definition parse_strict :: "input_reader \<Rightarrow> strict_value option" where
  "parse_strict r =
     (let data = take (MaxInputBytes + 1) (rd_data r)
      in if (rd_fails r \<and> length (rd_data r) \<le> MaxInputBytes) \<or> length data > MaxInputBytes \<or> length data = 0
         then None
         else if has_prefix data byte_order_mark \<or> \<not> valid_utf8 data then None
         else (case lex_json data of
                 None \<Rightarrow> None
               | Some ts \<Rightarrow>
                   (case next_token (dec ts TopValue []) of
                      Got token d \<Rightarrow>
                        (case parse_token (2 * Suc (length ts)) d token 1 of
                           None \<Rightarrow> None
                         | Some (v, d') \<Rightarrow> (case next_token d' of Eof \<Rightarrow> Some v | _ \<Rightarrow> None))
                    | _ \<Rightarrow> None)))"

section \<open>The reference: trees\<close>

text \<open>A tree the reader accepts at a given depth, and the value it stands for.\<close>

fun strict_tree :: "nat \<Rightarrow> jv \<Rightarrow> bool" where
  "strict_tree d JvNull = False"
| "strict_tree d (JvBool b) = (d \<le> MaxDepth)"
| "strict_tree d (JvNum n) = (d \<le> MaxDepth \<and> canonicalUnsignedNumber n)"
| "strict_tree d (JvStr s) = (d \<le> MaxDepth)"
| "strict_tree d (JvArr vs) = (d \<le> MaxDepth \<and> list_all (strict_tree (Suc d)) vs)"
| "strict_tree d (JvObj ms) =
     (d \<le> MaxDepth \<and> distinct (map fst ms) \<and> list_all (\<lambda>(k, v). strict_tree (Suc d) v) ms)"

fun value_of :: "jv \<Rightarrow> strict_value" where
  "value_of JvNull = KindBool False"
| "value_of (JvBool b) = KindBool b"
| "value_of (JvNum n) = KindNumber n"
| "value_of (JvStr s) = KindString s"
| "value_of (JvArr vs) = KindArray (map value_of vs)"
| "value_of (JvObj ms) = KindObject (rev (map (\<lambda>(k, v). (k, value_of v)) ms))"

lemma strict_tree_depth: "strict_tree d j \<Longrightarrow> d \<le> MaxDepth"
  by (cases j) auto

lemmas token_defs [simp] =
  value_allowed_def value_end_def open_token_def close_token_def scalar_token_def next_token_def
  more_values_def

lemma token_at_value:
  assumes "value_allowed st"
  shows "token_from (JComma # ts) st ss = Bad" "token_from (JColon # ts) st ss = Bad"
    "token_from (JString x # ts) st ss =
       (if st = ObjectStart \<or> st = ObjectKey then Got (StrTok x) (dec ts ObjectColon ss)
        else Got (StrTok x) (dec ts (value_end st) ss))"
  using assms by auto

text \<open>What follows a value inside an array or object: the rest of the items, each after its comma.\<close>

fun more_items :: "bool \<Rightarrow> jtoken list list \<Rightarrow> jtoken list" where
  "more_items first [] = []"
| "more_items first (x # xs) = (if first then x else JComma # x) @ more_items False xs"

lemma more_items_commas: "more_items True xs = commas JComma xs"
proof -
  have "more_items False ys = concat (map (\<lambda>y. JComma # y) ys)" for ys
    by (induction ys) simp_all
  then show ?thesis by (cases xs) (simp_all add: commas_def)
qed

definition member_toks :: "bytes \<times> jv \<Rightarrow> jtoken list" where
  "member_toks m = (case m of (k, v) \<Rightarrow> JString k # JColon # jtoks v)"

lemma member_toks_pair [simp]: "member_toks (k, v) = JString k # JColon # jtoks v"
  by (simp add: member_toks_def)

lemma jtoks_items:
  "jtoks (JvArr vs) = JLBrack # more_items True (map jtoks vs) @ [JRBrack]"
  "jtoks (JvObj ms) = JLBrace # more_items True (map member_toks ms) @ [JRBrace]"
  by (simp_all add: more_items_commas member_toks_def [abs_def])

section \<open>Accepted text has a strict tree\<close>

lemma array_item_token:
  assumes "more_values (dec ts st ss)" and "st = ArrayStart \<or> st = ArrayComma"
    and "next_token (dec ts st ss) = Got token d"
  shows "\<exists>us st'. value_allowed st' \<and> value_end st' = ArrayComma \<and> st' \<noteq> ObjectValue \<and>
     next_token (dec us st' ss) = Got token d \<and> ts = (if st = ArrayStart then us else JComma # us)"
proof (cases "st = ArrayStart")
  case True
  then show ?thesis using assms by (intro exI [of _ ts] exI [of _ ArrayStart]) auto
next
  case False
  then have st: "st = ArrayComma" using assms(2) by simp
  obtain t us where ts: "ts = t # us" using assms(1) by (cases ts) auto
  have "t = JComma"
    using assms(1,3) st ts by (cases t) auto
  then show ?thesis
    using assms(3) st ts by (intro exI [of _ us] exI [of _ ArrayValue]) auto
qed

lemma object_key_token:
  assumes "more_values (dec ts st ss)" and "st = ObjectStart \<or> st = ObjectComma"
    and "next_token (dec ts st ss) = Got (StrTok key) d"
  shows "\<exists>us. ts = (if st = ObjectStart then JString key # us else JComma # JString key # us) \<and>
     d = dec us ObjectColon ss"
proof -
  have key: "\<exists>us. vs = JString key # us \<and> d = dec us ObjectColon ss"
    if "token_from vs st' ss = Got (StrTok key) d" "st' = ObjectStart \<or> st' = ObjectKey" for vs st'
    using that by (induction vs st' ss rule: token_from.induct) (auto split: if_splits list.splits)
  obtain t us where ts: "ts = t # us" using assms(1) by (cases ts) auto
  show ?thesis
  proof (cases "st = ObjectStart")
    case True
    then show ?thesis using key [of ts st] assms(3) by simp
  next
    case False
    then have st: "st = ObjectComma" using assms(2) by simp
    have "t = JComma"
      using assms(1,3) st ts by (cases t) auto
    then show ?thesis using key [of us ObjectKey] assms(3) st ts by auto
  qed
qed

lemma colon_token:
  assumes "next_token (dec ts ObjectColon ss) = Got token d"
  shows "\<exists>us. ts = JColon # us \<and> next_token (dec us ObjectValue ss) = Got token d"
proof (cases ts)
  case (Cons t us)
  then show ?thesis using assms by (cases t) auto
qed (use assms in simp)

text \<open>The three statements, for the value at hand and for the two loops.\<close>

definition value_read :: "nat \<Rightarrow> bool" where
  "value_read n \<longleftrightarrow> (\<forall>ts st ss token d depth v d'.
     next_token (dec ts st ss) = Got token d \<longrightarrow> value_allowed st \<longrightarrow>
     parse_token n d token depth = Some (v, d') \<longrightarrow>
     (\<exists>j us. strict_tree depth j \<and> v = value_of j \<and> ts = jtoks j @ us \<and>
        d' = dec us (value_end st) ss))"

definition array_read :: "nat \<Rightarrow> bool" where
  "array_read n \<longleftrightarrow> (\<forall>ts st s ss depth acc v d'.
     st = ArrayStart \<or> st = ArrayComma \<longrightarrow>
     parse_array n (dec ts st (s # ss)) depth acc = Some (v, d') \<longrightarrow>
     (\<exists>js us. list_all (strict_tree (Suc depth)) js \<and> v = KindArray (acc @ map value_of js) \<and>
        ts = more_items (st = ArrayStart) (map jtoks js) @ JRBrack # us \<and>
        d' = dec us (value_end s) ss))"

definition object_read :: "nat \<Rightarrow> bool" where
  "object_read n \<longleftrightarrow> (\<forall>ts st s ss depth m v d'.
     st = ObjectStart \<or> st = ObjectComma \<longrightarrow>
     parse_object n (dec ts st (s # ss)) depth m = Some (v, d') \<longrightarrow>
     (\<exists>ms us. list_all (\<lambda>(k, j). strict_tree (Suc depth) j) ms \<and> distinct (map fst ms) \<and>
        list_all (\<lambda>(k, j). gm_get m k = None) ms \<and>
        v = KindObject (rev (map (\<lambda>(k, j). (k, value_of j)) ms) @ m) \<and>
        ts = more_items (st = ObjectStart) (map member_toks ms) @ JRBrace # us \<and>
        d' = dec us (value_end s) ss))"

lemma array_read_Suc:
  assumes vals: "value_read n" and rest: "array_read n"
  shows "array_read (Suc n)"
  unfolding array_read_def
proof (intro allI impI)
  fix ts st s ss depth acc v d'
  assume st: "st = ArrayStart \<or> st = ArrayComma"
    and run: "parse_array (Suc n) (dec ts st (s # ss)) depth acc = Some (v, d')"
  show "\<exists>js us. list_all (strict_tree (Suc depth)) js \<and> v = KindArray (acc @ map value_of js) \<and>
      ts = more_items (st = ArrayStart) (map jtoks js) @ JRBrack # us \<and> d' = dec us (value_end s) ss"
  proof (cases "more_values (dec ts st (s # ss))")
    case True
    then obtain token d1 child d2 where next1: "next_token (dec ts st (s # ss)) = Got token d1"
        and child: "parse_token n d1 token (Suc depth) = Some (child, d2)"
        and tail: "parse_array n d2 depth (acc @ [child]) = Some (v, d')"
      using run by (auto simp del: token_defs split: token_result.splits option.splits)
    obtain us st' where us: "value_allowed st'" "value_end st' = ArrayComma"
        "next_token (dec us st' (s # ss)) = Got token d1" "ts = (if st = ArrayStart then us else JComma # us)"
      using array_item_token [OF True st next1] by blast
    obtain j us' where j: "strict_tree (Suc depth) j" "child = value_of j" "us = jtoks j @ us'"
        "d2 = dec us' ArrayComma (s # ss)"
      using vals us child unfolding value_read_def by metis
    obtain js us'' where "list_all (strict_tree (Suc depth)) js" "v = KindArray ((acc @ [child]) @ map value_of js)"
        "us' = more_items False (map jtoks js) @ JRBrack # us''" "d' = dec us'' (value_end s) ss"
      using rest tail unfolding array_read_def j(4) by fastforce
    then show ?thesis
      using j us(4) by (intro exI [of _ "j # js"] exI [of _ us'']) simp
  next
    case False
    with run st show ?thesis
      by (cases ts) (auto split: jtoken.splits if_splits intro: exI [of _ "[]"])
  qed
qed

lemma object_read_Suc:
  assumes vals: "value_read n" and rest: "object_read n"
  shows "object_read (Suc n)"
  unfolding object_read_def
proof (intro allI impI)
  fix ts st s ss depth m v d'
  assume st: "st = ObjectStart \<or> st = ObjectComma"
    and run: "parse_object (Suc n) (dec ts st (s # ss)) depth m = Some (v, d')"
  show "\<exists>ms us. list_all (\<lambda>(k, j). strict_tree (Suc depth) j) ms \<and> distinct (map fst ms) \<and>
      list_all (\<lambda>(k, j). gm_get m k = None) ms \<and>
      v = KindObject (rev (map (\<lambda>(k, j). (k, value_of j)) ms) @ m) \<and>
      ts = more_items (st = ObjectStart) (map member_toks ms) @ JRBrace # us \<and> d' = dec us (value_end s) ss"
  proof (cases "more_values (dec ts st (s # ss))")
    case True
    then obtain key d1 token d2 child d3 where next1: "next_token (dec ts st (s # ss)) = Got (StrTok key) d1"
        and new: "gm_get m key = None" and next2: "next_token d1 = Got token d2"
        and child: "parse_token n d2 token (Suc depth) = Some (child, d3)"
        and tail: "parse_object n d3 depth (gm_set key child m) = Some (v, d')"
      using run by (auto simp del: token_defs split: token_result.splits json_token.splits option.splits if_splits)
    obtain us where us: "ts = (if st = ObjectStart then JString key # us else JComma # JString key # us)"
        "d1 = dec us ObjectColon (s # ss)"
      using object_key_token [OF True st next1] by blast
    obtain us' where us': "us = JColon # us'" "next_token (dec us' ObjectValue (s # ss)) = Got token d2"
      using colon_token next2 us(2) by blast
    have allowed: "value_allowed ObjectValue" "value_end ObjectValue = ObjectComma" by simp_all
    obtain j vs where j: "strict_tree (Suc depth) j" "child = value_of j" "us' = jtoks j @ vs"
        "d3 = dec vs ObjectComma (s # ss)"
      using vals us'(2) child allowed unfolding value_read_def by metis
    have set: "gm_set key child m = (key, child) # m"
      using new by (simp add: gm_set_def gm_del_absent)
    obtain ms ws where ms: "list_all (\<lambda>(k, j). strict_tree (Suc depth) j) ms" "distinct (map fst ms)"
        "list_all (\<lambda>(k, j). gm_get (gm_set key child m) k = None) ms"
        "v = KindObject (rev (map (\<lambda>(k, j). (k, value_of j)) ms) @ gm_set key child m)"
        "vs = more_items False (map member_toks ms) @ JRBrace # ws" "d' = dec ws (value_end s) ss"
      using rest tail unfolding object_read_def j(4) by fastforce
    have "key \<notin> set (map fst ms)" and "list_all (\<lambda>(k, j). gm_get m k = None) ms"
      using ms(3) by (auto simp: list_all_iff split: if_splits)
    then show ?thesis
      using j us(1) us'(1) ms set new
      by (intro exI [of _ "(key, j) # ms"] exI [of _ ws]) (simp add: member_toks_def)
  next
    case False
    with run st show ?thesis
      by (cases ts) (auto split: jtoken.splits if_splits intro: exI [of _ "[]"])
  qed
qed

lemma value_read_array:
  assumes "array_read n" and "next_token (dec (JLBrack # us) st ss) = Got token d" and "value_allowed st"
    and run: "parse_token (Suc n) d token depth = Some (v, d')" and depth: "depth \<le> MaxDepth"
  shows "\<exists>j ws. strict_tree depth j \<and> v = value_of j \<and> JLBrack # us = jtoks j @ ws \<and> d' = dec ws (value_end st) ss"
proof -
  have "token = Delim CHR ''[''" "d = dec us ArrayStart (st # ss)"
    using assms(2,3) by simp_all
  then have "parse_array n (dec us ArrayStart (st # ss)) depth [] = Some (v, d')"
    using run depth by simp
  then obtain js ws where "list_all (strict_tree (Suc depth)) js" "v = KindArray (map value_of js)"
      "us = more_items True (map jtoks js) @ JRBrack # ws" "d' = dec ws (value_end st) ss"
    using assms(1,3) unfolding array_read_def by fastforce
  then show ?thesis
    using depth by (intro exI [of _ "JvArr js"] exI [of _ ws]) (simp add: more_items_commas)
qed

lemma value_read_object:
  assumes "object_read n" and "next_token (dec (JLBrace # us) st ss) = Got token d" and "value_allowed st"
    and run: "parse_token (Suc n) d token depth = Some (v, d')" and depth: "depth \<le> MaxDepth"
  shows "\<exists>j ws. strict_tree depth j \<and> v = value_of j \<and> JLBrace # us = jtoks j @ ws \<and> d' = dec ws (value_end st) ss"
proof -
  have "token = Delim CHR ''{''" "d = dec us ObjectStart (st # ss)"
    using assms(2,3) by simp_all
  then have "parse_object n (dec us ObjectStart (st # ss)) depth [] = Some (v, d')"
    using run depth by simp
  then obtain ms ws where "list_all (\<lambda>(k, j). strict_tree (Suc depth) j) ms" "distinct (map fst ms)"
      "v = KindObject (rev (map (\<lambda>(k, j). (k, value_of j)) ms))"
      "us = more_items True (map member_toks ms) @ JRBrace # ws" "d' = dec ws (value_end st) ss"
    using assms(1,3) unfolding object_read_def by fastforce
  then show ?thesis
    using depth by (intro exI [of _ "JvObj ms"] exI [of _ ws]) (simp add: jtoks_items del: jtoks.simps)
qed

lemma value_read_Suc:
  assumes arrays: "array_read n" and objects: "object_read n"
  shows "value_read (Suc n)"
  unfolding value_read_def
proof (intro allI impI)
  fix ts st ss token d depth v d'
  assume next1: "next_token (dec ts st ss) = Got token d" and st: "value_allowed st"
    and run: "parse_token (Suc n) d token depth = Some (v, d')"
  have depth: "depth \<le> MaxDepth" using run by (simp split: if_splits)
  obtain t us where ts: "ts = t # us" using next1 by (cases ts) auto
  have not_key: "\<not> (st = ObjectStart \<or> st = ObjectKey)" using st by auto
  show "\<exists>j us. strict_tree depth j \<and> v = value_of j \<and> ts = jtoks j @ us \<and> d' = dec us (value_end st) ss"
  proof (cases t)
    case JLBrack
    then show ?thesis using value_read_array [OF arrays _ st run depth] next1 ts by simp
  next
    case JLBrace
    then show ?thesis using value_read_object [OF objects _ st run depth] next1 ts by simp
  next
    case (JString x)
    then show ?thesis
      using next1 st run ts depth not_key
      by (intro exI [of _ "JvStr x"] exI [of _ us]) (auto split: if_splits)
  next
    case (JNumber x)
    then show ?thesis
      using next1 st run ts depth
      by (intro exI [of _ "JvNum x"] exI [of _ us]) (auto split: if_splits)
  next
    case JTrue
    then show ?thesis
      using next1 st run ts depth by (intro exI [of _ "JvBool True"] exI [of _ us]) auto
  next
    case JFalse
    then show ?thesis
      using next1 st run ts depth by (intro exI [of _ "JvBool False"] exI [of _ us]) auto
  qed (use next1 st run ts depth in \<open>auto split: if_splits list.splits\<close>)
qed

lemma all_read: "value_read n \<and> array_read n \<and> object_read n"
proof (induction n)
  case 0
  then show ?case by (simp add: value_read_def array_read_def object_read_def)
next
  case (Suc n)
  then show ?case using value_read_Suc array_read_Suc object_read_Suc by blast
qed

section \<open>Every strict tree is read\<close>

text \<open>
  Two calls for every token that is left are enough: \<open>reads n depth j\<close> says that with fuel \<open>n\<close> the
  tokens of \<open>j\<close>, wherever a value may stand, are read as its value.
\<close>

definition reads :: "nat \<Rightarrow> nat \<Rightarrow> jv \<Rightarrow> bool" where
  "reads n depth j \<longleftrightarrow> (\<forall>st ss us. value_allowed st \<longrightarrow>
     (\<exists>token d. next_token (dec (jtoks j @ us) st ss) = Got token d \<and>
        parse_token n d token depth = Some (value_of j, dec us (value_end st) ss)))"

lemma scalar_reads:
  assumes "value_allowed st"
  shows "token_from (JNumber x # us) st ss = Got (NumTok x) (dec us (value_end st) ss)"
    "token_from (JString x # us) st ss = Got (StrTok x) (dec us (value_end st) ss)"
    "token_from (JTrue # us) st ss = Got (BoolTok True) (dec us (value_end st) ss)"
    "token_from (JFalse # us) st ss = Got (BoolTok False) (dec us (value_end st) ss)"
    "token_from (JLBrack # us) st ss = Got (Delim CHR ''['') (dec us ArrayStart (st # ss))"
    "token_from (JLBrace # us) st ss = Got (Delim CHR ''{'') (dec us ObjectStart (st # ss))"
  using assms by auto

lemma step_tokens:
  "next_token (dec (JComma # ts) ArrayComma ss) = next_token (dec ts ArrayValue ss)"
  "next_token (dec (JRBrack # ts) ArrayStart (s # ss)) = Got (Delim CHR '']'') (dec ts (value_end s) ss)"
  "next_token (dec (JRBrack # ts) ArrayComma (s # ss)) = Got (Delim CHR '']'') (dec ts (value_end s) ss)"
  "next_token (dec (JRBrace # ts) ObjectStart (s # ss)) = Got (Delim CHR ''}'') (dec ts (value_end s) ss)"
  "next_token (dec (JRBrace # ts) ObjectComma (s # ss)) = Got (Delim CHR ''}'') (dec ts (value_end s) ss)"
  "next_token (dec (JString k # ts) ObjectStart ss) = Got (StrTok k) (dec ts ObjectColon ss)"
  "next_token (dec (JComma # JString k # ts) ObjectComma ss) = Got (StrTok k) (dec ts ObjectColon ss)"
  "next_token (dec (JColon # ts) ObjectColon ss) = next_token (dec ts ObjectValue ss)"
  "more_values (dec (JComma # ts) st ss)" "more_values (dec (JString k # ts) st ss)"
  "\<not> more_values (dec (JRBrack # ts) st ss)" "\<not> more_values (dec (JRBrace # ts) st ss)"
  "value_allowed ArrayStart" "value_allowed ArrayValue" "value_allowed ObjectValue" "value_allowed TopValue"
  "value_end ArrayStart = ArrayComma" "value_end ArrayValue = ArrayComma"
  "value_end ObjectValue = ObjectComma" "value_end TopValue = TopValue"
  by simp_all

lemma more_values_jtoks: "more_values (dec (jtoks j @ us) st ss)"
proof -
  obtain t ts where "jtoks j = t # ts" "t \<noteq> JRBrack" "t \<noteq> JRBrace" by (rule jtoks_first)
  then show ?thesis by simp
qed

lemma length_jtoks_pos: "0 < length (jtoks j)"
  by (rule jtoks_first [of j]) simp

declare token_defs [simp del]

lemma array_reads:
  assumes "\<And>j m. j \<in> set js \<Longrightarrow> 2 * length (jtoks j) \<le> m \<Longrightarrow> reads m (Suc depth) j"
    and "2 * length (more_items first (map jtoks js)) + 1 \<le> n"
  shows "parse_array n (dec (more_items first (map jtoks js) @ JRBrack # us)
       (if first then ArrayStart else ArrayComma) (s # ss)) depth acc =
     Some (KindArray (acc @ map value_of js), dec us (value_end s) ss)"
  using assms
proof (induction js arbitrary: n first acc)
  case Nil
  then obtain m where "n = Suc m" by (cases n) auto
  then show ?case by (cases first) (simp_all add: step_tokens)
next
  case (Cons j js)
  then obtain m where n: "n = Suc m" by (cases n) auto
  let ?rest = "more_items False (map jtoks js) @ JRBrack # us"
  have len: "length (jtoks j) + length (more_items False (map jtoks js)) \<le> length (more_items first (map jtoks (j # js)))"
    by (cases first) simp_all
  have fuel: "2 * length (jtoks j) \<le> m" "2 * length (more_items False (map jtoks js)) + 1 \<le> m"
    using Cons.prems(2) n length_jtoks_pos [of j] len by linarith+
  have tail: "parse_array m (dec ?rest ArrayComma (s # ss)) depth (acc @ [value_of j]) =
      Some (KindArray (acc @ map value_of (j # js)), dec us (value_end s) ss)"
    using Cons.IH [where n = m and first = False and acc = "acc @ [value_of j]"] Cons.prems(1) fuel(2) by simp
  have "reads m (Suc depth) j" using Cons.prems(1) fuel(1) by simp
  then obtain t1 d1 t2 d2 where
      "next_token (dec (jtoks j @ ?rest) ArrayStart (s # ss)) = Got t1 d1"
      "parse_token m d1 t1 (Suc depth) = Some (value_of j, dec ?rest ArrayComma (s # ss))"
      "next_token (dec (jtoks j @ ?rest) ArrayValue (s # ss)) = Got t2 d2"
      "parse_token m d2 t2 (Suc depth) = Some (value_of j, dec ?rest ArrayComma (s # ss))"
    unfolding reads_def by (metis step_tokens(13,14,17,18))
  then show ?case
    using tail by (cases first) (simp_all add: n step_tokens more_values_jtoks)
qed

lemma object_reads:
  assumes "\<And>k j m. (k, j) \<in> set ms \<Longrightarrow> 2 * length (jtoks j) \<le> m \<Longrightarrow> reads m (Suc depth) j"
    and "distinct (map fst ms)" and "list_all (\<lambda>(k, j). gm_get acc k = None) ms"
    and "2 * length (more_items first (map member_toks ms)) + 1 \<le> n"
  shows "parse_object n (dec (more_items first (map member_toks ms) @ JRBrace # us)
       (if first then ObjectStart else ObjectComma) (s # ss)) depth acc =
     Some (KindObject (rev (map (\<lambda>(k, j). (k, value_of j)) ms) @ acc), dec us (value_end s) ss)"
  using assms
proof (induction ms arbitrary: n first acc)
  case Nil
  then obtain m where "n = Suc m" by (cases n) auto
  then show ?case by (cases first) (simp_all add: step_tokens)
next
  case (Cons kj ms)
  obtain k j where kj: "kj = (k, j)" by (cases kj)
  obtain m where n: "n = Suc m" using Cons.prems(4) by (cases n) auto
  let ?rest = "more_items False (map member_toks ms) @ JRBrace # us"
  have len: "2 + length (jtoks j) + length (more_items False (map member_toks ms)) \<le>
      length (more_items first (map member_toks (kj # ms)))"
    by (cases first) (simp_all add: kj member_toks_def)
  have fuel: "2 * length (jtoks j) \<le> m" "2 * length (more_items False (map member_toks ms)) + 1 \<le> m"
    using Cons.prems(4) n len by linarith+
  have new: "gm_get acc k = None" using Cons.prems(3) by (simp add: kj)
  then have set: "gm_set k (value_of j) acc = (k, value_of j) # acc"
    by (simp add: gm_set_def gm_del_absent)
  have fresh: "list_all (\<lambda>(k', i). gm_get (gm_set k (value_of j) acc) k' = None) ms"
    using Cons.prems(2,3) by (force simp: list_all_iff kj)
  have sub: "\<And>k j m. (k, j) \<in> set ms \<Longrightarrow> 2 * length (jtoks j) \<le> m \<Longrightarrow> reads m (Suc depth) j"
    by (rule Cons.prems(1), rule list.set_intros(2))
  have dist: "distinct (map fst ms)"
    using Cons.prems(2) by simp
  have tail: "parse_object m (dec ?rest ObjectComma (s # ss)) depth (gm_set k (value_of j) acc) =
      Some (KindObject (rev (map (\<lambda>(k, j). (k, value_of j)) (kj # ms)) @ acc), dec us (value_end s) ss)"
    using Cons.IH [OF sub dist fresh fuel(2)] by (simp add: set kj)
  have "reads m (Suc depth) j" using Cons.prems(1) [of k j] fuel(1) by (simp add: kj)
  then obtain t d where
      "next_token (dec (jtoks j @ ?rest) ObjectValue (s # ss)) = Got t d"
      "parse_token m d t (Suc depth) = Some (value_of j, dec ?rest ObjectComma (s # ss))"
    unfolding reads_def by (metis step_tokens(15,19))
  then show ?case
    using tail new by (cases first) (simp_all add: n kj step_tokens)
qed

lemma tree_reads:
  "strict_tree depth j \<Longrightarrow> 2 * length (jtoks j) \<le> n \<Longrightarrow> reads n depth j"
proof (induction j arbitrary: depth n)
  case (JvArr vs)
  obtain m where n: "n = Suc m" using JvArr.prems(2) by (cases n) auto
  have "reads k (Suc depth) j" if "j \<in> set vs" "2 * length (jtoks j) \<le> k" for j k
    using JvArr.IH [of j "Suc depth" k] JvArr.prems(1) that by (simp add: list_all_iff)
  then have "parse_array m (dec (more_items True (map jtoks vs) @ JRBrack # us) ArrayStart (s # ss)) depth [] =
      Some (KindArray (map value_of vs), dec us (value_end s) ss)" for us s ss
    using array_reads [of vs depth True m us s ss "[]"] JvArr.prems(2) n by (simp add: jtoks_items del: jtoks.simps)
  then have "parse_token n (dec (more_items True (map jtoks vs) @ JRBrack # us) ArrayStart (s # ss)) (Delim CHR ''['') depth =
      Some (value_of (JvArr vs), dec us (value_end s) ss)" for us s ss
    using JvArr.prems(1) by (simp add: n)
  then show ?case
    by (auto simp: reads_def next_token_def jtoks_items scalar_reads simp del: jtoks.simps token_from.simps)
next
  case (JvObj ms)
  obtain m where n: "n = Suc m" using JvObj.prems(2) by (cases n) auto
  have "reads k' (Suc depth) j" if "(k, j) \<in> set ms" "2 * length (jtoks j) \<le> k'" for k j k'
    using JvObj.IH [of "(k, j)" j "Suc depth" k'] JvObj.prems(1) that by (auto simp: list_all_iff)
  moreover have "list_all (\<lambda>(k, j). gm_get [] k = None) ms"
    by (simp add: list_all_iff gm_get_def)
  ultimately have "parse_object m (dec (more_items True (map member_toks ms) @ JRBrace # us) ObjectStart (s # ss)) depth [] =
      Some (KindObject (rev (map (\<lambda>(k, j). (k, value_of j)) ms)), dec us (value_end s) ss)" for us s ss
    using object_reads [of ms depth "[]" True m us s ss] JvObj.prems n by (simp add: jtoks_items del: jtoks.simps)
  then have "parse_token n (dec (more_items True (map member_toks ms) @ JRBrace # us) ObjectStart (s # ss)) (Delim CHR ''{'') depth =
      Some (value_of (JvObj ms), dec us (value_end s) ss)" for us s ss
    using JvObj.prems(1) by (simp add: n)
  then show ?case
    by (auto simp: reads_def next_token_def jtoks_items scalar_reads simp del: jtoks.simps token_from.simps)
next
  case (JvBool b)
  then obtain m where "n = Suc m" by (cases n) auto
  then show ?case
    using JvBool by (cases b) (auto simp: reads_def next_token_def scalar_reads simp del: token_from.simps)
next
  case (JvNum x)
  then obtain m where "n = Suc m" by (cases n) auto
  then show ?case
    using JvNum by (auto simp: reads_def next_token_def scalar_reads simp del: token_from.simps)
next
  case (JvStr x)
  then obtain m where "n = Suc m" by (cases n) auto
  then show ?case
    using JvStr by (auto simp: reads_def next_token_def scalar_reads simp del: token_from.simps)
qed simp

text \<open>The reader accepts exactly the tokens of a strict tree, and returns its value.\<close>

lemma parse_tokens_iff:
  "(\<exists>token d d'. next_token (dec ts TopValue []) = Got token d \<and>
      parse_token (2 * Suc (length ts)) d token 1 = Some (v, d') \<and> next_token d' = Eof) \<longleftrightarrow>
   (\<exists>j. ts = jtoks j \<and> strict_tree 1 j \<and> v = value_of j)"
proof
  assume "\<exists>token d d'. next_token (dec ts TopValue []) = Got token d \<and>
      parse_token (2 * Suc (length ts)) d token 1 = Some (v, d') \<and> next_token d' = Eof"
  then obtain token d d' where run: "next_token (dec ts TopValue []) = Got token d"
      "parse_token (2 * Suc (length ts)) d token 1 = Some (v, d')" "next_token d' = Eof"
    by blast
  then obtain j us where j: "strict_tree 1 j" "v = value_of j" "ts = jtoks j @ us" "d' = dec us TopValue []"
    using all_read [of "2 * Suc (length ts)"] step_tokens(16,20) unfolding value_read_def by metis
  have "token_from us TopValue [] = Eof"
    using run(3) j(4) by (simp add: next_token_def)
  then have "us = []"
    by (cases us rule: list.exhaust; cases "hd us") (auto simp: token_defs)
  with j show "\<exists>j. ts = jtoks j \<and> strict_tree 1 j \<and> v = value_of j" by auto
next
  assume "\<exists>j. ts = jtoks j \<and> strict_tree 1 j \<and> v = value_of j"
  then obtain j where j: "ts = jtoks j" "strict_tree 1 j" "v = value_of j" by blast
  then have "reads (2 * Suc (length ts)) 1 j" by (intro tree_reads) simp_all
  then obtain token d where "next_token (dec (jtoks j @ []) TopValue []) = Got token d"
      "parse_token (2 * Suc (length ts)) d token 1 = Some (value_of j, dec [] TopValue [])"
    unfolding reads_def using step_tokens(16,20) by metis
  then show "\<exists>token d d'. next_token (dec ts TopValue []) = Got token d \<and>
      parse_token (2 * Suc (length ts)) d token 1 = Some (v, d') \<and> next_token d' = Eof"
    using j by (intro exI [of _ token] exI [of _ d] exI [of _ "dec [] TopValue []"]) (simp add: next_token_def)
qed

text \<open>Tokens determine the tree.\<close>

definition input_ok :: "input_reader \<Rightarrow> bool" where
  "input_ok r =
     (\<not> rd_fails r \<and> 0 < length (rd_data r) \<and> length (rd_data r) \<le> MaxInputBytes \<and>
      \<not> has_prefix (rd_data r) byte_order_mark \<and> valid_utf8 (rd_data r))"

lemma parse_strict_iff:
  "parse_strict r = Some v \<longleftrightarrow>
     input_ok r \<and> (\<exists>j. lex_json (rd_data r) = Some (jtoks j) \<and> strict_tree 1 j \<and> v = value_of j)"
proof (cases "input_ok r")
  case True
  then have data: "take (MaxInputBytes + 1) (rd_data r) = rd_data r"
    by (simp add: input_ok_def)
  have "parse_strict r = Some v \<longleftrightarrow> (\<exists>ts. lex_json (rd_data r) = Some ts \<and>
      (\<exists>token d d'. next_token (dec ts TopValue []) = Got token d \<and>
        parse_token (2 * Suc (length ts)) d token 1 = Some (v, d') \<and> next_token d' = Eof))"
    using True unfolding parse_strict_def data Let_def
    by (auto simp: input_ok_def split: option.splits token_result.splits simp del: parse_token.simps)
  then show ?thesis
    unfolding parse_tokens_iff using True by blast
next
  case False
  have "parse_strict r = None"
  proof (cases "length (rd_data r) \<le> MaxInputBytes")
    case True
    then have "take (MaxInputBytes + 1) (rd_data r) = rd_data r" by simp
    then show ?thesis
      using False True by (auto simp: input_ok_def parse_strict_def Let_def)
  next
    case False
    then show ?thesis by (simp add: parse_strict_def Let_def)
  qed
  with False show ?thesis by simp
qed

end
