(* ===== verification/LeasePlan.thy ===== *)
theory LeasePlan
  imports StrictJson GoTime Sha256
begin

text \<open>
  The lease planner (\<^verbatim>\<open>internal/model/model.go\<close>): the request and its strict parser, the lease
  transitions, the plan built from a request, and the plan's identifier. Counters and generations
  are 64-bit words.
\<close>

section \<open>Data\<close>

type_synonym u64 = "64 word"

definition APIVersion :: bytes where
  "APIVersion = ''pasturestack.io/vault-secrets-bridge/v1alpha1''"

definition ContractVersion :: u64 where "ContractVersion = 1"
definition MinTTLSeconds :: u64 where "MinTTLSeconds = 60"
definition MaxTTLSeconds :: u64 where "MaxTTLSeconds = 12 * 60 * 60"
definition MinWrapTTL :: u64 where "MinWrapTTL = 30"
definition MaxWrapTTL :: u64 where "MaxWrapTTL = 10 * 60"
definition MaxPolicyCount :: u64 where "MaxPolicyCount = 64"
definition MaxRenewalCount :: u64 where "MaxRenewalCount = 1000"
definition assertedUnverified :: bytes where "assertedUnverified = ''asserted-unverified''"

lemmas limit_defs =
  MinTTLSeconds_def MaxTTLSeconds_def MinWrapTTL_def MaxWrapTTL_def MaxPolicyCount_def MaxRenewalCount_def

record planLease =
  ls_leaseRef :: bytes
  ls_currentState :: bytes
  ls_observedGeneration :: u64
  ls_expectedGeneration :: u64
  ls_targetGeneration :: u64
  ls_renewalCount :: u64
  ls_policyCount :: u64
  ls_ttlSeconds :: u64
  ls_wrapTTLSeconds :: u64
  ls_renewable :: bool
  ls_notBefore :: bytes
  ls_expiresAt :: bytes

record planAssertions =
  as_subjectAuthenticated :: bool
  as_policyAuthorized :: bool
  as_issuerAttested :: bool
  as_transportProtected :: bool
  as_requestFresh :: bool

record planRequest =
  rq_operation :: bytes
  rq_requestRef :: bytes
  rq_subjectRef :: bytes
  rq_roleRef :: bytes
  rq_policySetRef :: bytes
  rq_audienceRef :: bytes
  rq_idempotencyRef :: bytes
  rq_lease :: planLease
  rq_assertions :: planAssertions

record planControls =
  ct_network :: bool
  ct_vaultAPI :: bool
  ct_metadataAPI :: bool
  ct_controlPlaneAPI :: bool
  ct_tokenRead :: bool
  ct_tokenWrite :: bool
  ct_keyRead :: bool
  ct_sign :: bool
  ct_verifySignature :: bool
  ct_encrypt :: bool
  ct_decrypt :: bool
  ct_filesystemWrite :: bool
  ct_tmpfs :: bool
  ct_bindMount :: bool
  ct_stateWrite :: bool
  ct_clockRead :: bool
  ct_execution :: bool

record assertionStatus =
  au_subjectAuthentication :: bytes
  au_policyAuthorization :: bytes
  au_issuerAttestation :: bytes
  au_transportProtection :: bytes
  au_requestFreshness :: bytes

record planSummary =
  sm_policyCount :: u64
  sm_ttlSeconds :: u64
  sm_wrapTTLSeconds :: u64
  sm_renewable :: bool
  sm_renewalCount :: u64

record planTransition =
  tn_fromState :: bytes
  tn_toState :: bytes
  tn_observedGeneration :: u64
  tn_expectedGeneration :: u64
  tn_targetGeneration :: u64
  tn_targetRenewalCount :: u64

record planStep =
  sp_id :: bytes
  sp_status :: bytes
  sp_effect :: bytes

record planGate =
  gt_id :: bytes
  gt_status :: bytes
  gt_satisfied :: bool

record plan =
  pl_planID :: bytes
  pl_operation :: bytes
  pl_transition :: planTransition
  pl_summary :: planSummary
  pl_assertions :: assertionStatus
  pl_steps :: "planStep list"
  pl_gates :: "planGate list"
  pl_diagnostics :: "bytes list"
  pl_controls :: planControls

section \<open>Reading members\<close>

text \<open>
  A lookup in a Go map gives the zero \<^verbatim>\<open>Value\<close> for a missing key, whose kind is none of the five;
  here it is \<open>None\<close>. There is one error, so it is \<open>None\<close> too.
\<close>

type_synonym strict_object = "(bytes, strict_value) gomap"

definition exactKeys :: "strict_object \<Rightarrow> bytes list \<Rightarrow> bool" where
  "exactKeys object keys =
     (if length object \<noteq> length keys then False
      else list_all (\<lambda>key. gm_get object key \<noteq> None) keys)"

definition objectValue :: "strict_value option \<Rightarrow> strict_object option" where
  "objectValue v = (case v of Some (KindObject m) \<Rightarrow> Some m | _ \<Rightarrow> None)"

definition stringValue :: "strict_value option \<Rightarrow> bytes option" where
  "stringValue v = (case v of Some (KindString s) \<Rightarrow> Some s | _ \<Rightarrow> None)"

definition boolValue :: "strict_value option \<Rightarrow> bool option" where
  "boolValue v = (case v of Some (KindBool b) \<Rightarrow> Some b | _ \<Rightarrow> None)"

definition unsignedValue :: "strict_value option \<Rightarrow> u64 option" where
  "unsignedValue v =
     (case v of Some (KindNumber n) \<Rightarrow> map_option of_nat (parse_uint 64 n) | _ \<Rightarrow> None)"

definition allowedString :: "strict_value option \<Rightarrow> bytes list \<Rightarrow> bytes option" where
  "allowedString v allowed =
     (case stringValue v of
        None \<Rightarrow> None
      | Some text \<Rightarrow> if list_ex (\<lambda>candidate. text = candidate) allowed then Some text else None)"

definition hex_rune :: "nat \<Rightarrow> bool" where
  "hex_rune r = (\<not> (\<not> (48 \<le> r \<and> r \<le> 57) \<and> \<not> (97 \<le> r \<and> r \<le> 102)))"

definition referenceValue :: "strict_value option \<Rightarrow> bytes option" where
  "referenceValue v =
     (case stringValue v of
        None \<Rightarrow> None
      | Some text \<Rightarrow>
          if length text \<noteq> length ''sha256:'' + 64 \<or> \<not> has_prefix text ''sha256:'' then None
          else if list_all hex_rune (runes (drop (length ''sha256:'') text)) then Some text else None)"

definition canonicalTimeValue :: "strict_value option \<Rightarrow> bytes option" where
  "canonicalTimeValue v =
     (case stringValue v of
        None \<Rightarrow> None
      | Some text \<Rightarrow>
          if length text \<noteq> length ''2006-01-02T15:04:05Z'' \<or> \<not> has_suffix text ''Z'' then None
          else (case parse_utc_seconds text of
                  None \<Rightarrow> None
                | Some t \<Rightarrow> if format_utc_seconds t \<noteq> text then None else Some text))"

fun unique_after :: "bytes list \<Rightarrow> bytes list \<Rightarrow> bool" where
  "unique_after seen [] = True"
| "unique_after seen (v # vs) = (if v \<in> set seen then False else unique_after (v # seen) vs)"

definition allUnique :: "bytes list \<Rightarrow> bool" where
  "allUnique values = unique_after [] values"

section \<open>Parsing a request\<close>

definition lease_keys :: "bytes list" where
  "lease_keys =
     [''leaseRef'', ''currentState'', ''observedGeneration'', ''expectedGeneration'',
      ''targetGeneration'', ''renewalCount'', ''policyCount'', ''ttlSeconds'',
      ''wrapTTLSeconds'', ''renewable'', ''notBefore'', ''expiresAt'']"

definition assertion_keys :: "bytes list" where
  "assertion_keys =
     [''subjectAuthenticated'', ''policyAuthorized'', ''issuerAttested'', ''transportProtected'', ''requestFresh'']"

definition request_keys :: "bytes list" where
  "request_keys =
     [''apiVersion'', ''operation'', ''requestRef'', ''subjectRef'', ''roleRef'',
      ''policySetRef'', ''audienceRef'', ''idempotencyRef'', ''lease'', ''assertions'']"

text \<open>
  \<^verbatim>\<open>time.Duration(ttl) * time.Second\<close> is a 64-bit product; with the limits checked before it does
  not wrap.
\<close>

definition seconds_duration :: "u64 \<Rightarrow> nanos" where
  "seconds_duration w = sint (w * of_int second)"

definition lease_limits_ok :: "planLease \<Rightarrow> bool" where
  "lease_limits_ok l =
     (\<not> (ls_policyCount l = 0 \<or> ls_policyCount l > MaxPolicyCount \<or>
         ls_ttlSeconds l < MinTTLSeconds \<or> ls_ttlSeconds l > MaxTTLSeconds \<or>
         ls_wrapTTLSeconds l < MinWrapTTL \<or> ls_wrapTTLSeconds l > MaxWrapTTL \<or>
         ls_wrapTTLSeconds l > ls_ttlSeconds l \<or> ls_renewalCount l > MaxRenewalCount))"

text \<open>The two parses drop their errors, which would leave the zero time, January 1 of year 1.\<close>

definition parse_or_zero :: "bytes \<Rightarrow> nanos" where
  "parse_or_zero s = (case parse_rfc3339 s of None \<Rightarrow> - 62135596800 * second | Some t \<Rightarrow> t)"

definition lease_times_ok :: "planLease \<Rightarrow> bool" where
  "lease_times_ok l =
     (let notBefore = parse_or_zero (ls_notBefore l); expiresAt = parse_or_zero (ls_expiresAt l)
      in \<not> (\<not> notBefore < expiresAt \<or>
            time_sub expiresAt notBefore \<noteq> seconds_duration (ls_ttlSeconds l)))"

definition parseLease :: "strict_value option \<Rightarrow> planLease option" where
  "parseLease v =
     do { object \<leftarrow> objectValue v;
          (if \<not> exactKeys object lease_keys then None else Some ());
          ref \<leftarrow> referenceValue (gm_get object ''leaseRef'');
          state \<leftarrow> allowedString (gm_get object ''currentState'') [''absent'', ''active'', ''revoked''];
          observed \<leftarrow> unsignedValue (gm_get object ''observedGeneration'');
          expected \<leftarrow> unsignedValue (gm_get object ''expectedGeneration'');
          target \<leftarrow> unsignedValue (gm_get object ''targetGeneration'');
          renewals \<leftarrow> unsignedValue (gm_get object ''renewalCount'');
          policies \<leftarrow> unsignedValue (gm_get object ''policyCount'');
          tokenTTL \<leftarrow> unsignedValue (gm_get object ''ttlSeconds'');
          wrapTTL \<leftarrow> unsignedValue (gm_get object ''wrapTTLSeconds'');
          let lease = \<lparr>ls_leaseRef = ref, ls_currentState = state, ls_observedGeneration = observed,
                       ls_expectedGeneration = expected, ls_targetGeneration = target,
                       ls_renewalCount = renewals, ls_policyCount = policies, ls_ttlSeconds = tokenTTL,
                       ls_wrapTTLSeconds = wrapTTL, ls_renewable = False, ls_notBefore = [],
                       ls_expiresAt = []\<rparr>;
          (if \<not> lease_limits_ok lease then None else Some ());
          renewable \<leftarrow> boolValue (gm_get object ''renewable'');
          notBefore \<leftarrow> canonicalTimeValue (gm_get object ''notBefore'');
          expiresAt \<leftarrow> canonicalTimeValue (gm_get object ''expiresAt'');
          let lease = lease\<lparr>ls_renewable := renewable, ls_notBefore := notBefore, ls_expiresAt := expiresAt\<rparr>;
          (if \<not> lease_times_ok lease then None else Some lease) }"

definition asserted :: "strict_object \<Rightarrow> bytes \<Rightarrow> bool option" where
  "asserted object key =
     (case boolValue (gm_get object key) of None \<Rightarrow> None | Some b \<Rightarrow> if \<not> b then None else Some b)"

definition parseAssertions :: "strict_value option \<Rightarrow> planAssertions option" where
  "parseAssertions v =
     do { object \<leftarrow> objectValue v;
          (if \<not> exactKeys object assertion_keys then None else Some ());
          a \<leftarrow> asserted object ''subjectAuthenticated'';
          b \<leftarrow> asserted object ''policyAuthorized'';
          c \<leftarrow> asserted object ''issuerAttested'';
          d \<leftarrow> asserted object ''transportProtected'';
          e \<leftarrow> asserted object ''requestFresh'';
          Some \<lparr>as_subjectAuthenticated = a, as_policyAuthorized = b, as_issuerAttested = c,
                as_transportProtected = d, as_requestFresh = e\<rparr> }"

definition validTransition :: "bytes \<Rightarrow> planLease \<Rightarrow> bool" where
  "validTransition operation l =
     (if ls_expectedGeneration l \<noteq> ls_observedGeneration l then False
      else if operation = ''issue'' then
        ls_currentState l = ''absent'' \<and> ls_observedGeneration l = 0 \<and>
        ls_targetGeneration l = 1 \<and> ls_renewalCount l = 0
      else if operation = ''renew'' then
        ls_currentState l = ''active'' \<and> ls_observedGeneration l > 0 \<and> ls_renewable l \<and>
        ls_targetGeneration l = ls_observedGeneration l \<and> ls_renewalCount l < MaxRenewalCount
      else if operation = ''rotate'' then
        ls_currentState l = ''active'' \<and> ls_observedGeneration l > 0 \<and>
        ls_observedGeneration l < NOT 0 \<and> ls_targetGeneration l = ls_observedGeneration l + 1
      else if operation = ''revoke'' then
        ls_currentState l = ''active'' \<and> ls_observedGeneration l > 0 \<and>
        ls_targetGeneration l = ls_observedGeneration l
      else False)"

definition request_refs :: "planRequest \<Rightarrow> bytes list" where
  "request_refs q =
     [rq_requestRef q, rq_subjectRef q, rq_roleRef q, rq_policySetRef q, rq_audienceRef q,
      rq_idempotencyRef q, ls_leaseRef (rq_lease q)]"

text \<open>The part of \<^verbatim>\<open>Parse\<close> after the document has been read.\<close>

definition parse_value :: "strict_value \<Rightarrow> planRequest option" where
  "parse_value v =
     do { root \<leftarrow> objectValue (Some v);
          (if \<not> exactKeys root request_keys then None else Some ());
          apiVersion \<leftarrow> stringValue (gm_get root ''apiVersion'');
          (if apiVersion \<noteq> APIVersion then None else Some ());
          operation \<leftarrow> allowedString (gm_get root ''operation'') [''issue'', ''renew'', ''rotate'', ''revoke''];
          requestRef \<leftarrow> referenceValue (gm_get root ''requestRef'');
          subjectRef \<leftarrow> referenceValue (gm_get root ''subjectRef'');
          roleRef \<leftarrow> referenceValue (gm_get root ''roleRef'');
          policySetRef \<leftarrow> referenceValue (gm_get root ''policySetRef'');
          audienceRef \<leftarrow> referenceValue (gm_get root ''audienceRef'');
          idempotencyRef \<leftarrow> referenceValue (gm_get root ''idempotencyRef'');
          lease \<leftarrow> parseLease (gm_get root ''lease'');
          assertions \<leftarrow> parseAssertions (gm_get root ''assertions'');
          let request = \<lparr>rq_operation = operation, rq_requestRef = requestRef, rq_subjectRef = subjectRef,
                         rq_roleRef = roleRef, rq_policySetRef = policySetRef, rq_audienceRef = audienceRef,
                         rq_idempotencyRef = idempotencyRef, rq_lease = lease, rq_assertions = assertions\<rparr>;
          (if \<not> allUnique (request_refs request) \<or> \<not> validTransition operation lease then None
           else Some request) }"

definition parse_plan_request :: "input_reader \<Rightarrow> planRequest option" where
  "parse_plan_request r = (case parse_strict r of None \<Rightarrow> None | Some v \<Rightarrow> parse_value v)"

end
