(* ===== verification/PlanBuild.thy ===== *)
theory PlanBuild
  imports LeasePlan Ascii
begin

text \<open>
  Building a plan (\<^verbatim>\<open>internal/model/model.go\<close>, \<^verbatim>\<open>BuildPlan\<close> and below): the transition, the blocked
  steps and gates, and the identifier, the SHA-256 of the normalised request.
\<close>

section \<open>The plan\<close>

definition targetState :: "bytes \<Rightarrow> bytes" where
  "targetState operation = (if operation = ''revoke'' then ''revoked'' else ''active'')"

definition targetRenewalCount :: "planRequest \<Rightarrow> u64" where
  "targetRenewalCount q =
     (if rq_operation q = ''renew'' then ls_renewalCount (rq_lease q) + 1
      else if rq_operation q = ''issue'' \<or> rq_operation q = ''rotate'' then 0
      else ls_renewalCount (rq_lease q))"

definition operation_steps :: "bytes \<Rightarrow> bytes list" where
  "operation_steps operation =
     (if operation = ''issue'' then [''create-scoped-lease'', ''wrap-token-material'']
      else if operation = ''renew'' then [''renew-lease'']
      else if operation = ''rotate'' then
        [''create-replacement-lease'', ''revoke-previous-lease'', ''switch-lease-atomically'', ''wrap-token-material'']
      else if operation = ''revoke'' then [''revoke-lease'']
      else [])"

definition common_steps :: "bytes list" where
  "common_steps =
     [''authenticate-subject'', ''authorize-policy-set'', ''persist-lease-state'',
      ''protect-transport'', ''verify-issuer-attestation'', ''verify-request-freshness'']"

definition blockedSteps :: "bytes \<Rightarrow> planStep list" where
  "blockedSteps operation =
     (let ids = sort (common_steps @ operation_steps operation)
      in map (\<lambda>id. \<lparr>sp_id = id, sp_status = ''blocked'', sp_effect = ''none''\<rparr>) ids)"

definition gate_ids :: "bytes list" where
  "gate_ids =
     [''atomic-rotation'', ''audit-write'', ''durable-idempotency'', ''issuer-attestation'',
      ''lease-state-lookup'', ''policy-authorization'', ''request-freshness'', ''request-signature-verification'',
      ''revoke-confirmation'', ''subject-authentication'', ''token-material-boundary'', ''trusted-clock'',
      ''vault-connectivity'']"

definition blockedGates :: "planGate list" where
  "blockedGates = map (\<lambda>id. \<lparr>gt_id = id, gt_status = ''blocked'', gt_satisfied = False\<rparr>) (sort gate_ids)"

definition RequestSummary :: "planRequest \<Rightarrow> planSummary" where
  "RequestSummary q =
     \<lparr>sm_policyCount = ls_policyCount (rq_lease q), sm_ttlSeconds = ls_ttlSeconds (rq_lease q),
      sm_wrapTTLSeconds = ls_wrapTTLSeconds (rq_lease q), sm_renewable = ls_renewable (rq_lease q),
      sm_renewalCount = ls_renewalCount (rq_lease q)\<rparr>"

definition UnverifiedAssertions :: assertionStatus where
  "UnverifiedAssertions =
     \<lparr>au_subjectAuthentication = assertedUnverified, au_policyAuthorization = assertedUnverified,
      au_issuerAttestation = assertedUnverified, au_transportProtection = assertedUnverified,
      au_requestFreshness = assertedUnverified\<rparr>"

definition DisabledControls :: planControls where
  "DisabledControls =
     \<lparr>ct_network = False, ct_vaultAPI = False, ct_metadataAPI = False, ct_controlPlaneAPI = False,
      ct_tokenRead = False, ct_tokenWrite = False, ct_keyRead = False, ct_sign = False,
      ct_verifySignature = False, ct_encrypt = False, ct_decrypt = False, ct_filesystemWrite = False,
      ct_tmpfs = False, ct_bindMount = False, ct_stateWrite = False, ct_clockRead = False,
      ct_execution = False\<rparr>"

definition plan_transition :: "planRequest \<Rightarrow> planTransition" where
  "plan_transition q =
     \<lparr>tn_fromState = ls_currentState (rq_lease q), tn_toState = targetState (rq_operation q),
      tn_observedGeneration = ls_observedGeneration (rq_lease q),
      tn_expectedGeneration = ls_expectedGeneration (rq_lease q),
      tn_targetGeneration = ls_targetGeneration (rq_lease q),
      tn_targetRenewalCount = targetRenewalCount q\<rparr>"

definition plan_diagnostics :: "bytes list" where
  "plan_diagnostics =
     [''assertions-unverified'', ''effects-disabled'', ''lease-state-unverified'', ''token-material-prohibited'']"

section \<open>The identifier\<close>

text \<open>The JSON documents of the request's parts, fields in declaration order.\<close>

definition u64_number :: "u64 \<Rightarrow> jv" where
  "u64_number w = JvNum (show_nat (unat w))"

definition lease_document :: "planLease \<Rightarrow> jv" where
  "lease_document l = JvObj
     [(''leaseRef'', JvStr (ls_leaseRef l)), (''currentState'', JvStr (ls_currentState l)),
      (''observedGeneration'', u64_number (ls_observedGeneration l)),
      (''expectedGeneration'', u64_number (ls_expectedGeneration l)),
      (''targetGeneration'', u64_number (ls_targetGeneration l)),
      (''renewalCount'', u64_number (ls_renewalCount l)), (''policyCount'', u64_number (ls_policyCount l)),
      (''ttlSeconds'', u64_number (ls_ttlSeconds l)), (''wrapTTLSeconds'', u64_number (ls_wrapTTLSeconds l)),
      (''renewable'', JvBool (ls_renewable l)), (''notBefore'', JvStr (ls_notBefore l)),
      (''expiresAt'', JvStr (ls_expiresAt l))]"

definition assertions_document :: "planAssertions \<Rightarrow> jv" where
  "assertions_document a = JvObj
     [(''subjectAuthenticated'', JvBool (as_subjectAuthenticated a)),
      (''policyAuthorized'', JvBool (as_policyAuthorized a)),
      (''issuerAttested'', JvBool (as_issuerAttested a)),
      (''transportProtected'', JvBool (as_transportProtected a)),
      (''requestFresh'', JvBool (as_requestFresh a))]"

definition plan_request_document :: "planRequest \<Rightarrow> jv" where
  "plan_request_document q = JvObj
     [(''apiVersion'', JvStr APIVersion), (''operation'', JvStr (rq_operation q)),
      (''requestRef'', JvStr (rq_requestRef q)), (''subjectRef'', JvStr (rq_subjectRef q)),
      (''roleRef'', JvStr (rq_roleRef q)), (''policySetRef'', JvStr (rq_policySetRef q)),
      (''audienceRef'', JvStr (rq_audienceRef q)), (''idempotencyRef'', JvStr (rq_idempotencyRef q)),
      (''lease'', lease_document (rq_lease q)), (''assertions'', assertions_document (rq_assertions q))]"

definition planID :: "planRequest \<Rightarrow> bytes" where
  "planID q = ''sha256:'' @ hex_encode (sha256 (json_encode True (plan_request_document q)))"

definition BuildPlan :: "planRequest \<Rightarrow> plan" where
  "BuildPlan q =
     \<lparr>pl_planID = planID q, pl_operation = rq_operation q, pl_transition = plan_transition q,
      pl_summary = RequestSummary q, pl_assertions = UnverifiedAssertions,
      pl_steps = blockedSteps (rq_operation q), pl_gates = blockedGates,
      pl_diagnostics = plan_diagnostics, pl_controls = DisabledControls\<rparr>"

section \<open>Well-formed requests\<close>

text \<open>The conditions a parsed request meets, as predicates on the data.\<close>

definition lower_hex :: "char \<Rightarrow> bool" where
  "lower_hex c = (48 \<le> byte_val c \<and> byte_val c \<le> 57 \<or> 97 \<le> byte_val c \<and> byte_val c \<le> 102)"

definition reference_text :: "bytes \<Rightarrow> bool" where
  "reference_text s = (\<exists>h. s = ''sha256:'' @ h \<and> length h = 64 \<and> list_all lower_hex h)"

definition canonical_time :: "bytes \<Rightarrow> bool" where
  "canonical_time s =
     (length s = 20 \<and> (\<exists>t. parse_utc_seconds s = Some t \<and> format_utc_seconds t = s))"

definition lease_ok :: "planLease \<Rightarrow> bool" where
  "lease_ok l =
     (reference_text (ls_leaseRef l) \<and> ls_currentState l \<in> {''absent'', ''active'', ''revoked''} \<and>
      lease_limits_ok l \<and> canonical_time (ls_notBefore l) \<and> canonical_time (ls_expiresAt l) \<and>
      lease_times_ok l)"

definition assertions_ok :: "planAssertions \<Rightarrow> bool" where
  "assertions_ok a =
     (as_subjectAuthenticated a \<and> as_policyAuthorized a \<and> as_issuerAttested a \<and>
      as_transportProtected a \<and> as_requestFresh a)"

definition plan_request_ok :: "planRequest \<Rightarrow> bool" where
  "plan_request_ok q =
     (rq_operation q \<in> {''issue'', ''renew'', ''rotate'', ''revoke''} \<and>
      list_all reference_text (request_refs q) \<and> distinct (request_refs q) \<and>
      lease_ok (rq_lease q) \<and> assertions_ok (rq_assertions q) \<and>
      validTransition (rq_operation q) (rq_lease q))"

lemma stringValue_iff: "stringValue v = Some s \<longleftrightarrow> v = Some (KindString s)"
  by (auto simp: stringValue_def split: option.splits strict_value.splits)

lemma reference_text_iff:
  "reference_text s \<longleftrightarrow> length s = length ''sha256:'' + 64 \<and> has_prefix s ''sha256:'' \<and>
     list_all lower_hex (drop (length ''sha256:'') s)"
  unfolding reference_text_def has_prefix_iff by force

lemma hex_runes: "list_all hex_rune (runes h) \<longleftrightarrow> list_all lower_hex h"
proof -
  have "list_all hex_rune (runes h) \<longleftrightarrow> list_all (\<lambda>c. hex_rune (byte_val c)) h"
    by (rule runes_all_ascii) (auto simp: hex_rune_def)
  then show ?thesis by (simp add: hex_rune_def lower_hex_def [abs_def])
qed

lemma referenceValue_iff:
  "referenceValue v = Some s \<longleftrightarrow> v = Some (KindString s) \<and> reference_text s"
  unfolding referenceValue_def hex_runes reference_text_iff stringValue_iff [symmetric]
  by (auto simp del: has_prefix.simps list.size split: option.splits)

lemma has_suffix_app: "has_suffix s p \<Longrightarrow> has_suffix (a @ s) p"
  by (auto simp: has_suffix_iff)

lemma format_utc_Z: "has_suffix (format_utc_seconds t) ''Z''"
  unfolding format_utc_seconds_def Let_def split_beta
  by (intro has_suffix_app) (simp add: has_suffix_iff)

lemma canonicalTimeValue_iff:
  "canonicalTimeValue v = Some s \<longleftrightarrow> v = Some (KindString s) \<and> canonical_time s"
  using format_utc_Z
  by (auto simp: canonicalTimeValue_def stringValue_def canonical_time_def
      split: option.splits strict_value.splits)

end
