(* ===== verification/PlanProps.thy ===== *)
theory PlanProps
  imports PlanBuild
begin

text \<open>
  The properties of the planner (\<^verbatim>\<open>internal/model/model.go\<close> over \<^verbatim>\<open>internal/strictjson\<close>): which
  requests exist, that their transitions are exact, what a plan contains and what its identifier
  determines.
\<close>

section \<open>What the parser returns\<close>

definition lease_members :: "strict_object \<Rightarrow> planLease \<Rightarrow> bool" where
  "lease_members m l \<longleftrightarrow>
     gm_get m ''leaseRef'' = Some (KindString (ls_leaseRef l)) \<and>
     gm_get m ''currentState'' = Some (KindString (ls_currentState l)) \<and>
     unsignedValue (gm_get m ''observedGeneration'') = Some (ls_observedGeneration l) \<and>
     unsignedValue (gm_get m ''expectedGeneration'') = Some (ls_expectedGeneration l) \<and>
     unsignedValue (gm_get m ''targetGeneration'') = Some (ls_targetGeneration l) \<and>
     unsignedValue (gm_get m ''renewalCount'') = Some (ls_renewalCount l) \<and>
     unsignedValue (gm_get m ''policyCount'') = Some (ls_policyCount l) \<and>
     unsignedValue (gm_get m ''ttlSeconds'') = Some (ls_ttlSeconds l) \<and>
     unsignedValue (gm_get m ''wrapTTLSeconds'') = Some (ls_wrapTTLSeconds l) \<and>
     gm_get m ''renewable'' = Some (KindBool (ls_renewable l)) \<and>
     gm_get m ''notBefore'' = Some (KindString (ls_notBefore l)) \<and>
     gm_get m ''expiresAt'' = Some (KindString (ls_expiresAt l))"

lemma objectValue_iff: "objectValue v = Some m \<longleftrightarrow> v = Some (KindObject m)"
  by (auto simp: objectValue_def split: option.splits strict_value.splits)

lemma boolValue_iff: "boolValue v = Some b \<longleftrightarrow> v = Some (KindBool b)"
  by (auto simp: boolValue_def split: option.splits strict_value.splits)

lemma allowedString_iff: "allowedString v as = Some s \<longleftrightarrow> v = Some (KindString s) \<and> s \<in> set as"
  by (auto simp: allowedString_def stringValue_def list_ex_iff split: option.splits strict_value.splits)

lemma guard_iff: "(if \<not> b then None else Some x) = Some y \<longleftrightarrow> b \<and> x = y"
  by simp

lemmas member_iffs =
  objectValue_iff boolValue_iff allowedString_iff referenceValue_iff canonicalTimeValue_iff
  stringValue_iff guard_iff bind_eq_Some_conv

lemma parseLease_iff:
  "parseLease v = Some l \<longleftrightarrow>
     (\<exists>m. v = Some (KindObject m) \<and> exactKeys m lease_keys \<and> lease_members m l \<and> lease_ok l)"
  (is "_ \<longleftrightarrow> ?rhs")
proof
  assume "parseLease v = Some l"
  then show ?rhs
    by (auto simp: parseLease_def member_iffs lease_members_def lease_ok_def lease_limits_ok_def Let_def
        simp del: not_None_eq)
next
  assume ?rhs
  then obtain m where m: "objectValue v = Some m" "exactKeys m lease_keys" "lease_members m l" "lease_ok l"
    by (auto simp: objectValue_def)
  from m(3,4) have members:
      "referenceValue (gm_get m ''leaseRef'') = Some (ls_leaseRef l)"
      "allowedString (gm_get m ''currentState'') [''absent'', ''active'', ''revoked''] = Some (ls_currentState l)"
      "boolValue (gm_get m ''renewable'') = Some (ls_renewable l)"
      "canonicalTimeValue (gm_get m ''notBefore'') = Some (ls_notBefore l)"
      "canonicalTimeValue (gm_get m ''expiresAt'') = Some (ls_expiresAt l)"
    by (simp_all add: member_iffs lease_members_def lease_ok_def)
  show "parseLease v = Some l"
  proof (cases l)
    case (fields a b c d e f g h i j k n)
    then show ?thesis
      using m members by (simp add: parseLease_def lease_members_def lease_ok_def lease_limits_ok_def)
  qed
qed

lemma asserted_iff: "asserted m k = Some b \<longleftrightarrow> b \<and> gm_get m k = Some (KindBool True)"
  by (auto simp: asserted_def boolValue_def split: option.splits strict_value.splits)

lemma parseAssertions_iff:
  "parseAssertions v = Some a \<longleftrightarrow>
     (\<exists>m. v = Some (KindObject m) \<and> exactKeys m assertion_keys \<and>
        list_all (\<lambda>k. gm_get m k = Some (KindBool True)) assertion_keys \<and> assertions_ok a)"
  by (cases a) (auto simp: parseAssertions_def member_iffs asserted_iff assertion_keys_def assertions_ok_def)

definition request_members :: "strict_object \<Rightarrow> planRequest \<Rightarrow> bool" where
  "request_members m q \<longleftrightarrow>
     gm_get m ''apiVersion'' = Some (KindString APIVersion) \<and>
     gm_get m ''operation'' = Some (KindString (rq_operation q)) \<and>
     gm_get m ''requestRef'' = Some (KindString (rq_requestRef q)) \<and>
     gm_get m ''subjectRef'' = Some (KindString (rq_subjectRef q)) \<and>
     gm_get m ''roleRef'' = Some (KindString (rq_roleRef q)) \<and>
     gm_get m ''policySetRef'' = Some (KindString (rq_policySetRef q)) \<and>
     gm_get m ''audienceRef'' = Some (KindString (rq_audienceRef q)) \<and>
     gm_get m ''idempotencyRef'' = Some (KindString (rq_idempotencyRef q)) \<and>
     parseLease (gm_get m ''lease'') = Some (rq_lease q) \<and>
     parseAssertions (gm_get m ''assertions'') = Some (rq_assertions q)"

lemma unique_after_iff: "unique_after seen vs \<longleftrightarrow> distinct vs \<and> set vs \<inter> set seen = {}"
  by (induction seen vs rule: unique_after.induct) auto

lemma allUnique_iff: "allUnique vs \<longleftrightarrow> distinct vs"
  by (simp add: allUnique_def unique_after_iff)

lemma parse_value_iff:
  "parse_value v = Some q \<longleftrightarrow>
     (\<exists>m. v = KindObject m \<and> exactKeys m request_keys \<and> request_members m q \<and> plan_request_ok q)"
  (is "_ \<longleftrightarrow> ?rhs")
proof
  assume run: "parse_value v = Some q"
  obtain m op r1 r2 r3 r4 r5 r6 l a where m: "v = KindObject m" "exactKeys m request_keys"
      "stringValue (gm_get m ''apiVersion'') = Some APIVersion"
      "allowedString (gm_get m ''operation'') [''issue'', ''renew'', ''rotate'', ''revoke''] = Some op"
      "referenceValue (gm_get m ''requestRef'') = Some r1" "referenceValue (gm_get m ''subjectRef'') = Some r2"
      "referenceValue (gm_get m ''roleRef'') = Some r3" "referenceValue (gm_get m ''policySetRef'') = Some r4"
      "referenceValue (gm_get m ''audienceRef'') = Some r5" "referenceValue (gm_get m ''idempotencyRef'') = Some r6"
      "parseLease (gm_get m ''lease'') = Some l" "parseAssertions (gm_get m ''assertions'') = Some a"
    and q: "q = \<lparr>rq_operation = op, rq_requestRef = r1, rq_subjectRef = r2, rq_roleRef = r3,
        rq_policySetRef = r4, rq_audienceRef = r5, rq_idempotencyRef = r6, rq_lease = l, rq_assertions = a\<rparr>"
      "allUnique (request_refs q)" "validTransition op l"
    using run unfolding parse_value_def bind_eq_Some_conv objectValue_iff guard_iff Let_def
    by (auto split: if_splits)
  have "lease_ok l" "assertions_ok a"
    using m(11,12) by (auto simp: parseLease_iff parseAssertions_iff)
  moreover from this have "reference_text (ls_leaseRef l)"
    by (simp add: lease_ok_def)
  ultimately show ?rhs
    using m q by (intro exI [of _ m])
      (simp add: request_members_def plan_request_ok_def allUnique_iff request_refs_def
        allowedString_iff referenceValue_iff stringValue_iff)
next
  assume ?rhs
  then obtain m where m: "v = KindObject m" "exactKeys m request_keys" "request_members m q" "plan_request_ok q"
    by blast
  from m(3,4) have members:
      "stringValue (gm_get m ''apiVersion'') = Some APIVersion"
      "allowedString (gm_get m ''operation'') [''issue'', ''renew'', ''rotate'', ''revoke''] = Some (rq_operation q)"
      "referenceValue (gm_get m ''requestRef'') = Some (rq_requestRef q)"
      "referenceValue (gm_get m ''subjectRef'') = Some (rq_subjectRef q)"
      "referenceValue (gm_get m ''roleRef'') = Some (rq_roleRef q)"
      "referenceValue (gm_get m ''policySetRef'') = Some (rq_policySetRef q)"
      "referenceValue (gm_get m ''audienceRef'') = Some (rq_audienceRef q)"
      "referenceValue (gm_get m ''idempotencyRef'') = Some (rq_idempotencyRef q)"
    by (simp_all add: member_iffs request_members_def plan_request_ok_def request_refs_def)
  show "parse_value v = Some q"
    using m members
    by (cases q) (simp add: parse_value_def objectValue_def request_members_def plan_request_ok_def allUnique_iff
        request_refs_def)
qed

section \<open>The document of a request\<close>

lemma digit_byte: "json_digit c \<longleftrightarrow> 48 \<le> byte_val c \<and> byte_val c \<le> 57"
  by (simp add: json_digit_def digit_val_def Let_def)

lemma canonical_show_nat [simp]: "canonicalUnsignedNumber (show_nat n)"
proof (cases "n = 0")
  case True
  then show ?thesis by (simp add: canonicalUnsignedNumber_def show_nat.simps digit_char_0)
next
  case False
  obtain c t where ct: "show_nat n = c # t" by (cases "show_nat n") simp_all
  have "c \<noteq> CHR ''0''" using show_nat_head [of n] False ct by simp
  then have "byte_val c \<noteq> byte_val CHR ''0''" by (simp only: of_char_eq_iff not_False_eq_True)
  then have "byte_val c \<noteq> 48" by simp
  moreover have "list_all json_digit (c # t)" using show_nat_digits [of n] ct by simp
  ultimately show ?thesis
    by (auto simp: canonicalUnsignedNumber_def ct digit_byte list_all_iff)
qed

lemma unsigned_show [simp]: "unsignedValue (Some (KindNumber (show_nat (unat w)))) = Some w"
proof -
  have "parse_uint 64 (show_nat (unat w)) = Some (unat w)"
    by (rule parse_uint_show_nat) (use unsigned_less [of w] in simp)
  then show ?thesis by (simp add: unsignedValue_def)
qed

lemmas document_defs =
  plan_request_document_def lease_document_def assertions_document_def u64_number_def

lemma strict_request_document: "strict_tree 1 (plan_request_document q)"
  by (simp add: document_defs MaxDepth_def)

lemma parse_document_value:
  assumes "plan_request_ok q"
  shows "parse_value (value_of (plan_request_document q)) = Some q"
proof -
  have lease: "parseLease (Some (value_of (lease_document (rq_lease q)))) = Some (rq_lease q)"
    using assms
    by (simp add: parseLease_iff plan_request_ok_def lease_document_def u64_number_def exactKeys_def
        lease_keys_def lease_members_def gm_get_def)
  have asserts: "parseAssertions (Some (value_of (assertions_document (rq_assertions q)))) = Some (rq_assertions q)"
    using assms
    by (simp add: parseAssertions_iff plan_request_ok_def assertions_document_def exactKeys_def
        assertion_keys_def gm_get_def assertions_ok_def)
  show ?thesis
    using assms lease asserts
    by (simp add: parse_value_iff plan_request_document_def exactKeys_def request_keys_def request_members_def
        gm_get_def)
qed

lemma ascii_reference: "reference_text s \<Longrightarrow> ascii s \<and> length s = 71"
  by (fastforce simp: reference_text_def ascii_def list_all_iff lower_hex_def)

lemma ascii_pad_left: "ascii s \<Longrightarrow> ascii (pad_left n s)"
  by (auto simp: pad_left_def ascii_def list_all_iff)

lemma ascii_canonical_time: "canonical_time s \<Longrightarrow> ascii s \<and> length s = 20"
proof -
  assume "canonical_time s"
  then obtain t where t: "length s = 20" "format_utc_seconds t = s"
    by (auto simp: canonical_time_def)
  have "ascii (format_utc_seconds t)"
    unfolding format_utc_seconds_def Let_def split_beta pad2_def by (simp add: ascii_pad_left)
  with t show ?thesis by simp
qed

lemma length_u64: "length (show_nat (unat (w :: u64))) \<le> 20"
proof -
  have "unat w < 2 ^ 64" using unsigned_less [of w] by simp
  then have "unat w < 10 ^ 20" by simp
  then show ?thesis by (rule length_show_nat) simp
qed

text \<open>The strings of a well-formed request are short ASCII text.\<close>

lemma request_texts:
  assumes "plan_request_ok q"
    and that: "x \<in> set (request_refs q @ [rq_operation q, ls_currentState (rq_lease q),
      ls_notBefore (rq_lease q), ls_expiresAt (rq_lease q)])"
  shows "ascii x \<and> length x \<le> 71"
proof -
  consider "x \<in> set (request_refs q)" | "x \<in> {''issue'', ''renew'', ''rotate'', ''revoke'', ''absent'', ''active'', ''revoked''}"
    | "canonical_time x"
    using that assms by (auto simp: plan_request_ok_def lease_ok_def)
  then show ?thesis
  proof cases
    case 1
    then show ?thesis using assms ascii_reference by (auto simp: plan_request_ok_def list_all_iff)
  next
    case 2
    then show ?thesis by auto
  next
    case 3
    then show ?thesis using ascii_canonical_time by auto
  qed
qed

lemma request_document_text:
  assumes "plan_request_ok q"
  shows "jv_ascii (plan_request_document q)" and "jv_size (plan_request_document q) \<le> 16384"
    and "jv_wf (plan_request_document q)" and "jv_depth (plan_request_document q) = 2"
proof -
  have x: "ascii (rq_operation q)" "ascii (rq_requestRef q)" "ascii (rq_subjectRef q)" "ascii (rq_roleRef q)"
      "ascii (rq_policySetRef q)" "ascii (rq_audienceRef q)" "ascii (rq_idempotencyRef q)"
      "ascii (ls_leaseRef (rq_lease q))" "ascii (ls_currentState (rq_lease q))"
      "ascii (ls_notBefore (rq_lease q))" "ascii (ls_expiresAt (rq_lease q))"
    using request_texts [OF assms] by (simp_all add: request_refs_def)
  have l: "length (rq_operation q) \<le> 71" "length (rq_requestRef q) \<le> 71" "length (rq_subjectRef q) \<le> 71"
      "length (rq_roleRef q) \<le> 71" "length (rq_policySetRef q) \<le> 71" "length (rq_audienceRef q) \<le> 71"
      "length (rq_idempotencyRef q) \<le> 71" "length (ls_leaseRef (rq_lease q)) \<le> 71"
      "length (ls_currentState (rq_lease q)) \<le> 71" "length (ls_notBefore (rq_lease q)) \<le> 71"
      "length (ls_expiresAt (rq_lease q)) \<le> 71"
    using request_texts [OF assms] by (simp_all add: request_refs_def)
  show "jv_ascii (plan_request_document q)"
    using x by (simp add: document_defs APIVersion_def)
  show "jv_wf (plan_request_document q)"
    using x by (simp add: document_defs APIVersion_def ascii_utf8)
  show "jv_depth (plan_request_document q) = 2"
    by (simp add: document_defs)
  have "jv_size (lease_document (rq_lease q)) \<le> 4096"
    using l(8-11) length_u64 [of "ls_observedGeneration (rq_lease q)"] length_u64 [of "ls_expectedGeneration (rq_lease q)"]
      length_u64 [of "ls_targetGeneration (rq_lease q)"] length_u64 [of "ls_renewalCount (rq_lease q)"]
      length_u64 [of "ls_policyCount (rq_lease q)"] length_u64 [of "ls_ttlSeconds (rq_lease q)"]
      length_u64 [of "ls_wrapTTLSeconds (rq_lease q)"]
    by (simp add: lease_document_def u64_number_def)
  then show "jv_size (plan_request_document q) \<le> 16384"
    using l(1-7) by (simp add: plan_request_document_def assertions_document_def APIVersion_def)
qed

lemma ascii_no_mark: "ascii s \<Longrightarrow> \<not> has_prefix s byte_order_mark"
  by (cases s) (auto simp: byte_order_mark_def)

definition request_text :: "planRequest \<Rightarrow> input_reader" where
  "request_text q = \<lparr>rd_data = json_encode True (plan_request_document q), rd_fails = False\<rparr>"

lemma json_object_start: "json_encode h (JvObj ms) \<noteq> []" "hd (json_encode h (JvObj ms)) = CHR ''{''"
  by simp_all

lemma parse_request_text:
  assumes "plan_request_ok q"
  shows "parse_plan_request (request_text q) = Some q"
proof -
  let ?s = "json_encode True (plan_request_document q)"
  have lex: "lex_json ?s = Some (jtoks (plan_request_document q))"
    using lex_json_encode [OF request_document_text(3) [OF assms], of "[]" True] by (simp add: json_delim_def)
  have len: "length ?s \<le> MaxInputBytes"
    using length_json_encode [OF request_document_text(1) [OF assms], of True] request_document_text(2) [OF assms]
    by (simp add: MaxInputBytes_def)
  obtain t where t: "?s = CHR ''{'' # t"
    by (simp add: plan_request_document_def)
  have "ascii ?s"
    using request_document_text(1) [OF assms] by (rule ascii_json_encode)
  then have "input_ok (request_text q)"
    using len t ascii_no_mark by (simp add: input_ok_def request_text_def ascii_utf8)
  then have "parse_strict (request_text q) = Some (value_of (plan_request_document q))"
    unfolding parse_strict_iff using lex strict_request_document by (auto simp: request_text_def)
  then show ?thesis
    using parse_document_value [OF assms] by (simp add: parse_plan_request_def)
qed

section \<open>Properties\<close>

text \<open>
  C29: the strict reader accepts exactly the non-empty inputs of at most 2 MiB, in valid UTF-8 and
  without a byte order mark, whose tokens are those of one tree without null, with distinct keys
  in every object, canonical unsigned numbers only and at most sixteen levels; it returns that
  tree's value.
\<close>

theorem strict_reader_exact:
  "parse_strict r = Some v \<longleftrightarrow>
     input_ok r \<and> (\<exists>j. lex_json (rd_data r) = Some (jtoks j) \<and> strict_tree 1 j \<and> v = value_of j)"
  by (rule parse_strict_iff)

text \<open>
  C30: the requests the planner's parser can return are exactly the well-formed ones: a known
  operation, seven distinct SHA-256 references, all assertions true, a lease within its limits
  whose canonical times differ by exactly its time to live, and a valid transition.
\<close>

theorem plan_requests_exact:
  "(\<exists>r. parse_plan_request r = Some q) \<longleftrightarrow> plan_request_ok q"
proof
  assume "\<exists>r. parse_plan_request r = Some q"
  then show "plan_request_ok q"
    by (auto simp: parse_plan_request_def parse_value_iff split: option.splits)
next
  assume "plan_request_ok q"
  then show "\<exists>r. parse_plan_request r = Some q"
    using parse_request_text by blast
qed

lemma parse_ok: "parse_plan_request r = Some q \<Longrightarrow> plan_request_ok q"
  by (auto simp: parse_plan_request_def parse_value_iff split: option.splits)

definition demo_ref :: "char \<Rightarrow> bytes" where
  "demo_ref c = ''sha256:'' @ replicate 64 c"

definition demo_request :: planRequest where
  "demo_request =
     \<lparr>rq_operation = ''rotate'', rq_requestRef = demo_ref CHR ''0'', rq_subjectRef = demo_ref CHR ''1'',
      rq_roleRef = demo_ref CHR ''2'', rq_policySetRef = demo_ref CHR ''3'', rq_audienceRef = demo_ref CHR ''4'',
      rq_idempotencyRef = demo_ref CHR ''5'',
      rq_lease =
        \<lparr>ls_leaseRef = demo_ref CHR ''6'', ls_currentState = ''active'', ls_observedGeneration = 2 ^ 64 - 2,
         ls_expectedGeneration = 2 ^ 64 - 2, ls_targetGeneration = 2 ^ 64 - 1, ls_renewalCount = 3,
         ls_policyCount = 1, ls_ttlSeconds = 60, ls_wrapTTLSeconds = 30, ls_renewable = True,
         ls_notBefore = ''2026-01-01T00:00:00Z'', ls_expiresAt = ''2026-01-01T00:01:00Z''\<rparr>,
      rq_assertions =
        \<lparr>as_subjectAuthenticated = True, as_policyAuthorized = True, as_issuerAttested = True,
         as_transportProtected = True, as_requestFresh = True\<rparr>\<rparr>"

lemma demo_ref_text: "lower_hex c \<Longrightarrow> reference_text (demo_ref c)"
  by (auto simp: demo_ref_def reference_text_def list_all_iff)

lemma demo_ref_inj: "demo_ref c = demo_ref d \<longleftrightarrow> c = d"
  by (simp add: demo_ref_def)

lemma canonical_timeI:
  "length s = 20 \<Longrightarrow> map_option format_utc_seconds (parse_utc_seconds s) = Some s \<Longrightarrow> canonical_time s"
  by (auto simp: canonical_time_def)

lemma demo_request_ok: "plan_request_ok demo_request"
proof -
  have refs: "list_all reference_text (request_refs demo_request)"
    by (simp add: demo_request_def request_refs_def demo_ref_text lower_hex_def)
  have dist: "distinct (request_refs demo_request)"
    by (simp add: demo_request_def request_refs_def demo_ref_inj)
  have times: "canonical_time ''2026-01-01T00:00:00Z''" "canonical_time ''2026-01-01T00:01:00Z''"
    by (rule canonical_timeI; code_simp)+
  have window: "lease_times_ok (rq_lease demo_request)"
    by code_simp
  have limits: "lease_limits_ok (rq_lease demo_request)"
    by code_simp
  have trans: "validTransition ''rotate'' (rq_lease demo_request)"
    by code_simp
  show ?thesis
    using refs dist times window limits trans
    by (simp add: plan_request_ok_def lease_ok_def assertions_ok_def)
      (simp add: demo_request_def request_refs_def)
qed

text \<open>
  C34: a well-formed request survives its JSON encoding: the parser gives back the request from its
  document.
\<close>

theorem plan_request_roundtrip:
  assumes "plan_request_ok q"
  shows "parse_plan_request (request_text q) = Some q"
  using assms by (rule parse_request_text)

theorem plan_request_roundtrip_witness: "parse_plan_request (request_text demo_request) = Some demo_request"
  by (rule plan_request_roundtrip) (rule demo_request_ok)

lemma expect_Some: "expect c s = Some r \<longleftrightarrow> s = c # r"
  by (auto simp: expect_def split: list.splits if_splits)

lemma parse_utc_civil: "parse_utc_seconds s = Some t \<Longrightarrow> \<exists>c. get_civil s = Some (c, ''Z'') \<and> t = instant_of c 0"
  by (auto simp: parse_utc_seconds_def bind_eq_Some_conv expect_Some split: if_splits)

lemma canonical_rfc3339: "canonical_time s \<Longrightarrow> \<exists>t. parse_rfc3339 s = Some t"
  using parse_utc_civil [of s] by (auto simp: canonical_time_def parse_rfc3339_def get_zone_def)

lemma ttl_nanos:
  assumes "w \<le> MaxTTLSeconds"
  obtains k where "uint w = k" "int (unat w) = k" "0 \<le> k" "k \<le> 43200"
proof (rule that [of "uint w"])
  show "uint w \<le> 43200"
    using assms by (simp add: MaxTTLSeconds_def word_le_def)
qed simp_all

lemma seconds_duration_exact:
  assumes "w \<le> MaxTTLSeconds"
  shows "seconds_duration w = int (unat w) * second"
proof -
  obtain k where k: "uint w = k" "int (unat w) = k" "0 \<le> k" "k \<le> 43200"
    using assms by (rule ttl_nanos)
  have "w * of_int second = word_of_int (uint w * second)"
    by simp
  then have prod: "w * of_int second = word_of_int (k * second)"
    unfolding k(1) .
  then show ?thesis
    unfolding seconds_duration_def prod sint_sbintrunc' k(2)
    using signed_take_bit_int_eq_self [of 63 "k * second"] k(3,4) by (simp add: second_def)
qed
text \<open>
  C32: in an accepted request the two times of the lease are instants exactly its time to live
  apart, computed without wrap-around; the time to live is between one minute and twelve hours,
  the wrap time between thirty seconds and ten minutes and not above it.
\<close>

theorem lease_window_exact:
  assumes "parse_plan_request r = Some q"
  shows "\<exists>b. parse_rfc3339 (ls_notBefore (rq_lease q)) = Some b \<and>
     parse_rfc3339 (ls_expiresAt (rq_lease q)) = Some (b + int (unat (ls_ttlSeconds (rq_lease q))) * second) \<and>
     unat (ls_ttlSeconds (rq_lease q)) \<in> {60..43200} \<and>
     unat (ls_wrapTTLSeconds (rq_lease q)) \<in> {30..600} \<and>
     ls_wrapTTLSeconds (rq_lease q) \<le> ls_ttlSeconds (rq_lease q)"
proof -
  let ?l = "rq_lease q"
  have ok: "lease_ok ?l" using parse_ok [OF assms] by (simp add: plan_request_ok_def)
  then have limits: "lease_limits_ok ?l" and times: "lease_times_ok ?l"
    by (simp_all add: lease_ok_def)
  obtain b e where be: "parse_rfc3339 (ls_notBefore ?l) = Some b" "parse_rfc3339 (ls_expiresAt ?l) = Some e"
    using ok canonical_rfc3339 unfolding lease_ok_def by blast
  have nums: "unat (ls_ttlSeconds ?l) \<in> {60..43200}" "unat (ls_wrapTTLSeconds ?l) \<in> {30..600}"
      "ls_wrapTTLSeconds ?l \<le> ls_ttlSeconds ?l" "ls_ttlSeconds ?l \<le> MaxTTLSeconds"
    using limits by (auto simp: lease_limits_ok_def limit_defs not_less word_le_nat_alt)
  have "time_sub e b = int (unat (ls_ttlSeconds ?l)) * second"
    using times be seconds_duration_exact [OF nums(4)] by (simp add: lease_times_ok_def parse_or_zero_def Let_def)
  moreover obtain k where "int (unat (ls_ttlSeconds ?l)) = k" "0 \<le> k" "k \<le> 43200"
    using nums(4) by (rule ttl_nanos)
  moreover from calculation have "time_sub e b = e - b"
    by (intro time_sub_exact) (simp_all add: second_def min_duration_def max_duration_def)
  ultimately have "e = b + int (unat (ls_ttlSeconds ?l)) * second" by simp
  with be nums show ?thesis by (intro exI [of _ b]) simp
qed

theorem lease_window_exact_witness:
  "\<exists>b. parse_rfc3339 ''2026-01-01T00:00:00Z'' = Some b \<and>
     parse_rfc3339 ''2026-01-01T00:01:00Z'' = Some (b + 60 * second)"
  using lease_window_exact [OF parse_request_text [OF demo_request_ok]] by (simp add: demo_request_def)

lemma u64_succ: "w \<noteq> - 1 \<Longrightarrow> unat (w + 1) = unat w + 1" for w :: u64
  by (metis add.commute add_eq_0_iff plus_1_eq_Suc unatSuc)

lemmas transition_defs =
  BuildPlan_def plan_transition_def validTransition_def targetState_def targetRenewalCount_def

text \<open>
  C31: the transition of an accepted request is exact over the naturals, so no counter wraps: the
  target generation is the observed one, plus one for an issue or a rotation; the target renewal
  count is one more for a renewal, unchanged for a revocation and zero otherwise, never above the
  limit; and the states are those of the operation.
\<close>

theorem transition_exact:
  assumes "parse_plan_request r = Some q"
  shows "tn_fromState (pl_transition (BuildPlan q)) =
       (if rq_operation q = ''issue'' then ''absent'' else ''active'') \<and>
     tn_toState (pl_transition (BuildPlan q)) =
       (if rq_operation q = ''revoke'' then ''revoked'' else ''active'') \<and>
     tn_expectedGeneration (pl_transition (BuildPlan q)) = tn_observedGeneration (pl_transition (BuildPlan q)) \<and>
     unat (tn_targetGeneration (pl_transition (BuildPlan q))) =
       unat (tn_observedGeneration (pl_transition (BuildPlan q))) +
       (if rq_operation q \<in> {''issue'', ''rotate''} then 1 else 0) \<and>
     unat (tn_targetRenewalCount (pl_transition (BuildPlan q))) =
       (if rq_operation q = ''renew'' then unat (ls_renewalCount (rq_lease q)) + 1
        else if rq_operation q = ''revoke'' then unat (ls_renewalCount (rq_lease q)) else 0) \<and>
     unat (tn_targetRenewalCount (pl_transition (BuildPlan q))) \<le> 1000"
proof -
  let ?l = "rq_lease q"
  have ok: "validTransition (rq_operation q) ?l" "rq_operation q \<in> {''issue'', ''renew'', ''rotate'', ''revoke''}"
      "lease_limits_ok ?l"
    using parse_ok [OF assms] by (simp_all add: plan_request_ok_def lease_ok_def)
  have count: "unat (ls_renewalCount ?l) \<le> 1000"
    using ok(3) by (simp add: lease_limits_ok_def MaxRenewalCount_def word_less_nat_alt)
  have renew: "unat (ls_renewalCount ?l) < 1000 \<and> ls_renewalCount ?l \<noteq> - 1" if "rq_operation q = ''renew''"
    using ok(1) that by (auto simp: validTransition_def MaxRenewalCount_def word_less_nat_alt unsigned_minus_1_eq_mask
        mask_eq_exp_minus_1 split: if_splits)
  have rotate: "ls_observedGeneration ?l \<noteq> - 1" if "rq_operation q = ''rotate''"
    using ok(1) that by (auto simp: validTransition_def split: if_splits)
  show ?thesis
    using ok(2) ok(1) count renew rotate
    by (elim insertE emptyE) (simp_all add: transition_defs u64_succ split: if_splits)
qed

theorem transition_exact_witness:
  "unat (tn_targetGeneration (pl_transition (BuildPlan demo_request))) = 2 ^ 64 - 1"
proof -
  have "tn_observedGeneration (pl_transition (BuildPlan demo_request)) = 2 ^ 64 - 2"
    and "rq_operation demo_request = ''rotate''"
    by (simp_all add: BuildPlan_def plan_transition_def demo_request_def)
  then show ?thesis
    using transition_exact [OF parse_request_text [OF demo_request_ok]] by simp
qed

lemma u64_number_inj: "u64_number v = u64_number w \<longleftrightarrow> v = w"
  by (auto simp: u64_number_def show_nat_inj intro: unsigned_word_eqI)

lemma plan_document_inj: "plan_request_document q = plan_request_document q' \<longleftrightarrow> q = q'"
  by (cases q; cases q'; cases "rq_lease q"; cases "rq_lease q'"; cases "rq_assertions q"; cases "rq_assertions q'")
    (auto simp: plan_request_document_def lease_document_def assertions_document_def u64_number_inj)

text \<open>
  C33: the plan's identifier determines the request: two accepted requests with the same identifier
  are the same request, or SHA-256 collides on their two normalised documents.
\<close>

theorem plan_id_determines_request:
  assumes "parse_plan_request r = Some q" and "parse_plan_request r' = Some q'"
    and "pl_planID (BuildPlan q) = pl_planID (BuildPlan q')"
  shows "q = q' \<or>
     json_encode True (plan_request_document q) \<noteq> json_encode True (plan_request_document q') \<and>
     sha256 (json_encode True (plan_request_document q)) = sha256 (json_encode True (plan_request_document q'))"
proof -
  let ?e = "\<lambda>q. json_encode True (plan_request_document q)"
  have "hex_encode (sha256 (?e q)) = hex_encode (sha256 (?e q'))"
    using assms(3) by (simp add: BuildPlan_def planID_def)
  then have sha: "sha256 (?e q) = sha256 (?e q')"
    using hex_decode_encode by (metis option.inject)
  have read: "json_document (?e p) = Some (plan_request_document p)" if "plan_request_ok p" for p
    using request_document_text(3,4) [OF that] by (intro json_document_encode) (simp_all add: max_nesting_def)
  have "q = q'" if "?e q = ?e q'"
  proof -
    have "Some (plan_request_document q) = Some (plan_request_document q')"
      using read [OF parse_ok [OF assms(1)]] read [OF parse_ok [OF assms(2)]] that by argo
    then show ?thesis using plan_document_inj by blast
  qed
  with sha show ?thesis by blast
qed

theorem plan_id_determines_request_witness:
  "demo_request = demo_request \<or>
     json_encode True (plan_request_document demo_request) \<noteq> json_encode True (plan_request_document demo_request) \<and>
     sha256 (json_encode True (plan_request_document demo_request)) =
       sha256 (json_encode True (plan_request_document demo_request))"
  by (rule plan_id_determines_request
      [OF parse_request_text [OF demo_request_ok] parse_request_text [OF demo_request_ok] refl])

text \<open>
  A plan is inert: whatever the request, every step is blocked and without effect, every gate
  is unsatisfied, every control is off and no assertion counts as verified; the steps are those
  common to all operations and those of the operation, in order and without repetition.
\<close>

lemma plan_inert:
  "list_all (\<lambda>s. sp_status s = ''blocked'' \<and> sp_effect s = ''none'') (pl_steps (BuildPlan q)) \<and>
   list_all (\<lambda>g. gt_status g = ''blocked'' \<and> \<not> gt_satisfied g) (pl_gates (BuildPlan q)) \<and>
   pl_controls (BuildPlan q) = DisabledControls \<and> pl_assertions (BuildPlan q) = UnverifiedAssertions \<and>
   sorted_wrt (<) (map sp_id (pl_steps (BuildPlan q))) \<and>
   set (map sp_id (pl_steps (BuildPlan q))) = set common_steps \<union> set (operation_steps (rq_operation q))"
proof -
  have "distinct (common_steps @ operation_steps op)" for op
    by (simp add: common_steps_def operation_steps_def)
  then have "sorted_wrt (<) (sort (common_steps @ operation_steps op))" for op
    by (simp add: strict_sorted_iff)
  then show ?thesis
    by (simp add: BuildPlan_def blockedSteps_def blockedGates_def comp_def list_all_iff Let_def)
qed

end
