(* ===== verification/GoFlag.thy ===== *)
theory GoFlag
  imports GoStrings
begin

text \<open>
  \<^verbatim>\<open>flag.FlagSet.Parse\<close> for flags that take a value: the loop over the arguments, the two forms
  \<^verbatim>\<open>-name=value\<close> and \<^verbatim>\<open>-name value\<close>, one dash or two, the end of the flags, and the errors.
\<close>

text \<open>
  A flag is its name and its setter, which fails on a malformed value. The result is whether
  parsing succeeded, the settings made so far (also on failure), and the remaining arguments.
\<close>

type_synonym 's flag_table = "(bytes \<times> (bytes \<Rightarrow> 's \<Rightarrow> 's option)) list"

definition split_flag :: "bytes \<Rightarrow> bytes \<times> bytes option" where
  "split_flag name =
     (case name of
        [] \<Rightarrow> ([], None)
      | c # t \<Rightarrow>
          (let n = takeWhile (\<lambda>x. x \<noteq> CHR ''='') t
           in if length n < length t then (c # n, Some (drop (Suc (length n)) t)) else (name, None)))"

text \<open>What the front argument is: no flag, the terminator, a malformed flag, or a flag's text.\<close>

datatype flag_arg = NoFlag | FlagEnd | BadFlag | FlagText bytes

definition flag_arg :: "bytes \<Rightarrow> flag_arg" where
  "flag_arg s =
     (if length s < 2 \<or> hd s \<noteq> CHR ''-'' then NoFlag
      else if s = ''--'' then FlagEnd
      else (let name = (if s ! 1 = CHR ''-'' then drop 2 s else drop 1 s)
            in if name = [] \<or> hd name = CHR ''-'' \<or> hd name = CHR ''='' then BadFlag else FlagText name))"

fun parse_flags :: "'s flag_table \<Rightarrow> bytes list \<Rightarrow> 's \<Rightarrow> bool \<times> 's \<times> bytes list" where
  "parse_flags flags [] st = (True, st, [])"
| "parse_flags flags (s # args) st =
     (case flag_arg s of
        NoFlag \<Rightarrow> (True, st, s # args)
      | FlagEnd \<Rightarrow> (True, st, args)
      | BadFlag \<Rightarrow> (False, st, s # args)
      | FlagText text \<Rightarrow>
          (case map_of flags (fst (split_flag text)) of
             None \<Rightarrow> (False, st, args)
           | Some set_flag \<Rightarrow>
               (case snd (split_flag text) of
                  Some v \<Rightarrow>
                    (case set_flag v st of None \<Rightarrow> (False, st, args) | Some st' \<Rightarrow> parse_flags flags args st')
                | None \<Rightarrow>
                    (case args of
                       [] \<Rightarrow> (False, st, [])
                     | v # args' \<Rightarrow>
                         (case set_flag v st of
                            None \<Rightarrow> (False, st, args')
                          | Some st' \<Rightarrow> parse_flags flags args' st')))))"

lemma parse_flags_operands: "args \<noteq> [] \<Longrightarrow> flag_arg (hd args) = NoFlag \<Longrightarrow> parse_flags flags args st = (True, st, args)"
  by (cases args) simp_all

lemma flag_arg_word: "s = [] \<or> hd s \<noteq> CHR ''-'' \<Longrightarrow> flag_arg s = NoFlag"
  by (auto simp: flag_arg_def)

end
