(* ===== verification/Cli.thy ===== *)
theory Cli
  imports PlanBuild GoFlag
begin

text \<open>
  The planner's command line (\<^verbatim>\<open>internal/cli/cli.go\<close>): one flag, three commands, JSON on standard
  output and one JSON error on standard error, and the exit code.
\<close>

section \<open>Messages\<close>

definition LocaleEnglish :: bytes where "LocaleEnglish = ''en-US''"
definition LocaleChinese :: bytes where "LocaleChinese = ''zh-TW''"

definition validLocale :: "bytes \<Rightarrow> bool" where
  "validLocale locale = (locale = LocaleEnglish \<or> locale = LocaleChinese)"

definition chooseLocale :: "bytes \<Rightarrow> bytes" where
  "chooseLocale locale = (if locale = LocaleChinese then LocaleChinese else LocaleEnglish)"

text \<open>The Chinese messages are given by their code points.\<close>

definition chinese_message :: "bytes \<Rightarrow> bytes" where
  "chinese_message code = encode_runes
     (if code = ''invalid-input'' then [0x8F38, 0x5165, 0x5DF2, 0x906D, 0x62D2, 0x7D55, 0x3002]
      else if code = ''invalid-usage'' then [0x547D, 0x4EE4, 0x7528, 0x6CD5, 0x7121, 0x6548, 0x3002]
      else if code = ''effects-disabled'' then
        [0x6240, 0x6709, 0x5916, 0x90E8, 0x6548, 0x679C, 0x7686, 0x5DF2, 0x505C, 0x7528, 0x3002]
      else if code = ''assertions-unverified'' then
        [0x5B89, 0x5168, 0x8072, 0x660E, 0x5C1A, 0x672A, 0x7531, 0x53D7, 0x4FE1, 0x4EFB, 0x57F7, 0x884C, 0x5668,
         0x9A57, 0x8B49, 0x3002]
      else if code = ''lease-state-unverified'' then
        [0x79DF, 0x7D04, 0x72C0, 0x614B, 0x5C1A, 0x672A, 0x7531, 0x5916, 0x90E8, 0x7CFB, 0x7D71, 0x9A57, 0x8B49,
         0x3002]
      else if code = ''token-material-prohibited'' then
        [0x672C, 0x96E2, 0x7DDA, 0x5951, 0x7D04, 0x7981, 0x6B62, 0x8655, 0x7406, 0x6B0A, 0x6756, 0x6216, 0x6A5F,
         0x5BC6, 0x5167, 0x5BB9, 0x3002]
      else [0x4F5C, 0x696D, 0x7121, 0x6CD5, 0x5B8C, 0x6210, 0x3002])"

definition english_message :: "bytes \<Rightarrow> bytes" where
  "english_message code =
     (if code = ''invalid-input'' then ''The input was rejected.''
      else if code = ''invalid-usage'' then ''The command usage is invalid.''
      else if code = ''effects-disabled'' then ''All external effects are disabled.''
      else if code = ''assertions-unverified'' then
        ''Security assertions have not been verified by a trusted executor.''
      else if code = ''lease-state-unverified'' then ''Lease state has not been externally verified.''
      else if code = ''token-material-prohibited'' then
        ''This offline contract prohibits token or secret material.''
      else ''The operation could not be completed.'')"

definition cli_message :: "bytes \<Rightarrow> bytes \<Rightarrow> bytes" where
  "cli_message locale code =
     (if locale = LocaleChinese then chinese_message code else english_message code)"

section \<open>Documents\<close>

text \<open>Every document has its members in the order of the struct's fields.\<close>

record diagnosticOutput =
  dg_code :: bytes
  dg_message :: bytes

definition localizedDiagnostics :: "bytes \<Rightarrow> bytes list \<Rightarrow> diagnosticOutput list" where
  "localizedDiagnostics locale codes =
     sort_key dg_code (map (\<lambda>code. \<lparr>dg_code = code, dg_message = cli_message locale code\<rparr>) codes)"

definition controls_document :: "planControls \<Rightarrow> jv" where
  "controls_document c = JvObj
     [(''network'', JvBool (ct_network c)), (''vaultAPI'', JvBool (ct_vaultAPI c)),
      (''metadataAPI'', JvBool (ct_metadataAPI c)), (''controlPlaneAPI'', JvBool (ct_controlPlaneAPI c)),
      (''tokenRead'', JvBool (ct_tokenRead c)), (''tokenWrite'', JvBool (ct_tokenWrite c)),
      (''keyRead'', JvBool (ct_keyRead c)), (''sign'', JvBool (ct_sign c)),
      (''verifySignature'', JvBool (ct_verifySignature c)), (''encrypt'', JvBool (ct_encrypt c)),
      (''decrypt'', JvBool (ct_decrypt c)), (''filesystemWrite'', JvBool (ct_filesystemWrite c)),
      (''tmpfs'', JvBool (ct_tmpfs c)), (''bindMount'', JvBool (ct_bindMount c)),
      (''stateWrite'', JvBool (ct_stateWrite c)), (''clockRead'', JvBool (ct_clockRead c)),
      (''execution'', JvBool (ct_execution c))]"

definition summary_document :: "planSummary \<Rightarrow> jv" where
  "summary_document s = JvObj
     [(''policyCount'', u64_number (sm_policyCount s)), (''ttlSeconds'', u64_number (sm_ttlSeconds s)),
      (''wrapTTLSeconds'', u64_number (sm_wrapTTLSeconds s)), (''renewable'', JvBool (sm_renewable s)),
      (''renewalCount'', u64_number (sm_renewalCount s))]"

definition status_document :: "assertionStatus \<Rightarrow> jv" where
  "status_document a = JvObj
     [(''subjectAuthentication'', JvStr (au_subjectAuthentication a)),
      (''policyAuthorization'', JvStr (au_policyAuthorization a)),
      (''issuerAttestation'', JvStr (au_issuerAttestation a)),
      (''transportProtection'', JvStr (au_transportProtection a)),
      (''requestFreshness'', JvStr (au_requestFreshness a))]"

definition transition_document :: "planTransition \<Rightarrow> jv" where
  "transition_document t = JvObj
     [(''fromState'', JvStr (tn_fromState t)), (''toState'', JvStr (tn_toState t)),
      (''observedGeneration'', u64_number (tn_observedGeneration t)),
      (''expectedGeneration'', u64_number (tn_expectedGeneration t)),
      (''targetGeneration'', u64_number (tn_targetGeneration t)),
      (''targetRenewalCount'', u64_number (tn_targetRenewalCount t))]"

definition step_document :: "planStep \<Rightarrow> jv" where
  "step_document s = JvObj
     [(''id'', JvStr (sp_id s)), (''status'', JvStr (sp_status s)), (''effect'', JvStr (sp_effect s))]"

definition gate_document :: "planGate \<Rightarrow> jv" where
  "gate_document g = JvObj
     [(''id'', JvStr (gt_id g)), (''status'', JvStr (gt_status g)), (''satisfied'', JvBool (gt_satisfied g))]"

definition diagnostic_document :: "diagnosticOutput \<Rightarrow> jv" where
  "diagnostic_document d = JvObj [(''code'', JvStr (dg_code d)), (''message'', JvStr (dg_message d))]"

definition capability_document :: "bytes \<Rightarrow> jv" where
  "capability_document locale = JvObj
     [(''status'', JvStr ''ok''), (''locale'', JvStr locale),
      (''apiVersions'', JvArr [JvStr APIVersion]),
      (''commands'', JvArr (map JvStr [''capabilities'', ''plan'', ''validate''])),
      (''operations'', JvArr (map JvStr [''issue'', ''renew'', ''revoke'', ''rotate''])),
      (''maxInputBytes'', JvNum (show_nat MaxInputBytes)),
      (''contractVersion'', u64_number ContractVersion),
      (''controls'', controls_document DisabledControls)]"

definition validate_document :: "bytes \<Rightarrow> planRequest \<Rightarrow> jv" where
  "validate_document locale q = JvObj
     [(''status'', JvStr ''valid''), (''locale'', JvStr locale),
      (''summary'', summary_document (RequestSummary q)),
      (''assertions'', status_document UnverifiedAssertions),
      (''diagnostics'', JvArr (map diagnostic_document (localizedDiagnostics locale
         (sort [''assertions-unverified'', ''effects-disabled'', ''lease-state-unverified'', ''token-material-prohibited''])))),
      (''controls'', controls_document DisabledControls)]"

definition plan_document :: "bytes \<Rightarrow> plan \<Rightarrow> jv" where
  "plan_document locale p = JvObj
     [(''status'', JvStr ''planned''), (''locale'', JvStr locale), (''planId'', JvStr (pl_planID p)),
      (''operation'', JvStr (pl_operation p)), (''transition'', transition_document (pl_transition p)),
      (''summary'', summary_document (pl_summary p)), (''assertions'', status_document (pl_assertions p)),
      (''steps'', JvArr (map step_document (pl_steps p))), (''gates'', JvArr (map gate_document (pl_gates p))),
      (''diagnostics'', JvArr (map diagnostic_document (localizedDiagnostics locale (pl_diagnostics p)))),
      (''controls'', controls_document (pl_controls p))]"

definition error_document :: "bytes \<Rightarrow> bytes \<Rightarrow> jv" where
  "error_document locale code = JvObj
     [(''status'', JvStr ''error''), (''code'', JvStr code), (''message'', JvStr (cli_message locale code))]"

section \<open>One run\<close>

text \<open>
  A destination takes one write of the whole document: what part of it arrives, and whether the
  write succeeded. The result of a run has whether standard input was read.
\<close>

type_synonym sink = "bytes \<Rightarrow> bytes \<times> bool"

record cli_result =
  cr_code :: nat
  cr_out :: bytes
  cr_err :: bytes
  cr_read :: bool

definition cli_writeJSON :: "sink \<Rightarrow> jv \<Rightarrow> bytes \<times> bool" where
  "cli_writeJSON to v = to (json_encode False v @ [CHR 0x0A])"

definition writeGenericError :: "sink \<Rightarrow> bytes \<Rightarrow> bytes \<Rightarrow> bytes" where
  "writeGenericError stderr locale code = fst (cli_writeJSON stderr (error_document locale code))"

definition cli_fail :: "sink \<Rightarrow> bool \<Rightarrow> bytes \<Rightarrow> bytes \<Rightarrow> cli_result" where
  "cli_fail stderr input_read locale code =
     \<lparr>cr_code = 2, cr_out = [], cr_err = writeGenericError stderr locale code, cr_read = input_read\<rparr>"

definition cli_emit :: "sink \<Rightarrow> sink \<Rightarrow> bool \<Rightarrow> bytes \<Rightarrow> jv \<Rightarrow> cli_result" where
  "cli_emit stdout stderr input_read locale v =
     (case cli_writeJSON stdout v of
        (delivered, True) \<Rightarrow> \<lparr>cr_code = 0, cr_out = delivered, cr_err = [], cr_read = input_read\<rparr>
      | (delivered, False) \<Rightarrow>
          \<lparr>cr_code = 1, cr_out = delivered, cr_err = writeGenericError stderr locale ''internal-error'',
           cr_read = input_read\<rparr>)"

definition locale_flag :: "bytes flag_table" where
  "locale_flag = [(''locale'', \<lambda>v _. Some v)]"

definition cli_run :: "bytes list \<Rightarrow> input_reader \<Rightarrow> sink \<Rightarrow> sink \<Rightarrow> cli_result" where
  "cli_run args stdin stdout stderr =
     (case parse_flags locale_flag args LocaleEnglish of (ok, locale, rest) \<Rightarrow>
        if \<not> ok \<or> \<not> validLocale locale then cli_fail stderr False (chooseLocale locale) ''invalid-usage''
        else if length rest \<noteq> 1 then cli_fail stderr False locale ''invalid-usage''
        else if hd rest = ''capabilities'' then cli_emit stdout stderr False locale (capability_document locale)
        else if hd rest = ''validate'' \<or> hd rest = ''plan'' then
          (case parse_plan_request stdin of
             None \<Rightarrow> cli_fail stderr True locale ''invalid-input''
           | Some request \<Rightarrow>
               if hd rest = ''validate''
               then cli_emit stdout stderr True locale (validate_document locale request)
               else cli_emit stdout stderr True locale (plan_document locale (BuildPlan request)))
        else cli_fail stderr False locale ''invalid-usage'')"

end
