(* ===== verification/CliProps.thy ===== *)
theory CliProps
  imports PlanProps Cli
begin

text \<open>
  The properties of the planner's command line (\<^verbatim>\<open>internal/cli/cli.go\<close>): when a run succeeds, which
  document it writes to which of the two streams, and what it reports when it fails.
\<close>

lemma chinese_utf8 [simp]: "valid_utf8 (chinese_message code)"
  unfolding chinese_message_def by (rule valid_utf8_encode_runes)

lemma english_utf8 [simp]: "valid_utf8 (english_message code)"
  by (rule ascii_utf8) (simp add: english_message_def)

lemma message_utf8 [simp]: "valid_utf8 (cli_message loc code)"
  by (simp add: cli_message_def)

lemma locale_utf8 [simp]: "validLocale loc \<Longrightarrow> valid_utf8 loc"
  by (auto simp: validLocale_def LocaleEnglish_def LocaleChinese_def)

definition flat_doc :: "jv \<Rightarrow> bool" where
  "flat_doc v \<longleftrightarrow> jv_wf v \<and> jv_depth v \<le> max_nesting"

lemma number_wf [simp]: "jv_wf (u64_number w)" "jv_depth (u64_number w) = 0"
  by (simp_all add: u64_number_def)

lemma inner_docs:
  "jv_wf (controls_document c)" "jv_depth (controls_document c) = 1"
  "jv_wf (summary_document s)" "jv_depth (summary_document s) = 1"
  "jv_wf (status_document UnverifiedAssertions)" "jv_depth (status_document a) = 1"
  by (simp_all add: controls_document_def summary_document_def status_document_def UnverifiedAssertions_def
      assertedUnverified_def)

lemma error_doc: "valid_utf8 code \<Longrightarrow> flat_doc (error_document loc code)"
  by (simp add: flat_doc_def error_document_def max_nesting_def)

lemma capability_doc: "validLocale loc \<Longrightarrow> flat_doc (capability_document loc)"
  by (simp add: flat_doc_def capability_document_def inner_docs APIVersion_def max_nesting_def)

lemma fold_max_le: "fold max xs m \<le> (n :: nat) \<longleftrightarrow> m \<le> n \<and> (\<forall>x\<in>set xs. x \<le> n)"
  by (induction xs arbitrary: m) auto

lemma list_doc_depth: "(\<And>x. x \<in> set xs \<Longrightarrow> jv_depth (f x) = 1) \<Longrightarrow> jv_depth (JvArr (map f xs)) \<le> 2"
  by (simp add: fold_max_le)

lemma diagnostics_doc:
  assumes "list_all valid_utf8 codes"
  shows "jv_wf (JvArr (map diagnostic_document (localizedDiagnostics loc codes)))"
    and "jv_depth (JvArr (map diagnostic_document (localizedDiagnostics loc codes))) \<le> 2"
proof -
  have "jv_wf (diagnostic_document d) \<and> jv_depth (diagnostic_document d) = 1"
    if "d \<in> set (localizedDiagnostics loc codes)" for d
    using that assms by (auto simp: localizedDiagnostics_def diagnostic_document_def list_all_iff)
  then show "jv_wf (JvArr (map diagnostic_document (localizedDiagnostics loc codes)))"
    and "jv_depth (JvArr (map diagnostic_document (localizedDiagnostics loc codes))) \<le> 2"
    by (simp add: list_all_iff, intro list_doc_depth) blast
qed

lemma transition_doc:
  assumes "plan_request_ok q"
  shows "jv_wf (transition_document (plan_transition q))" "jv_depth (transition_document t) = 1"
  using request_texts [OF assms, of "ls_currentState (rq_lease q)"]
  by (simp_all add: transition_document_def plan_transition_def targetState_def ascii_utf8)

lemma steps_doc:
  "jv_wf (JvArr (map step_document (blockedSteps operation)))"
  "jv_depth (JvArr (map step_document (blockedSteps operation))) \<le> 2"
proof -
  have ids: "list_all valid_utf8 common_steps" "list_all valid_utf8 (operation_steps operation)"
    by (simp_all add: common_steps_def operation_steps_def)
  have "jv_wf (step_document s) \<and> jv_depth (step_document s) = 1" if "s \<in> set (blockedSteps operation)" for s
    using that ids by (auto simp: blockedSteps_def step_document_def Let_def list_all_iff)
  then show "jv_wf (JvArr (map step_document (blockedSteps operation)))"
    "jv_depth (JvArr (map step_document (blockedSteps operation))) \<le> 2"
    by (simp add: list_all_iff, intro list_doc_depth) blast
qed

lemma gates_doc:
  "jv_wf (JvArr (map gate_document blockedGates))" "jv_depth (JvArr (map gate_document blockedGates)) \<le> 2"
proof -
  have ids: "list_all valid_utf8 gate_ids"
    by (simp add: gate_ids_def)
  have "jv_wf (gate_document g) \<and> jv_depth (gate_document g) = 1" if "g \<in> set blockedGates" for g
    using that ids by (auto simp: blockedGates_def gate_document_def list_all_iff)
  then show "jv_wf (JvArr (map gate_document blockedGates))"
    "jv_depth (JvArr (map gate_document blockedGates)) \<le> 2"
    by (simp add: list_all_iff, intro list_doc_depth) blast
qed

lemma plan_id_ascii: "ascii (planID q)"
  by (simp add: planID_def)

text \<open>An object is as deep as its deepest member, plus one.\<close>

lemma object_doc:
  assumes "list_all (\<lambda>(k, v). valid_utf8 k \<and> jv_wf v \<and> jv_depth v \<le> 2) ms"
  shows "flat_doc (JvObj ms)"
proof -
  have "fold max (map (\<lambda>(k, v). jv_depth v) ms) 0 \<le> 2"
    using assms by (auto simp: fold_max_le list_all_iff)
  then show ?thesis
    using assms by (auto simp: flat_doc_def list_all_iff max_nesting_def)
qed

lemma validate_doc:
  assumes "validLocale loc"
  shows "flat_doc (validate_document loc q)"
proof -
  have "list_all valid_utf8 (sort [''assertions-unverified'', ''effects-disabled'', ''lease-state-unverified'',
      ''token-material-prohibited''])"
    by (simp add: list_all_iff del: sort_key_simps)
  from diagnostics_doc [OF this, of loc] show ?thesis
    using assms unfolding validate_document_def
    by (intro object_doc) (simp add: inner_docs del: jv_wf.simps(3) jv_depth.simps(1))
qed

lemma plan_doc:
  assumes "validLocale loc" and ok: "plan_request_ok q"
  shows "flat_doc (plan_document loc (BuildPlan q))"
proof -
  have "list_all valid_utf8 plan_diagnostics"
    by (simp add: plan_diagnostics_def)
  then have diags: "jv_wf (JvArr (map diagnostic_document (localizedDiagnostics loc plan_diagnostics)))"
      "jv_depth (JvArr (map diagnostic_document (localizedDiagnostics loc plan_diagnostics))) \<le> 2"
    by (rule diagnostics_doc)+
  have "valid_utf8 (rq_operation q)"
    using request_texts [OF ok, of "rq_operation q"] by (simp add: ascii_utf8)
  then show ?thesis
    using assms(1) diags transition_doc [OF ok] steps_doc gates_doc plan_id_ascii [of q]
    unfolding plan_document_def BuildPlan_def
    by (intro object_doc) (simp add: inner_docs ascii_utf8 del: jv_wf.simps(3) jv_depth.simps(1))
qed

text \<open>The bytes of a document: one line, which decodes to the document.\<close>

definition line_of :: "jv \<Rightarrow> bytes \<Rightarrow> bool" where
  "line_of v line \<longleftrightarrow> line = json_encode False v @ [CHR 0x0A] \<and> json_document line = Some v"

lemma written_document: "flat_doc v \<Longrightarrow> \<exists>line. line_of v line \<and> cli_writeJSON to v = to line"
  by (simp add: line_of_def cli_writeJSON_def flat_doc_def json_document_line)

text \<open>
  What a run has to deliver, and in which locale: the document of its command, when its flags are
  valid, its one operand a command and its input, if it takes one, an accepted request; else the
  code of an error.
\<close>

definition run_outcome :: "bytes list \<Rightarrow> input_reader \<Rightarrow> (bytes \<times> bytes) + (bytes \<times> jv)" where
  "run_outcome args r =
     (case parse_flags locale_flag args LocaleEnglish of (ok, loc, rest) \<Rightarrow>
        if \<not> (ok \<and> validLocale loc) then Inl (chooseLocale loc, ''invalid-usage'')
        else if rest = [''capabilities''] then Inr (loc, capability_document loc)
        else if rest \<in> {[''validate''], [''plan'']} then
          (case parse_plan_request r of
             None \<Rightarrow> Inl (loc, ''invalid-input'')
           | Some q \<Rightarrow> Inr (loc, if rest = [''validate''] then validate_document loc q else plan_document loc (BuildPlan q)))
        else Inl (loc, ''invalid-usage''))"

lemma run_outcome_flat: "run_outcome args r = Inr (loc, v) \<Longrightarrow> flat_doc v"
  by (auto simp: run_outcome_def capability_doc validate_doc plan_doc parse_ok split: prod.splits if_splits option.splits)

lemma run_outcome_code: "run_outcome args r = Inl (loc, code) \<Longrightarrow> valid_utf8 code"
  by (auto simp: run_outcome_def split: prod.splits if_splits option.splits)

lemma run_outcome_run:
  "case run_outcome args r of
     Inr (loc, v) \<Rightarrow> \<exists>b. cli_run args r out err = cli_emit out err b loc v
   | Inl (loc, code) \<Rightarrow> \<exists>b. cli_run args r out err = cli_fail err b loc code"
proof -
  obtain ok loc rest where flags: "parse_flags locale_flag args LocaleEnglish = (ok, loc, rest)"
    by (cases "parse_flags locale_flag args LocaleEnglish")
  consider (bad) "\<not> ok \<or> \<not> validLocale loc" | (arity) "ok" "validLocale loc" "length rest \<noteq> 1"
    | (word) w where "ok" "validLocale loc" "rest = [w]"
    by (metis One_nat_def length_0_conv length_Suc_conv)
  then show ?thesis
  proof cases
    case bad
    then show ?thesis using flags by (auto simp: run_outcome_def cli_run_def)
  next
    case arity
    then have "run_outcome args r = Inl (loc, ''invalid-usage'')"
      using flags by (auto simp: run_outcome_def)
    with arity flags show ?thesis by (auto simp: cli_run_def)
  next
    case word
    then show ?thesis
      using flags
      by (cases "w = ''capabilities''"; cases "w = ''validate''"; cases "w = ''plan''"; cases "parse_plan_request r")
        (auto simp: run_outcome_def cli_run_def)
  qed
qed

lemma emitted:
  assumes "flat_doc v"
  obtains (sent) line delivered where "line_of v line" "out line = (delivered, True)"
      "cli_emit out err b loc v = \<lparr>cr_code = 0, cr_out = delivered, cr_err = [], cr_read = b\<rparr>"
  | (broken) line delivered report where "line_of v line" "out line = (delivered, False)"
      "line_of (error_document loc ''internal-error'') report"
      "cli_emit out err b loc v = \<lparr>cr_code = 1, cr_out = delivered, cr_err = fst (err report), cr_read = b\<rparr>"
proof -
  obtain line where line: "line_of v line" "cli_writeJSON out v = out line"
    using written_document [OF assms] by blast
  have "flat_doc (error_document loc ''internal-error'')" by (rule error_doc) simp
  then obtain report where report: "line_of (error_document loc ''internal-error'') report"
      "cli_writeJSON err (error_document loc ''internal-error'') = err report"
    using written_document by blast
  obtain delivered ok where "out line = (delivered, ok)" by (cases "out line")
  then show thesis
    using sent [of line delivered] broken [of line delivered report] line report
    by (cases ok) (simp_all add: cli_emit_def writeGenericError_def)
qed

lemma failed_run:
  assumes "valid_utf8 code"
  shows "\<exists>report. line_of (error_document loc code) report \<and>
     cli_fail err b loc code = \<lparr>cr_code = 2, cr_out = [], cr_err = fst (err report), cr_read = b\<rparr>"
  using written_document [OF error_doc [OF assms, of loc], of err] by (auto simp: cli_fail_def writeGenericError_def)

section \<open>Properties\<close>

text \<open>
  C36: every run of the planner, on any streams. A run with valid flags whose one operand is
  \<^verbatim>\<open>capabilities\<close>, or \<^verbatim>\<open>validate\<close> or \<^verbatim>\<open>plan\<close> on an input that is an accepted request, writes exactly
  the command's document, in the locale asked for and as one line of JSON, to standard output; it
  exits with 0 and writes nothing else, unless that write fails: then it exits with 1 and writes the
  document of an internal error to standard error. Every other run exits with 2 and writes only the
  document of its error, to standard error: invalid input for a refused input, else invalid usage.
\<close>

theorem cli_run_outcome:
  "case run_outcome args r of
     Inr (loc, v) \<Rightarrow> \<exists>line. line_of v line \<and>
       (case out line of
          (delivered, True) \<Rightarrow> cr_code (cli_run args r out err) = 0 \<and> cr_out (cli_run args r out err) = delivered \<and>
            cr_err (cli_run args r out err) = []
        | (delivered, False) \<Rightarrow> cr_code (cli_run args r out err) = 1 \<and> cr_out (cli_run args r out err) = delivered \<and>
            (\<exists>report. line_of (error_document loc ''internal-error'') report \<and>
               cr_err (cli_run args r out err) = fst (err report)))
   | Inl (loc, code) \<Rightarrow> cr_code (cli_run args r out err) = 2 \<and> cr_out (cli_run args r out err) = [] \<and>
       (\<exists>report. line_of (error_document loc code) report \<and> cr_err (cli_run args r out err) = fst (err report))"
proof (cases "run_outcome args r")
  case (Inl e)
  then obtain loc code b where e: "run_outcome args r = Inl (loc, code)" "cli_run args r out err = cli_fail err b loc code"
    using run_outcome_run [of args r out err] by (cases e) auto
  with failed_run [OF run_outcome_code [OF e(1)], of loc err b] show ?thesis by auto
next
  case (Inr x)
  then obtain loc v b where v: "run_outcome args r = Inr (loc, v)" "cli_run args r out err = cli_emit out err b loc v"
    using run_outcome_run [of args r out err] by (cases x) auto
  from run_outcome_flat [OF v(1)] show ?thesis
  proof (cases rule: emitted [of v out err b loc])
    case (sent line delivered)
    then show ?thesis unfolding v sum.case prod.case by (intro exI [of _ line]) simp
  next
    case (broken line delivered report)
    then show ?thesis unfolding v sum.case prod.case by (intro exI [of _ line]) auto
  qed
qed

end
