(* ===== verification/Content.thy ===== *)
theory Content
  imports GoPath StrictJson
begin

text \<open>
  The content checks of the public-tree gate (\<^verbatim>\<open>internal/safety/scanner.go\<close>, \<^verbatim>\<open>binary.go\<close>): file
  names, private and legacy text, e-mail addresses, PEM material, and the ordering of findings.
\<close>

section \<open>Findings\<close>

text \<open>
  Findings are sorted by path, then by code. The comparison handed to \<^verbatim>\<open>sort.Slice\<close> is the strict
  part of a linear order on the type, so the library's sorting applies to findings.
\<close>

datatype finding = Finding (fn_path: bytes) (fn_code: bytes)

definition finding_before :: "finding \<Rightarrow> finding \<Rightarrow> bool" where
  "finding_before left right =
     (if fn_path left = fn_path right then fn_code left < fn_code right else fn_path left < fn_path right)"

instantiation finding :: linorder
begin

definition less_finding :: "finding \<Rightarrow> finding \<Rightarrow> bool" where
  "less_finding a b = finding_before a b"

definition less_eq_finding :: "finding \<Rightarrow> finding \<Rightarrow> bool" where
  "less_eq_finding a b = (\<not> finding_before b a)"

instance
  by standard
    (auto simp: less_eq_finding_def less_finding_def finding_before_def finding.expand split: if_splits)

end

text \<open>
  \<^verbatim>\<open>uniqueFindings\<close> works in place: the result is a prefix of the array it reads, and an append
  overwrites the array at the prefix's end.
\<close>

function unique_loop :: "finding list \<Rightarrow> nat \<Rightarrow> nat \<Rightarrow> finding list" where
  "unique_loop findings n i =
     (if i \<ge> length findings then take n findings
      else (let finding = findings ! i; last = findings ! (n - 1)
            in if fn_path finding \<noteq> fn_path last \<or> fn_code finding \<noteq> fn_code last
               then unique_loop (findings[n := finding]) (n + 1) (i + 1)
               else unique_loop findings n (i + 1)))"
  by pat_completeness auto
termination by (relation "measure (\<lambda>(findings, n, i). length findings - i)") auto

declare unique_loop.simps [simp del]

definition uniqueFindings :: "finding list \<Rightarrow> finding list" where
  "uniqueFindings findings = (if length findings < 2 then findings else unique_loop findings 1 1)"

section \<open>Names and tokens\<close>

definition path_base :: "bytes \<Rightarrow> bytes" where
  "path_base p =
     (if p = [] then ''.''
      else (let q = trim_right_byte CHR ''/'' p;
                b = (case last_index_byte q CHR ''/'' of None \<Rightarrow> q | Some i \<Rightarrow> drop (Suc i) q)
            in if b = [] then ''/'' else b))"

definition riskyNames :: "bytes list" where
  "riskyNames = [''.env'', ''credentials'', ''credentials.json'', ''id_dsa'', ''id_ecdsa'', ''id_ed25519'',
     ''id_rsa'', ''known_hosts'', ''password'', ''passwords'', ''token'', ''tokens'']"

definition risky_suffixes :: "bytes list" where
  "risky_suffixes = [''.a'', ''.bin'', ''.cer'', ''.crt'', ''.der'', ''.dll'', ''.dylib'', ''.exe'', ''.jks'',
     ''.key'', ''.kdb'', ''.o'', ''.p12'', ''.pem'', ''.pfx'', ''.so'', ''.tar'', ''.zip'']"

definition scanFilename :: "bytes \<Rightarrow> finding list" where
  "scanFilename relative =
     (let base = path_base (to_lower relative)
      in if base \<in> set riskyNames then [Finding relative ''risk-filename'']
         else if list_ex (has_suffix base) risky_suffixes then [Finding relative ''risk-filename'']
         else [])"

definition asciiAlphaNumeric :: "char \<Rightarrow> bool" where
  "asciiAlphaNumeric c =
     ((97 \<le> byte_val c \<and> byte_val c \<le> 122) \<or> (48 \<le> byte_val c \<and> byte_val c \<le> 57))"

text \<open>
  The search loop of \<^verbatim>\<open>containsASCIIToken\<close>. \<open>None\<close> stands for a search that returns no answer: one
  that goes on for ever, or whose slice \<^verbatim>\<open>remaining[step:]\<close> is out of range.
\<close>

partial_function (option) token_search :: "bytes \<Rightarrow> bytes \<Rightarrow> bytes \<Rightarrow> nat \<Rightarrow> bool option" where
  "token_search content token remaining consumed =
     (case index_of remaining token of
        None \<Rightarrow> Some False
      | Some index \<Rightarrow>
          (let absolute = consumed + index;
               leftBoundary = (absolute = 0 \<or> \<not> asciiAlphaNumeric (content ! (absolute - 1)));
               right = absolute + length token;
               rightBoundary = (right = length content \<or> \<not> asciiAlphaNumeric (content ! right));
               step = index + 1
           in if leftBoundary \<and> rightBoundary then Some True
              else if step > length remaining then None
              else token_search content token (drop step remaining) (consumed + step)))"

declare token_search.simps [code]

definition containsASCIIToken :: "bytes \<Rightarrow> bytes \<Rightarrow> bool option" where
  "containsASCIIToken content token = token_search content token content 0"

abbreviation token_seen :: "bytes \<Rightarrow> bytes \<Rightarrow> bool" where
  "token_seen content token \<equiv> containsASCIIToken content token = Some True"

definition containsLegacyBinaryName :: "bytes \<Rightarrow> bool" where
  "containsLegacyBinaryName content = contains content ''secrets-bridge-v2''"

definition legacyImplementationTokens :: "bytes list" where
  "legacyImplementationTokens = [''github.com/rancher/'', ''/var/lib/rancher'', ''cattle_agent_'', ''cattle_url'',
     ''vault-token-server'', ''/v1-vault-driver'', ''x-vault-driver-signature'', ''169.254.169.250'',
     ''update-rancher-ssl'', ''/var/run/docker.sock'']"

definition containsLegacyImplementationToken :: "bytes \<Rightarrow> bool" where
  "containsLegacyImplementationToken content = list_ex (contains content) legacyImplementationTokens"

section \<open>PEM blocks and e-mail addresses\<close>

definition containsPEM :: "bytes \<Rightarrow> bool" where
  "containsPEM content =
     (if \<not> contains content ''-----BEGIN '' then False
      else contains content ''PRIVATE KEY-----'' \<or> contains content ''CERTIFICATE-----'' \<or>
        contains content ''OPENSSH PRIVATE KEY-----'')"

definition emailLocalByte :: "char \<Rightarrow> bool" where
  "emailLocalByte c =
     ((97 \<le> byte_val c \<and> byte_val c \<le> 122) \<or> (65 \<le> byte_val c \<and> byte_val c \<le> 90) \<or>
      (48 \<le> byte_val c \<and> byte_val c \<le> 57) \<or> c \<in> set ''._%+-'')"

definition emailDomainByte :: "char \<Rightarrow> bool" where
  "emailDomainByte c =
     ((97 \<le> byte_val c \<and> byte_val c \<le> 122) \<or> (65 \<le> byte_val c \<and> byte_val c \<le> 90) \<or>
      (48 \<le> byte_val c \<and> byte_val c \<le> 57) \<or> c = CHR ''.'' \<or> c = CHR ''-'')"

primrec email_left :: "bytes \<Rightarrow> nat \<Rightarrow> nat" where
  "email_left content 0 = 0"
| "email_left content (Suc left) = (if emailLocalByte (content ! left) then email_left content left else Suc left)"

function email_right :: "bytes \<Rightarrow> nat \<Rightarrow> nat" where
  "email_right content right =
     (if right < length content \<and> emailDomainByte (content ! right) then email_right content (right + 1) else right)"
  by pat_completeness auto
termination by (relation "measure (\<lambda>(content, right). length content - right)") auto

declare email_right.simps [simp del]

definition email_at :: "bytes \<Rightarrow> nat \<Rightarrow> bool" where
  "email_at content index =
     (if content ! index \<noteq> CHR ''@'' \<or> index = 0 \<or> index + 1 \<ge> length content \<or>
         \<not> emailLocalByte (content ! (index - 1)) \<or> \<not> emailDomainByte (content ! (index + 1))
      then False
      else (let left = email_left content (index - 1);
                right = email_right content (index + 1);
                domain = drop (index + 1) (take right content)
            in left < index \<and>
               (case last_index_byte domain CHR ''.'' of
                  None \<Rightarrow> False
                | Some lastDot \<Rightarrow>
                    lastDot > 0 \<and> length domain - lastDot - 1 \<ge> 2 \<and> hd domain \<noteq> CHR ''.'' \<and>
                    domain ! (length domain - 1) \<noteq> CHR ''.'')))"

definition containsEmail :: "bytes \<Rightarrow> bool" where
  "containsEmail content = list_ex (email_at content) [0..<length content]"

section \<open>Whole files\<close>

definition legalOrProvenancePath :: "bytes \<Rightarrow> bool" where
  "legalOrProvenancePath relative =
     (relative = ''LICENSE'' \<or> relative = ''ORIGIN.md'' \<or> has_prefix relative ''LICENSES/'')"

definition RequiredReadmeOpening :: bytes where
  "RequiredReadmeOpening = ''PastureStack is an independent community effort to preserve, audit, and modernize the Rancher 1.6 ecosystem. It is not affiliated with or endorsed by Rancher Labs or SUSE.''"

definition blank_line :: bytes where "blank_line = [CHR 0x0A, CHR 0x0A]"

definition privateTokens :: "bytes list" where
  "privateTokens = [''chen21019'', ''gmail.com'', ''c:'' @ [CHR 0x5C] @ ''users'' @ [CHR 0x5C], ''/home/'',
     ''/users/'', ''userprofile'']"

text \<open>The text the brand checks see: without the required opening and an upstream paragraph after it.\<close>

definition brand_content :: "bytes \<Rightarrow> bytes \<Rightarrow> bytes" where
  "brand_content relative content =
     (if relative = ''README.md'' \<and> has_prefix content (RequiredReadmeOpening @ blank_line)
      then (let remainder = drop (length RequiredReadmeOpening + 2) content
            in to_lower (case index_of remainder blank_line of
                 None \<Rightarrow> remainder
               | Some paragraphEnd \<Rightarrow>
                   if has_prefix remainder ''**Upstream:**'' then drop (paragraphEnd + 2) remainder else remainder))
      else to_lower content)"

definition scanPublicContent :: "bytes \<Rightarrow> bytes \<Rightarrow> finding list" where
  "scanPublicContent relative content =
     (let legalPath = legalOrProvenancePath relative;
          lower = to_lower content;
          brand = brand_content relative content;
          report = (\<lambda>b code. if b then [Finding relative code] else []);
          nul = report (CHR 0x00 \<in> set content) ''nul-byte''
      in if \<not> valid_utf8 content then nul @ [Finding relative ''binary-or-invalid-utf8'']
         else nul
           @ report (list_ex (contains lower) privateTokens) ''private-namespace''
           @ report (\<not> legalPath \<and> containsEmail content) ''email-address''
           @ report (containsPEM content) ''pem-material''
           @ report (has_suffix (to_lower relative) ''.json'' \<and>
               parse_strict \<lparr>rd_data = content, rd_fails = False\<rparr> = None) ''invalid-or-null-json''
           @ report (relative = ''README.md'' \<and> \<not> has_prefix content (RequiredReadmeOpening @ blank_line))
               ''readme-opening''
           @ (if legalPath then []
              else report (token_seen brand ''rancher'' \<or> token_seen brand ''suse'') ''legacy-brand''
                @ report (list_ex (contains brand) legacyImplementationTokens) ''legacy-implementation''
                @ report (containsLegacyBinaryName brand) ''legacy-implementation''))"

section \<open>Executables\<close>

definition isExecutableFormat :: "bytes \<Rightarrow> bool" where
  "isExecutableFormat content =
     (length content \<ge> 4 \<and> (has_prefix content ''MZ'' \<or> take 4 content = CHR 0x7F # ''ELF''))"

definition filepathBase :: "bytes \<Rightarrow> bytes" where
  "filepathBase path =
     rev (takeWhile (\<lambda>c. c \<noteq> CHR ''/'' \<and> c \<noteq> CHR 0x5C) (rev path))"

definition binary_tokens :: "bytes list" where
  "binary_tokens = [''chen21019'', ''gmail.com'', ''c:'' @ [CHR 0x5C] @ ''users'' @ [CHR 0x5C], ''/home/'', ''/users/'']"

text \<open>The file is read first; \<open>None\<close> is the error of that read.\<close>

definition ScanBinary :: "bytes \<Rightarrow> bytes option \<Rightarrow> finding list option" where
  "ScanBinary path file_content =
     (case file_content of
        None \<Rightarrow> None
      | Some content \<Rightarrow>
          (let lower = to_lower content;
               report = (\<lambda>b code. if b then [Finding (filepathBase path) code] else [])
           in Some (uniqueFindings (sort (
                report (\<not> isExecutableFormat content) ''unknown-binary-format''
                @ report (list_ex (contains lower) binary_tokens) ''private-binary-metadata''
                @ report (containsEmail content) ''email-in-binary''
                @ report (containsPEM content) ''pem-in-binary''
                @ report (token_seen lower ''rancher'' \<or> token_seen lower ''suse'' \<or>
                    containsLegacyBinaryName lower \<or> containsLegacyImplementationToken lower)
                    ''legacy-binary-metadata'')))))"

end
