(* ===== verification/TreeScan.thy ===== *)
theory TreeScan
  imports Content
begin

text \<open>
  The policy on Go files and the walk over the tree (\<^verbatim>\<open>internal/safety/scanner.go\<close>). The walk sees a
  tree that does not change while it runs. Go's parser is a parameter: of a syntax tree only
  identifiers and selectors matter, every other node is its list of children.
\<close>

section \<open>Go files\<close>

datatype go_node = Ident bytes | Selector go_node bytes | Node "go_node list"

record go_import =
  im_name :: "bytes option"
  im_path :: bytes

record go_file =
  gf_imports :: "go_import list"
  gf_root :: go_node

record go_frontend =
  fe_parse :: "bytes \<Rightarrow> go_file option"
  fe_unquote :: "bytes \<Rightarrow> bytes option"

definition allowedImports :: "bytes list" where
  "allowedImports = [''bytes'', ''crypto/sha256'', ''encoding/binary'', ''encoding/hex'', ''encoding/json'', ''errors'',
     ''flag'', ''go/ast'', ''go/parser'', ''go/token'', ''hash'', ''io'', ''io/fs'', ''os'', ''path/filepath'',
     ''sort'', ''strconv'', ''strings'', ''time'', ''unicode/utf8'']"

definition runtimeAllowedImports :: "bytes list" where
  "runtimeAllowedImports = [''bytes'', ''context'', ''crypto'', ''crypto/aes'', ''crypto/cipher'', ''crypto/hmac'',
     ''crypto/rand'', ''crypto/rsa'', ''crypto/sha256'', ''crypto/tls'', ''crypto/x509'', ''encoding/base64'',
     ''encoding/hex'', ''encoding/json'', ''encoding/pem'', ''errors'', ''flag'', ''fmt'', ''io'', ''log'', ''mime'',
     ''net'', ''net/http'', ''net/url'', ''os'', ''os/signal'', ''path'', ''path/filepath'', ''sort'', ''strconv'',
     ''strings'', ''sync'', ''sync/atomic'', ''syscall'', ''time'']"

type_synonym selector_table = "(bytes, bytes list) gomap"

definition commandOSSelectors :: selector_table where
  "commandOSSelectors =
     [(''cmd/vault-secrets-bridge/main.go'', [''Args'', ''Exit'', ''Stderr'', ''Stdin'', ''Stdout''])]"

definition runtimeOSSelectors :: selector_table where
  "runtimeOSSelectors =
     [(''internal/broker/config.go'', [''Getenv'', ''Lstat'', ''Open'']),
      (''internal/broker/server.go'', [''Interrupt'']),
      (''internal/broker/state.go'', [''Chmod'', ''CreateTemp'', ''ErrNotExist'', ''Lstat'', ''MkdirAll'', ''ReadFile'',
         ''Remove'', ''Rename''])]"

definition safetyToolOSSelectors :: selector_table where
  "safetyToolOSSelectors =
     [(''internal/safety/binary.go'', [''ReadFile'']), (''internal/safety/legal.go'', [''ReadFile'']),
      (''internal/safety/scanner.go'', [''ModeSymlink'', ''ReadFile''])]"

definition productionTimeSelectors :: selector_table where
  "productionTimeSelectors =
     [(''internal/model/model.go'', [''Duration'', ''Parse'', ''RFC3339'', ''Second'']),
      (''internal/broker/config.go'', [''Duration'', ''Hour'', ''Minute'', ''ParseDuration'', ''Second'']),
      (''internal/broker/nonce.go'', [''Duration'', ''Time'']),
      (''internal/broker/platform.go'', [''Duration'', ''Second'']),
      (''internal/broker/server.go'', [''Duration'', ''NewTicker'', ''Now'', ''Second'', ''Time'']),
      (''internal/broker/types.go'', [''Duration'', ''Parse'', ''RFC3339Nano'', ''Time''])]"

definition internalSafetyImport :: bytes where
  "internalSafetyImport = ''github.com/PastureStack/vault-secrets-bridge/internal/safety''"

definition module_prefix :: bytes where
  "module_prefix = ''github.com/PastureStack/vault-secrets-bridge/''"

text \<open>\<open>None\<close> is the flag \<^verbatim>\<open>false\<close> of the two-valued result.\<close>

definition allowedOSSelectorsForFile :: "bytes \<Rightarrow> bytes list option" where
  "allowedOSSelectorsForFile relative =
     (case gm_get commandOSSelectors relative of
        Some selectors \<Rightarrow> Some selectors
      | None \<Rightarrow>
          (case gm_get runtimeOSSelectors relative of
             Some selectors \<Rightarrow> Some selectors
           | None \<Rightarrow> gm_get safetyToolOSSelectors relative))"

text \<open>The chain of a selector over an identifier that names the import, for a selector's two parts.\<close>

fun selectorChainForImport :: "go_node \<Rightarrow> bytes \<Rightarrow> (bytes, bytes) gomap \<Rightarrow> bytes \<Rightarrow> bytes list option" where
  "selectorChainForImport (Ident name) sel aliases importPath =
     (if gm_get aliases name \<noteq> Some importPath then None else Some [sel])"
| "selectorChainForImport (Selector x inner) sel aliases importPath =
     (case selectorChainForImport x inner aliases importPath of
        None \<Rightarrow> None
      | Some chain \<Rightarrow> Some (chain @ [sel]))"
| "selectorChainForImport (Node xs) sel aliases importPath = None"

type_synonym import_state = "finding list \<times> (bytes, bytes) gomap"

definition scan_import :: "go_frontend \<Rightarrow> bytes \<Rightarrow> go_import \<Rightarrow> import_state \<Rightarrow> import_state" where
  "scan_import fe relative imported st =
     (case st of (findings, aliases) \<Rightarrow>
       (case fe_unquote fe (im_path imported) of
          None \<Rightarrow> (findings @ [Finding relative ''invalid-import''], aliases)
        | Some importPath \<Rightarrow>
            (let report = (\<lambda>b code. if b then [Finding relative code] else []);
                 allowed = (if has_prefix relative ''internal/broker/''
                            then importPath \<in> set runtimeAllowedImports else importPath \<in> set allowedImports);
                 findings1 = findings
                   @ report (\<not> allowed \<and> \<not> has_prefix importPath module_prefix) ''import-not-allowed''
                   @ report (importPath = ''os'' \<and> allowedOSSelectorsForFile relative = None) ''os-import-not-allowed''
                   @ report (importPath = ''time'' \<and> gm_get productionTimeSelectors relative = None)
                       ''time-import-not-allowed''
                   @ report (importPath = internalSafetyImport) ''safety-package-import-not-allowed'';
                 alias = (case last_index_byte importPath CHR ''/'' of
                            None \<Rightarrow> importPath | Some slash \<Rightarrow> drop (slash + 1) importPath)
             in case im_name imported of
                  None \<Rightarrow> (findings1, gm_set alias importPath aliases)
                | Some name \<Rightarrow>
                    if name = ''.'' \<or> name = ''_''
                    then (findings1 @ [Finding relative ''import-alias-not-allowed''], aliases)
                    else (findings1, gm_set name importPath aliases))))"

text \<open>One check of a selector; the flag says that the callback returned early.\<close>

definition chain_findings :: "bytes \<Rightarrow> bytes \<Rightarrow> bytes list option \<Rightarrow> bytes list option \<Rightarrow> finding list \<times> bool" where
  "chain_findings relative kind allowed chain =
     (case chain of
        None \<Rightarrow> ([], False)
      | Some c \<Rightarrow>
          if length c \<noteq> 1 then ([Finding relative (kind @ ''-selector-chain-not-allowed'')], True)
          else if hd c \<notin> set (case allowed of Some a \<Rightarrow> a | None \<Rightarrow> []) \<or> allowed = None
               then ([Finding relative (kind @ ''-selector-not-allowed'')], False)
               else ([], False))"

definition scan_selector :: "bytes \<Rightarrow> (bytes, bytes) gomap \<Rightarrow> go_node \<times> bytes \<Rightarrow> finding list" where
  "scan_selector relative aliases selector =
     (case selector of (x, sel) \<Rightarrow>
       (case chain_findings relative ''os'' (allowedOSSelectorsForFile relative)
               (selectorChainForImport x sel aliases ''os'') of
          (fs, True) \<Rightarrow> fs
        | (fs, False) \<Rightarrow>
            fs @ fst (chain_findings relative ''time'' (gm_get productionTimeSelectors relative)
               (selectorChainForImport x sel aliases ''time''))))"

text \<open>The selectors \<^verbatim>\<open>ast.Inspect\<close> visits, in its order.\<close>

fun selectors :: "go_node \<Rightarrow> (go_node \<times> bytes) list" where
  "selectors (Ident name) = []"
| "selectors (Selector x sel) = (x, sel) # selectors x"
| "selectors (Node xs) = concat (map selectors xs)"

definition scanGoFile :: "go_frontend \<Rightarrow> bytes \<Rightarrow> bytes \<Rightarrow> finding list" where
  "scanGoFile fe relative content =
     (case fe_parse fe content of
        None \<Rightarrow> [Finding relative ''invalid-go-syntax'']
      | Some parsed \<Rightarrow>
          (case fold (scan_import fe relative) (gf_imports parsed) ([], []) of
             (findings, aliases) \<Rightarrow>
               findings @ concat (map (scan_selector relative aliases) (selectors (gf_root parsed)))))"

section \<open>The tree\<close>

text \<open>
  A directory has its entries, or cannot be listed; a regular file its content, or cannot be read.
\<close>

datatype tree_entry = Directory "(bytes \<times> tree_entry) list option" | RegularFile "bytes option"
  | SymbolicLink | OtherEntry

fun append_findings :: "finding list option list \<Rightarrow> finding list option" where
  "append_findings [] = Some []"
| "append_findings (None # rs) = None"
| "append_findings (Some fs # rs) = map_option ((@) fs) (append_findings rs)"

definition scan_file :: "go_frontend \<Rightarrow> bytes \<Rightarrow> bytes option \<Rightarrow> finding list option" where
  "scan_file fe relative file_content =
     (case file_content of
        None \<Rightarrow> None
      | Some content \<Rightarrow>
          Some (scanFilename relative @ scanPublicContent relative content
            @ (if has_suffix (to_lower relative) ''.go'' \<and> \<not> has_suffix relative ''_test.go''
               then scanGoFile fe relative content else [])))"

fun scan_entry :: "go_frontend \<Rightarrow> bytes \<Rightarrow> tree_entry \<Rightarrow> finding list option" where
  "scan_entry fe relative (Directory entries) =
     (if relative = ''.git'' then Some []
      else case entries of
        None \<Rightarrow> None
      | Some es \<Rightarrow> append_findings (map (\<lambda>(name, e). scan_entry fe (relative @ ''/'' @ name) e) es))"
| "scan_entry fe relative SymbolicLink =
     (if relative = ''.git'' then Some [] else Some [Finding relative ''symlink-entry''])"
| "scan_entry fe relative OtherEntry =
     (if relative = ''.git'' then Some [] else Some [Finding relative ''non-regular-entry''])"
| "scan_entry fe relative (RegularFile content) =
     (if relative = ''.git'' then Some [] else scan_file fe relative content)"

text \<open>The root itself is never judged; \<open>None\<close> as the root is one that does not exist.\<close>

definition ScanProductionTree :: "go_frontend \<Rightarrow> tree_entry option \<Rightarrow> finding list option" where
  "ScanProductionTree fe root =
     (case root of
        None \<Rightarrow> None
      | Some (Directory None) \<Rightarrow> None
      | Some (Directory (Some es)) \<Rightarrow>
          map_option (\<lambda>findings. uniqueFindings (sort findings))
            (append_findings (map (\<lambda>(name, e). scan_entry fe name e) es))
      | Some _ \<Rightarrow> Some [])"

end
