(* ===== verification/ContentProps.thy ===== *)
theory ContentProps
  imports Content
begin

text \<open>
  The content checks against what they look for: the token search returns and is exact, the e-mail
  scan finds exactly the addresses of a given shape, and findings are reported once, in order.
\<close>

section \<open>Findings\<close>

lemma unique_loop_eq:
  "0 < n \<Longrightarrow> n \<le> i \<Longrightarrow> i \<le> length findings \<Longrightarrow>
     unique_loop findings n i = take (n - 1) findings @ remdups_adj (findings ! (n - 1) # drop i findings)"
proof (induction findings n i rule: unique_loop.induct)
  case (1 findings n i)
  show ?case
  proof (cases "i = length findings")
    case True
    with 1(3,4) show ?thesis
      by (subst unique_loop.simps) (simp add: take_Suc_conv_app_nth [symmetric])
  next
    case False
    with 1(5) have i: "i < length findings" by simp
    then have rest: "drop i findings = findings ! i # drop (Suc i) findings"
      by (simp add: Cons_nth_drop_Suc)
    have same: "(fn_path (findings ! i) \<noteq> fn_path (findings ! (n - 1)) \<or>
        fn_code (findings ! i) \<noteq> fn_code (findings ! (n - 1))) \<longleftrightarrow> findings ! i \<noteq> findings ! (n - 1)"
      by (auto simp: finding.expand)
    show ?thesis
    proof (cases "findings ! i = findings ! (n - 1)")
      case True
      have "unique_loop findings n i = unique_loop findings n (i + 1)"
        using i True by (subst unique_loop.simps) (simp add: Let_def)
      also have "\<dots> = take (n - 1) findings @ remdups_adj (findings ! (n - 1) # drop (i + 1) findings)"
        using 1(2) [OF _ refl refl] i same True 1(3,4) by simp
      finally show ?thesis
        by (simp only: rest True remdups_adj.simps simp_thms if_True Suc_eq_plus1)
    next
      case False
      have step: "unique_loop findings n i = unique_loop (findings[n := findings ! i]) (n + 1) (i + 1)"
        using i same False by (subst unique_loop.simps) (simp add: Let_def)
      have "unique_loop (findings[n := findings ! i]) (n + 1) (i + 1) =
          take n findings @ remdups_adj (findings ! i # drop (i + 1) findings)"
        using 1(1) [OF _ refl refl] i same False 1(3,4) by simp
      moreover have "take n findings = take (n - 1) findings @ [findings ! (n - 1)]"
        using 1(3,4) i take_Suc_conv_app_nth [of "n - 1" findings] by simp
      ultimately show ?thesis
        using False by (simp add: step rest)
    qed
  qed
qed

lemma uniqueFindings_eq: "uniqueFindings findings = remdups_adj findings"
proof (cases findings rule: remdups_adj.cases)
  case (3 x y xs)
  then show ?thesis
    using unique_loop_eq [of 1 1 findings] by (simp add: uniqueFindings_def)
qed (simp_all add: uniqueFindings_def)

lemma sorted_remdups_adj_strict: "sorted (xs :: 'a :: linorder list) \<Longrightarrow> sorted_wrt (<) (remdups_adj xs)"
  by (induction xs rule: remdups_adj.induct) (auto simp: order.strict_iff_order)

lemma report_findings: "uniqueFindings (sort findings) = sorted_list_of_set (set findings)"
proof (rule sorted_distinct_set_unique)
  have "sorted_wrt (<) (uniqueFindings (sort findings))"
    by (simp add: uniqueFindings_eq sorted_remdups_adj_strict)
  then show "sorted (uniqueFindings (sort findings))" "distinct (uniqueFindings (sort findings))"
    by (simp_all add: strict_sorted_iff)
qed (simp_all add: uniqueFindings_eq)

section \<open>The token search\<close>

definition token_at :: "bytes \<Rightarrow> bytes \<Rightarrow> nat \<Rightarrow> bool" where
  "token_at content token i \<longleftrightarrow>
     has_prefix (drop i content) token \<and> (i = 0 \<or> \<not> asciiAlphaNumeric (content ! (i - 1))) \<and>
     (i + length token = length content \<or> \<not> asciiAlphaNumeric (content ! (i + length token)))"

lemma token_search_returns:
  assumes "token \<noteq> []"
  shows "c \<le> length content \<Longrightarrow>
    token_search content token (drop c content) c = Some (\<exists>i \<ge> c. token_at content token i)"
proof (induction "length content - c" arbitrary: c rule: less_induct)
  case less
  show ?case
  proof (cases "index_of (drop c content) token")
    case None
    have "\<not> has_prefix (drop i content) token" if "c \<le> i" for i
      using index_of_None [OF None, of "i - c"] that by simp
    with None show ?thesis
      by (subst token_search.simps) (auto simp: token_at_def)
  next
    case (Some k)
    have at: "has_prefix (drop (c + k) content) token"
      using index_of_Some [OF Some] by (simp add: add.commute)
    from has_prefix_length [OF this] assms have k: "c + k < length content"
      by (cases token) auto
    have earlier: "\<not> has_prefix (drop i content) token" if "c \<le> i" "i < c + k" for i
      using index_of_least [OF Some, of "i - c"] that by simp
    show ?thesis
    proof (cases "token_at content token (c + k)")
      case True
      then have "\<exists>i \<ge> c. token_at content token i" using le_add1 by blast
      with True Some show ?thesis
        by (subst token_search.simps) (simp add: Let_def token_at_def)
    next
      case False
      have "token_search content token (drop c content) c =
          token_search content token (drop (c + k + 1) content) (c + k + 1)"
        using False Some at k by (subst token_search.simps) (auto simp: Let_def token_at_def ac_simps)
      also have "\<dots> = Some (\<exists>i \<ge> c + k + 1. token_at content token i)"
        using k by (intro less) auto
      also have "(\<exists>i \<ge> c + k + 1. token_at content token i) \<longleftrightarrow> (\<exists>i \<ge> c. token_at content token i)"
      proof
        assume "\<exists>i \<ge> c. token_at content token i"
        then obtain i where i: "c \<le> i" "token_at content token i" by blast
        then have "i \<noteq> c + k" "\<not> i < c + k"
          using False earlier by (auto simp: token_at_def)
        with i show "\<exists>i \<ge> c + k + 1. token_at content token i" by (intro exI [of _ i]) auto
      qed (meson le_add1 le_trans)
      finally show ?thesis .
    qed
  qed
qed

lemma token_at_split:
  assumes "token \<noteq> []"
  shows "(\<exists>i. token_at content token i) \<longleftrightarrow>
    (\<exists>a b. content = a @ token @ b \<and> (a = [] \<or> \<not> asciiAlphaNumeric (last a)) \<and>
       (b = [] \<or> \<not> asciiAlphaNumeric (hd b)))"
proof
  assume "\<exists>i. token_at content token i"
  then obtain i where i: "token_at content token i" by blast
  then obtain b where b: "drop i content = token @ b"
    by (auto simp: token_at_def has_prefix_iff)
  then have le: "i < length content" using assms by (metis append_is_Nil_conv drop_eq_Nil not_less)
  have split: "content = take i content @ token @ b" using b by (metis append_take_drop_id)
  have "b = drop (i + length token) content"
    using b by (metis add.commute append_eq_conv_conj drop_drop)
  then have "b = [] \<or> hd b = content ! (i + length token)"
    by (metis drop_eq_Nil hd_drop_conv_nth linorder_not_le)
  moreover have "take i content = [] \<or> last (take i content) = content ! (i - 1)"
    using le by (cases i) (auto simp: take_Suc_conv_app_nth)
  moreover have "i + length token = length content \<Longrightarrow> b = []"
    using split le by (metis append_self_conv append_take_drop_id b drop_all drop_drop le_refl add.commute append_eq_conv_conj)
  moreover have "i = 0 \<Longrightarrow> take i content = []" by simp
  ultimately have "(take i content = [] \<or> \<not> asciiAlphaNumeric (last (take i content))) \<and>
      (b = [] \<or> \<not> asciiAlphaNumeric (hd b))"
    using i by (auto simp: token_at_def)
  with split show "\<exists>a b. content = a @ token @ b \<and> (a = [] \<or> \<not> asciiAlphaNumeric (last a)) \<and>
       (b = [] \<or> \<not> asciiAlphaNumeric (hd b))" by blast
next
  assume "\<exists>a b. content = a @ token @ b \<and> (a = [] \<or> \<not> asciiAlphaNumeric (last a)) \<and>
       (b = [] \<or> \<not> asciiAlphaNumeric (hd b))"
  then obtain a b where ab: "content = a @ token @ b" "a = [] \<or> \<not> asciiAlphaNumeric (last a)"
      "b = [] \<or> \<not> asciiAlphaNumeric (hd b)" by blast
  have "a \<noteq> [] \<Longrightarrow> content ! (length a - 1) = last a"
    by (simp add: ab(1) nth_append last_conv_nth)
  moreover have "b \<noteq> [] \<Longrightarrow> content ! (length a + length token) = hd b"
    by (simp add: ab(1) nth_append hd_conv_nth)
  ultimately have "token_at content token (length a)"
    using ab by (auto simp: token_at_def)
  then show "\<exists>i. token_at content token i" ..
qed

text \<open>
  C37: the token search always returns, for every content and every non-empty token, without
  leaving its slice; and it returns true exactly when the token occurs with no lower-case letter or
  digit directly before or after it.
\<close>

theorem token_search_exact:
  assumes "token \<noteq> []"
  shows "containsASCIIToken content token =
    Some (\<exists>a b. content = a @ token @ b \<and> (a = [] \<or> \<not> asciiAlphaNumeric (last a)) \<and>
      (b = [] \<or> \<not> asciiAlphaNumeric (hd b)))"
  using token_search_returns [OF assms, of 0 content] token_at_split [OF assms, of content]
  by (simp add: containsASCIIToken_def)

theorem token_search_exact_witness:
  "containsASCIIToken ''ask rancherx, rancher.'' ''rancher'' = Some True"
proof -
  have "\<exists>a b. ''ask rancherx, rancher.'' = a @ ''rancher'' @ b \<and> (a = [] \<or> \<not> asciiAlphaNumeric (last a)) \<and>
      (b = [] \<or> \<not> asciiAlphaNumeric (hd b))"
    by (rule exI [of _ "''ask rancherx, ''"], rule exI [of _ "''.''"]) (simp add: asciiAlphaNumeric_def)
  then show ?thesis
    using token_search_exact [of "''rancher''" "''ask rancherx, rancher.''"] by simp
qed

section \<open>E-mail addresses\<close>

lemma email_right_takeWhile:
  "i \<le> length content \<Longrightarrow>
     drop i (take (email_right content i) content) = takeWhile emailDomainByte (drop i content) \<and>
     i \<le> email_right content i"
proof (induction content i rule: email_right.induct)
  case (1 content right)
  show ?case
  proof (cases "right < length content \<and> emailDomainByte (content ! right)")
    case True
    then have step: "email_right content right = email_right content (Suc right)"
      by (subst email_right.simps) simp
    from 1 True have IH: "drop (Suc right) (take (email_right content (Suc right)) content) =
        takeWhile emailDomainByte (drop (Suc right) content)" "Suc right \<le> email_right content (Suc right)"
      by auto
    have "drop right content = content ! right # drop (Suc right) content"
      using True by (simp add: Cons_nth_drop_Suc)
    moreover have "drop right (take (email_right content (Suc right)) content) =
        content ! right # drop (Suc right) (take (email_right content (Suc right)) content)"
      using True IH(2) by (subst Cons_nth_drop_Suc [symmetric]) auto
    ultimately show ?thesis using True IH step by simp
  next
    case False
    then have "email_right content right = right" by (subst email_right.simps) (simp only: if_False)
    moreover have "takeWhile emailDomainByte (drop right content) = []"
      using False hd_drop_conv_nth [of right content] by (auto simp: takeWhile_eq_Nil_iff)
    ultimately show ?thesis by simp
  qed
qed

text \<open>The domains the scan accepts: the label after the last dot has two bytes or more.\<close>

definition email_domain :: "bytes \<Rightarrow> bool" where
  "email_domain d \<longleftrightarrow>
     (\<exists>p t. d = p @ CHR ''.'' # t \<and> p \<noteq> [] \<and> hd p \<noteq> CHR ''.'' \<and> CHR ''.'' \<notin> set t \<and> 2 \<le> length t)"

lemma email_domain_dot:
  "(case last_index_byte d CHR ''.'' of
      None \<Rightarrow> False
    | Some lastDot \<Rightarrow> lastDot > 0 \<and> length d - lastDot - 1 \<ge> 2 \<and> hd d \<noteq> CHR ''.'' \<and> d ! (length d - 1) \<noteq> CHR ''.'')
   \<longleftrightarrow> email_domain d"
proof
  assume "case last_index_byte d CHR ''.'' of
      None \<Rightarrow> False
    | Some lastDot \<Rightarrow> lastDot > 0 \<and> length d - lastDot - 1 \<ge> 2 \<and> hd d \<noteq> CHR ''.'' \<and> d ! (length d - 1) \<noteq> CHR ''.''"
  then obtain i where i: "last_index_byte d CHR ''.'' = Some i" "0 < i" "length d - i - 1 \<ge> 2" "hd d \<noteq> CHR ''.''"
    by (auto split: option.splits)
  have at: "i < length d" "d ! i = CHR ''.''" "CHR ''.'' \<notin> set (drop (Suc i) d)"
    using last_index_byte_Some [OF i(1)] by auto
  have "d = take i d @ CHR ''.'' # drop (Suc i) d"
    using at by (metis id_take_nth_drop)
  moreover have "take i d \<noteq> []" "hd (take i d) \<noteq> CHR ''.''"
    using i(2,4) at(1) by auto
  ultimately show "email_domain d"
    unfolding email_domain_def using at(3) i(3) by (intro exI [of _ "take i d"] exI [of _ "drop (Suc i) d"]) auto
next
  assume "email_domain d"
  then obtain p t where d: "d = p @ CHR ''.'' # t" "p \<noteq> []" "hd p \<noteq> CHR ''.''" "CHR ''.'' \<notin> set t" "2 \<le> length t"
    by (auto simp: email_domain_def)
  have "last_index_byte d CHR ''.'' = Some (length p)"
    using d by (simp add: last_index_byte_app)
  moreover have "d ! (length d - 1) = last t"
  proof -
    have "t \<noteq> []" using d(5) by auto
    then show ?thesis by (simp add: d(1) last_conv_nth)
  qed
  moreover have "last t \<noteq> CHR ''.''"
    using d(4,5) by (metis last_in_set list.size(3) not_numeral_le_zero)
  ultimately show "case last_index_byte d CHR ''.'' of
      None \<Rightarrow> False
    | Some lastDot \<Rightarrow> lastDot > 0 \<and> length d - lastDot - 1 \<ge> 2 \<and> hd d \<noteq> CHR ''.'' \<and> d ! (length d - 1) \<noteq> CHR ''.''"
    using d by simp
qed

lemma email_left_le: "email_left content i \<le> i"
  by (induction i) auto

lemma email_at_iff:
  "index < length content \<Longrightarrow> email_at content index \<longleftrightarrow>
     content ! index = CHR ''@'' \<and> 0 < index \<and> emailLocalByte (content ! (index - 1)) \<and>
     email_domain (takeWhile emailDomainByte (drop (Suc index) content))"
proof -
  assume i: "index < length content"
  define d where "d = takeWhile emailDomainByte (drop (Suc index) content)"
  have "index + 1 < length content \<and> emailDomainByte (content ! (index + 1))" if "email_domain d"
  proof -
    have "d \<noteq> []" using that by (auto simp: email_domain_def)
    then have "drop (Suc index) content \<noteq> []" "emailDomainByte (hd (drop (Suc index) content))"
      by (auto simp: d_def takeWhile_eq_Nil_iff)
    then show ?thesis by (simp add: hd_drop_conv_nth)
  qed
  moreover have "drop (Suc index) (take (email_right content (Suc index)) content) = d"
    using email_right_takeWhile [of "Suc index" content] i by (simp add: d_def)
  moreover have "email_left content (index - 1) < index" if "0 < index"
    using email_left_le [of content "index - 1"] that by simp
  ultimately show ?thesis
    unfolding email_at_def Let_def d_def [symmetric] Suc_eq_plus1 [symmetric] by (simp only: email_domain_dot) auto
qed

text \<open>
  The scan finds an e-mail address exactly when some at sign has a local-part byte before it
  and the longest run of domain bytes after it is a domain: it does not begin with a dot, has one,
  and its last label has two bytes or more.
\<close>

lemma email_scan_exact:
  "containsEmail content \<longleftrightarrow>
     (\<exists>a l d b. content = a @ l # CHR ''@'' # d @ b \<and> emailLocalByte l \<and> list_all emailDomainByte d \<and>
        (b = [] \<or> \<not> emailDomainByte (hd b)) \<and> email_domain d)"
proof
  assume "containsEmail content"
  then obtain i where "i < length content" and at: "email_at content i"
    by (auto simp: containsEmail_def list_ex_iff)
  define rest where "rest = drop (Suc i) content"
  from at email_at_iff [OF \<open>i < length content\<close>]
  have i: "content ! i = CHR ''@''" "0 < i" "emailLocalByte (content ! (i - 1))"
      "email_domain (takeWhile emailDomainByte rest)"
    by (auto simp: rest_def)
  then obtain j where j: "i = Suc j" by (cases i) auto
  then have "content = take j content @ content ! j # content ! i # rest"
    using \<open>i < length content\<close> by (metis Cons_nth_drop_Suc Suc_lessD append_take_drop_id rest_def)
  then have "content = take j content @ content ! j # CHR ''@'' # takeWhile emailDomainByte rest @ dropWhile emailDomainByte rest"
    using i(1) by simp
  moreover have "dropWhile emailDomainByte rest = [] \<or> \<not> emailDomainByte (hd (dropWhile emailDomainByte rest))"
    using hd_dropWhile by blast
  moreover have "list_all emailDomainByte (takeWhile emailDomainByte rest)"
    by (auto simp: list_all_iff dest: set_takeWhileD)
  ultimately show "\<exists>a l d b. content = a @ l # CHR ''@'' # d @ b \<and> emailLocalByte l \<and> list_all emailDomainByte d \<and>
        (b = [] \<or> \<not> emailDomainByte (hd b)) \<and> email_domain d"
    using i(3,4) j by fastforce
next
  assume "\<exists>a l d b. content = a @ l # CHR ''@'' # d @ b \<and> emailLocalByte l \<and> list_all emailDomainByte d \<and>
        (b = [] \<or> \<not> emailDomainByte (hd b)) \<and> email_domain d"
  then obtain a l d b where c: "content = a @ l # CHR ''@'' # d @ b" "emailLocalByte l" "list_all emailDomainByte d"
      "b = [] \<or> \<not> emailDomainByte (hd b)" "email_domain d" by blast
  have "takeWhile emailDomainByte (d @ b) = d"
    using c(3,4) by (cases b) (auto simp: list_all_iff takeWhile_append)
  then have "email_at content (Suc (length a))"
    using c by (subst email_at_iff) (auto simp: nth_append)
  then show "containsEmail content"
    unfolding containsEmail_def list_ex_iff by (rule bexI) (simp only: c(1) set_upt atLeastLessThan_iff, simp)
qed

end
