(* ===== verification/ScanProps.thy ===== *)
theory ScanProps
  imports TreeScan ContentProps
begin

text \<open>
  The gate over a tree: which files it accepts, entry by entry, and the policy a Go file must
  follow to pass.
\<close>

section \<open>The walk\<close>

text \<open>The entries the walk visits from one entry on: nothing below the root's \<^verbatim>\<open>.git\<close>.\<close>

inductive within :: "bytes \<Rightarrow> tree_entry \<Rightarrow> bytes \<Rightarrow> tree_entry \<Rightarrow> bool" where
  self: "within p e p e"
| child: "p \<noteq> ''.git'' \<Longrightarrow> (name, c) \<in> set ds \<Longrightarrow> within (p @ ''/'' @ name) c q x \<Longrightarrow>
    within p (Directory (Some ds)) q x"

inductive_simps within_dir: "within p (Directory entries) q x"
inductive_simps within_leaf: "within p SymbolicLink q x" "within p OtherEntry q x" "within p (RegularFile c) q x"

definition in_tree :: "(bytes \<times> tree_entry) list \<Rightarrow> bytes \<Rightarrow> tree_entry \<Rightarrow> bool" where
  "in_tree es q x \<longleftrightarrow> (\<exists>name e. (name, e) \<in> set es \<and> within name e q x)"

text \<open>What is found at one entry; \<open>None\<close> when it cannot be read.\<close>

definition own_findings :: "go_frontend \<Rightarrow> bytes \<Rightarrow> tree_entry \<Rightarrow> finding list option" where
  "own_findings fe p e =
     (if p = ''.git'' then Some []
      else case e of
        Directory None \<Rightarrow> None
      | Directory (Some _) \<Rightarrow> Some []
      | SymbolicLink \<Rightarrow> Some [Finding p ''symlink-entry'']
      | OtherEntry \<Rightarrow> Some [Finding p ''non-regular-entry'']
      | RegularFile content \<Rightarrow> scan_file fe p content)"

definition found :: "go_frontend \<Rightarrow> (bytes \<Rightarrow> tree_entry \<Rightarrow> bool) \<Rightarrow> finding set" where
  "found fe P = {f. \<exists>p e fs. P p e \<and> own_findings fe p e = Some fs \<and> f \<in> set fs}"

definition unreadable :: "go_frontend \<Rightarrow> (bytes \<Rightarrow> tree_entry \<Rightarrow> bool) \<Rightarrow> bool" where
  "unreadable fe P \<longleftrightarrow> (\<exists>p e. P p e \<and> own_findings fe p e = None)"

lemma append_findings_eq:
  "append_findings rs = (if None \<in> set rs then None else Some (concat (map the rs)))"
  by (induction rs rule: append_findings.induct) auto

definition describes :: "go_frontend \<Rightarrow> (bytes \<Rightarrow> tree_entry \<Rightarrow> bool) \<Rightarrow> finding list option \<Rightarrow> bool" where
  "describes fe P r \<longleftrightarrow> (case r of None \<Rightarrow> unreadable fe P | Some fs \<Rightarrow> \<not> unreadable fe P \<and> set fs = found fe P)"

lemma describes_leaf:
  "(\<And>q x. P q x \<longleftrightarrow> q = p \<and> x = e) \<Longrightarrow> r = own_findings fe p e \<Longrightarrow> describes fe P r"
  by (auto simp: describes_def unreadable_def found_def split: option.splits)

lemma describes_append:
  assumes "list_all2 (\<lambda>r P. describes fe P r) rs Ps"
  shows "describes fe (\<lambda>q x. \<exists>P \<in> set Ps. P q x) (append_findings rs)"
proof -
  have all: "None \<in> set rs \<longleftrightarrow> (\<exists>P \<in> set Ps. unreadable fe P)"
    using assms by (induction rule: list_all2_induct) (auto simp: describes_def split: option.splits)
  have "set (concat (map the rs)) = (\<Union>P \<in> set Ps. found fe P)" if "None \<notin> set rs"
    using assms that by (induction rule: list_all2_induct) (auto simp: describes_def split: option.splits)
  moreover have "unreadable fe (\<lambda>q x. \<exists>P \<in> set Ps. P q x) \<longleftrightarrow> (\<exists>P \<in> set Ps. unreadable fe P)"
    unfolding unreadable_def by blast
  moreover have "found fe (\<lambda>q x. \<exists>P \<in> set Ps. P q x) = (\<Union>P \<in> set Ps. found fe P)"
    unfolding found_def by blast
  ultimately show ?thesis
    using all by (simp add: describes_def append_findings_eq)
qed

lemma describes_above:
  assumes "describes fe P r" and "own_findings fe p e = Some []"
    and "\<And>q x. P' q x \<longleftrightarrow> (q = p \<and> x = e) \<or> P q x"
  shows "describes fe P' r"
proof -
  have "unreadable fe P' \<longleftrightarrow> unreadable fe P" "found fe P' = found fe P"
    using assms(2,3) by (auto simp: unreadable_def found_def)
  with assms(1) show ?thesis unfolding describes_def by (simp only:)
qed

lemma scan_entry_describes: "describes fe (within p e) (scan_entry fe p e)"
proof (induction fe p e rule: scan_entry.induct)
  case (1 fe relative entries)
  show ?case
  proof (cases "relative = ''.git'' \<or> entries = None")
    case True
    then show ?thesis
      by (intro describes_leaf [of _ relative "Directory entries"])
        (auto simp: within_dir own_findings_def)
  next
    case False
    then obtain ds where ds: "entries = Some ds" and p: "relative \<noteq> ''.git''" by auto
    define r where "r = (\<lambda>(name, c). scan_entry fe (relative @ ''/'' @ name) c)"
    define P where "P = (\<lambda>(name, c). within (relative @ ''/'' @ name) c)"
    have "describes fe (P d) (r d)" if "d \<in> set ds" for d
      using 1 [OF p ds that] by (cases d) (auto simp: r_def P_def)
    then have "describes fe (\<lambda>q x. \<exists>P' \<in> set (map P ds). P' q x) (append_findings (map r ds))"
      by (intro describes_append) (simp add: list_all2_map1 list_all2_map2 list_all2_same)
    moreover have "scan_entry fe relative (Directory entries) = append_findings (map r ds)"
      using p ds by (simp add: r_def)
    moreover have "own_findings fe relative (Directory entries) = Some []"
      using p ds by (simp add: own_findings_def)
    moreover have "within relative (Directory entries) q x \<longleftrightarrow>
        (q = relative \<and> x = Directory entries) \<or> (\<exists>P' \<in> set (map P ds). P' q x)" for q x
      using p ds by (auto simp: within_dir P_def)
    ultimately show ?thesis by (simp only: describes_above)
  qed
qed (intro describes_leaf, auto simp: within_leaf own_findings_def)+

text \<open>
  C38: the gate judges every entry of the tree outside the root's \<^verbatim>\<open>.git\<close>, and nothing else. It
  fails exactly when a visited directory cannot be listed or a visited file not read; otherwise its
  report is the list of all findings at the visited entries, in order and without repetition,
  whatever order the directories are listed in.
\<close>

theorem tree_scan_exact:
  "ScanProductionTree fe (Some (Directory (Some es))) =
     (if unreadable fe (in_tree es) then None else Some (sorted_list_of_set (found fe (in_tree es))))"
proof -
  define r where "r = (\<lambda>(name, e). scan_entry fe name e)"
  define P where "P = (\<lambda>(name, e). within name e)"
  have "describes fe (P d) (r d)" for d
    by (cases d) (simp add: r_def P_def scan_entry_describes)
  then have "describes fe (\<lambda>q x. \<exists>P' \<in> set (map P es). P' q x) (append_findings (map r es))"
    by (intro describes_append) (simp add: list_all2_map1 list_all2_map2 list_all2_same)
  moreover have "(\<lambda>q x. \<exists>P' \<in> set (map P es). P' q x) = in_tree es"
    by (force simp: fun_eq_iff in_tree_def P_def)
  ultimately have "describes fe (in_tree es) (append_findings (map r es))"
    by simp
  then show ?thesis
    unfolding ScanProductionTree_def r_def
    by (auto simp: describes_def report_findings split: option.splits)
qed

section \<open>The Go policy\<close>

definition import_ok :: "go_frontend \<Rightarrow> bytes \<Rightarrow> go_import \<Rightarrow> bool" where
  "import_ok fe relative imported \<longleftrightarrow>
     (\<exists>path. fe_unquote fe (im_path imported) = Some path \<and>
        (path \<in> set (if has_prefix relative ''internal/broker/'' then runtimeAllowedImports else allowedImports) \<or>
         has_prefix path module_prefix) \<and>
        (path = ''os'' \<longrightarrow> allowedOSSelectorsForFile relative \<noteq> None) \<and>
        (path = ''time'' \<longrightarrow> gm_get productionTimeSelectors relative \<noteq> None) \<and>
        path \<noteq> internalSafetyImport \<and> im_name imported \<notin> {Some ''.'', Some ''_''})"

text \<open>The names a file's imports bind, the last binding of a name counting.\<close>

definition bind_import :: "go_frontend \<Rightarrow> go_import \<Rightarrow> (bytes, bytes) gomap \<Rightarrow> (bytes, bytes) gomap" where
  "bind_import fe imported aliases =
     (case fe_unquote fe (im_path imported) of
        None \<Rightarrow> aliases
      | Some path \<Rightarrow>
          (case im_name imported of
             None \<Rightarrow> gm_set (case last_index_byte path CHR ''/'' of None \<Rightarrow> path | Some slash \<Rightarrow> drop (slash + 1) path) path aliases
           | Some name \<Rightarrow> if name \<in> {''.'', ''_''} then aliases else gm_set name path aliases))"

text \<open>A use of a package: a selector over a name bound to it, as such and among those allowed.\<close>

fun base_ident :: "go_node \<Rightarrow> bytes option" where
  "base_ident (Ident name) = Some name"
| "base_ident (Selector x sel) = base_ident x"
| "base_ident (Node xs) = None"

definition use_ok :: "(bytes, bytes) gomap \<Rightarrow> bytes \<Rightarrow> bytes list option \<Rightarrow> go_node \<times> bytes \<Rightarrow> bool" where
  "use_ok aliases path allowed use \<longleftrightarrow>
     (case base_ident (fst use) of
        Some name \<Rightarrow> gm_get aliases name = Some path \<longrightarrow>
          fst use = Ident name \<and> (\<exists>names. allowed = Some names \<and> snd use \<in> set names)
      | None \<Rightarrow> True)"

lemma chain_base:
  "selectorChainForImport x sel aliases path =
     (case base_ident x of
        Some name \<Rightarrow> if gm_get aliases name = Some path
          then Some (the (selectorChainForImport x sel aliases path)) else None
      | None \<Rightarrow> None)"
  by (induction x sel aliases path rule: selectorChainForImport.induct) (auto split: option.splits if_splits)

lemma chain_length:
  "selectorChainForImport x sel aliases path = Some c \<Longrightarrow>
     c \<noteq> [] \<and> (length c = 1 \<longleftrightarrow> (\<exists>name. x = Ident name)) \<and> (length c = 1 \<longrightarrow> c = [sel])"
proof (induction x sel aliases path arbitrary: c rule: selectorChainForImport.induct)
  case (2 x inner sel aliases path)
  then obtain d where "selectorChainForImport x inner aliases path = Some d" "c = d @ [sel]"
    by (auto split: option.splits)
  with 2 show ?case by auto
qed (auto split: if_splits)

lemma chain_findings_Nil:
  "fst (chain_findings relative kind allowed (selectorChainForImport x sel aliases path)) = [] \<longleftrightarrow>
     use_ok aliases path allowed (x, sel)"
proof (cases "selectorChainForImport x sel aliases path")
  case None
  have "gm_get aliases name \<noteq> Some path" if "base_ident x = Some name" for name
    using None chain_base [of x sel aliases path] that by auto
  with None show ?thesis
    by (auto simp: chain_findings_def use_ok_def split: option.splits)
next
  case (Some c)
  then obtain name where name: "base_ident x = Some name" "gm_get aliases name = Some path"
    using chain_base [of x sel aliases path] by (auto split: option.splits if_splits)
  from chain_length [OF Some] consider "x = Ident name" "c = [sel]" | "length c \<noteq> 1" "\<not> (\<exists>n. x = Ident n)"
    using name(1) by (metis base_ident.simps(1) option.inject)
  then show ?thesis
    using Some name by cases (auto simp: chain_findings_def use_ok_def split: option.splits)
qed

lemma chain_findings_early: "snd (chain_findings relative kind allowed c) \<Longrightarrow> fst (chain_findings relative kind allowed c) \<noteq> []"
  by (auto simp: chain_findings_def split: option.splits if_splits)

lemma scan_selector_Nil:
  "scan_selector relative aliases use = [] \<longleftrightarrow>
     use_ok aliases ''os'' (allowedOSSelectorsForFile relative) use \<and>
     use_ok aliases ''time'' (gm_get productionTimeSelectors relative) use"
proof -
  obtain x sel where use: "use = (x, sel)" by (cases use)
  show ?thesis
    using chain_findings_early [of relative "''os''" "allowedOSSelectorsForFile relative" "selectorChainForImport x sel aliases ''os''"]
      chain_findings_Nil [of relative "''os''" "allowedOSSelectorsForFile relative" x sel aliases "''os''"]
      chain_findings_Nil [of relative "''time''" "gm_get productionTimeSelectors relative" x sel aliases "''time''"]
    unfolding use by (auto simp: scan_selector_def split: prod.splits bool.splits)
qed

definition import_findings :: "go_frontend \<Rightarrow> bytes \<Rightarrow> go_import \<Rightarrow> finding list" where
  "import_findings fe relative imported = fst (scan_import fe relative imported ([], []))"

lemma scan_import_split:
  "scan_import fe relative imported (findings, aliases) =
     (findings @ import_findings fe relative imported, bind_import fe imported aliases)"
  by (cases "fe_unquote fe (im_path imported)"; cases "im_name imported")
    (simp_all add: scan_import_def import_findings_def bind_import_def Let_def)

lemma import_findings_Nil: "import_findings fe relative imported = [] \<longleftrightarrow> import_ok fe relative imported"
proof (cases "fe_unquote fe (im_path imported)")
  case None
  then show ?thesis by (simp add: import_findings_def scan_import_def import_ok_def)
next
  case (Some path)
  have report: "(if b then [f] else []) = [] \<longleftrightarrow> \<not> b" for b and f :: finding by simp
  show ?thesis
    unfolding import_findings_def scan_import_def import_ok_def Let_def
    by (cases "im_name imported") (simp_all add: Some report if_distrib [of "\<lambda>x. _ \<in> set x"] cong: if_cong)
qed

lemma scan_imports_split:
  "fold (scan_import fe relative) ims (findings, aliases) =
     (findings @ concat (map (import_findings fe relative) ims), fold (bind_import fe) ims aliases)"
  by (induction ims arbitrary: findings aliases) (simp_all add: scan_import_split)

text \<open>
  C39: a Go file passes the policy exactly when it parses, each of its imports is on the list for
  its directory or of this module, \<^verbatim>\<open>os\<close> and \<^verbatim>\<open>time\<close> are imported only by the files that may, no
  import is a dot or blank import or the gate itself, and every selector over a name bound to \<^verbatim>\<open>os\<close>
  or \<^verbatim>\<open>time\<close>, anywhere in the file, is one of the file's allowed names and not selected further.
\<close>

theorem go_policy_exact:
  "scanGoFile fe relative content = [] \<longleftrightarrow>
     (\<exists>parsed. fe_parse fe content = Some parsed \<and> list_all (import_ok fe relative) (gf_imports parsed) \<and>
        list_all (use_ok (fold (bind_import fe) (gf_imports parsed) []) ''os'' (allowedOSSelectorsForFile relative))
          (selectors (gf_root parsed)) \<and>
        list_all (use_ok (fold (bind_import fe) (gf_imports parsed) []) ''time'' (gm_get productionTimeSelectors relative))
          (selectors (gf_root parsed)))"
  by (auto simp: scanGoFile_def scan_imports_split import_findings_Nil scan_selector_Nil list_all_iff split: option.splits)

end
