(* ===== verification/Legal.thy ===== *)
theory Legal
  imports Content Requests
begin

text \<open>
  The byte-preserved legal artifacts and their manifest (\<^verbatim>\<open>internal/safety/legal.go\<close>).
\<close>

section \<open>Artifacts\<close>

record legalArtifact =
  la_id :: bytes
  la_file :: bytes
  la_package :: bytes
  la_originalPath :: bytes
  la_classification :: bytes
  la_bytes :: int
  la_sha256 :: bytes

definition artifact :: "bytes \<Rightarrow> bytes \<Rightarrow> bytes \<Rightarrow> bytes \<Rightarrow> bytes \<Rightarrow> int \<Rightarrow> bytes \<Rightarrow> legalArtifact" where
  "artifact i f p q c n h =
     \<lparr>la_id = i, la_file = f, la_package = p, la_originalPath = q, la_classification = c, la_bytes = n,
      la_sha256 = h\<rparr>"

definition HistoricalManifestPath :: bytes where
  "HistoricalManifestPath = ''LICENSES/HISTORICAL-MANIFEST.json''"

definition expectedLegalArtifacts :: "legalArtifact list" where
  "expectedLegalArtifacts =
    [artifact ''root-license'' ''LICENSE'' '''' ''''
       ''Apache-2.0'' 10174
       ''0d542e0c8804e39aa7f37eb00da5a762149dc682d7829451287e11b938e94594'',
     artifact ''dependency-01'' ''LICENSES/historical/dependency-01.txt'' ''github.com/fatih/structs'' ''vendor/github.com/fatih/structs/LICENSE''
       ''MIT'' 1078
       ''8f09e42906e1a3c7bd39629a17225b3b62f25783444d8d75ad5d6657916915df'',
     artifact ''dependency-02'' ''LICENSES/historical/dependency-02.txt'' ''github.com/golang/snappy'' ''vendor/github.com/golang/snappy/LICENSE''
       ''BSD-3-Clause'' 1486
       ''f69f157b0be75da373605dbc8bbf142e8924ee82d8f44f11bcaf351335bf98cf'',
     artifact ''dependency-03'' ''LICENSES/historical/dependency-03.txt'' ''github.com/gorilla/context'' ''vendor/github.com/gorilla/context/LICENSE''
       ''BSD-3-Clause'' 1476
       ''e2b2df1c58a081f27c3b9fa9feec759f2bf2ce430ae02a4f274b2d9ac7e87abd'',
     artifact ''dependency-04'' ''LICENSES/historical/dependency-04.txt'' ''github.com/gorilla/mux'' ''vendor/github.com/gorilla/mux/LICENSE''
       ''BSD-3-Clause'' 1476
       ''e2b2df1c58a081f27c3b9fa9feec759f2bf2ce430ae02a4f274b2d9ac7e87abd'',
     artifact ''dependency-05'' ''LICENSES/historical/dependency-05.txt'' ''github.com/gorilla/websocket'' ''vendor/github.com/gorilla/websocket/LICENSE''
       ''BSD-2-Clause'' 1312
       ''2be1b548b0387ca8948e1bb9434e709126904d15f622cc2d0d8e7f186e4d122d'',
     artifact ''dependency-06'' ''LICENSES/historical/dependency-06.txt'' ''github.com/hashicorp/errwrap'' ''vendor/github.com/hashicorp/errwrap/LICENSE''
       ''MPL-2.0'' 15977
       ''bef1747eda88b9ed46e94830b0d978c3499dad5dfe38d364971760881901dadd'',
     artifact ''dependency-07'' ''LICENSES/historical/dependency-07.txt'' ''github.com/hashicorp/go-cleanhttp'' ''vendor/github.com/hashicorp/go-cleanhttp/LICENSE''
       ''MPL-2.0'' 15922
       ''60222c28c1a7f6a92c7df98e5c5f4459e624e6e285e0b9b94467af5f6ab3343d'',
     artifact ''dependency-08'' ''LICENSES/historical/dependency-08.txt'' ''github.com/hashicorp/go-multierror'' ''vendor/github.com/hashicorp/go-multierror/LICENSE''
       ''MPL-2.0'' 15976
       ''a830016911a348a54e89bd54f2f8b0d8fffdeac20aecfba8e36ebbf38a03f5ff'',
     artifact ''dependency-09'' ''LICENSES/historical/dependency-09.txt'' ''github.com/hashicorp/go-rootcerts'' ''vendor/github.com/hashicorp/go-rootcerts/LICENSE''
       ''MPL-2.0'' 15922
       ''60222c28c1a7f6a92c7df98e5c5f4459e624e6e285e0b9b94467af5f6ab3343d'',
     artifact ''dependency-10'' ''LICENSES/historical/dependency-10.txt'' ''github.com/hashicorp/hcl'' ''vendor/github.com/hashicorp/hcl/LICENSE''
       ''MPL-2.0'' 15977
       ''bef1747eda88b9ed46e94830b0d978c3499dad5dfe38d364971760881901dadd'',
     artifact ''dependency-11'' ''LICENSES/historical/dependency-11.txt'' ''github.com/hashicorp/vault'' ''vendor/github.com/hashicorp/vault/LICENSE''
       ''MPL-2.0'' 15922
       ''60222c28c1a7f6a92c7df98e5c5f4459e624e6e285e0b9b94467af5f6ab3343d'',
     artifact ''dependency-12'' ''LICENSES/historical/dependency-12.txt'' ''github.com/mitchellh/mapstructure'' ''vendor/github.com/mitchellh/mapstructure/LICENSE''
       ''MIT'' 1085
       ''22adc4abdece712a737573672f082fd61ac2b21df878efb87ffcff4354a07f26'',
     artifact ''dependency-13'' ''LICENSES/historical/dependency-13.txt'' ''github.com/pkg/errors'' ''vendor/github.com/pkg/errors/LICENSE''
       ''BSD-2-Clause'' 1312
       ''8d427fd87bc9579ea368fde3d49f9ca22eac857f91a9dec7e3004bdfab7dee86'',
     artifact ''dependency-14'' ''LICENSES/historical/dependency-14.txt'' ''github.com/rancher/go-rancher'' ''vendor/github.com/rancher/go-rancher/LICENSE''
       ''Apache-2.0'' 10174
       ''0d542e0c8804e39aa7f37eb00da5a762149dc682d7829451287e11b938e94594'',
     artifact ''dependency-15'' ''LICENSES/historical/dependency-15.txt'' ''github.com/rancher/rancher-flexvol'' ''vendor/github.com/rancher/rancher-flexvol/LICENSE''
       ''Apache-2.0'' 10174
       ''0d542e0c8804e39aa7f37eb00da5a762149dc682d7829451287e11b938e94594'',
     artifact ''dependency-16'' ''LICENSES/historical/dependency-16.txt'' ''github.com/sethgrid/pester'' ''vendor/github.com/sethgrid/pester/LICENSE.md''
       ''MIT'' 1066
       ''e3822d9ca72d01efc43b1ed503a01ae64267fd893f60f9008e9d1fe5e11adde7'',
     artifact ''dependency-17'' ''LICENSES/historical/dependency-17.txt'' ''github.com/sirupsen/logrus'' ''vendor/github.com/sirupsen/logrus/LICENSE''
       ''MIT'' 1082
       ''51a0c9ec7f8b7634181b8d4c03e5b5d204ac21d6e72f46c313973424664b2e6b'',
     artifact ''dependency-18'' ''LICENSES/historical/dependency-18.txt'' ''github.com/urfave/cli'' ''vendor/github.com/urfave/cli/LICENSE''
       ''MIT'' 1084
       ''da277af11b85227490377fbcac6afccc68be560c4fff36ac05ca62de55345fd7'',
     artifact ''dependency-19'' ''LICENSES/historical/dependency-19.txt'' ''golang.org/x/sys'' ''vendor/golang.org/x/sys/LICENSE''
       ''BSD-3-Clause'' 1453
       ''911f8f5782931320f5b8d1160a76365b83aea6447ee6c04fa6d5591467db9dad'',
     artifact ''dependency-20'' ''LICENSES/historical/dependency-20.txt'' ''golang.org/x/sys'' ''vendor/golang.org/x/sys/PATENTS''
       ''Additional IP Rights Grant (Patents)'' 1303
       ''96f408bfae65bf137fc2525d3ecb030271c50c1e90799f87abf8846d8dd505cc'',
     artifact ''go-license'' ''LICENSES/GO-LICENSE'' '''' ''''
       ''BSD-3-Clause'' 1453
       ''911f8f5782931320f5b8d1160a76365b83aea6447ee6c04fa6d5591467db9dad'',
     artifact ''go-patents'' ''LICENSES/GO-PATENTS'' '''' ''''
       ''Additional IP Rights Grant (Patents)'' 1303
       ''96f408bfae65bf137fc2525d3ecb030271c50c1e90799f87abf8846d8dd505cc'']"

definition expectedHistoricalManifestBytes :: nat where
  "expectedHistoricalManifestBytes = 8251"

definition expectedHistoricalManifestSHA256 :: bytes where
  "expectedHistoricalManifestSHA256 = ''ec9781b197f004152e1d5d1dbb7d8e83eaa7872e07c805482f22280ad56901e0''"

section \<open>The manifest\<close>

text \<open>A decoded slice also has the elements of its array past its length, which a repeated key reuses.\<close>

record legalManifest =
  lm_schemaVersion :: nat
  lm_status :: bytes
  lm_notice :: bytes
  lm_module :: bytes
  lm_dependencyModel :: bytes
  lm_usedAtRuntime :: bool
  lm_rootLicense :: legalArtifact
  lm_artifacts :: "legalArtifact list"
  lm_artifacts_spare :: "legalArtifact list"
  lm_notices :: "legalArtifact list"
  lm_notices_spare :: "legalArtifact list"

definition zero_artifact :: legalArtifact where
  "zero_artifact = artifact [] [] [] [] [] 0 []"

definition zero_manifest :: legalManifest where
  "zero_manifest =
     \<lparr>lm_schemaVersion = 0, lm_status = [], lm_notice = [], lm_module = [], lm_dependencyModel = [],
      lm_usedAtRuntime = False, lm_rootLicense = zero_artifact, lm_artifacts = [], lm_artifacts_spare = [],
      lm_notices = [], lm_notices_spare = []\<rparr>"

definition artifact_fields :: "legalArtifact fields" where
  "artifact_fields =
     [(''id'', set_string (\<lambda>x. la_id_update (\<lambda>_. x))),
      (''file'', set_string (\<lambda>x. la_file_update (\<lambda>_. x))),
      (''package'', set_string (\<lambda>x. la_package_update (\<lambda>_. x))),
      (''originalPath'', set_string (\<lambda>x. la_originalPath_update (\<lambda>_. x))),
      (''classification'', set_string (\<lambda>x. la_classification_update (\<lambda>_. x))),
      (''bytes'', set_int (\<lambda>n. la_bytes_update (\<lambda>_. n))),
      (''sha256'', set_string (\<lambda>x. la_sha256_update (\<lambda>_. x)))]"

definition set_uint :: "(nat \<Rightarrow> 's \<Rightarrow> 's) \<Rightarrow> jv \<Rightarrow> 's \<Rightarrow> 's option" where
  "set_uint upd v s =
     (case v of
        JvNull \<Rightarrow> Some s
      | JvNum n \<Rightarrow> (case parse_uint 64 n of None \<Rightarrow> None | Some i \<Rightarrow> Some (upd i s))
      | _ \<Rightarrow> None)"

definition decode_artifacts :: "jv \<Rightarrow> legalArtifact list \<Rightarrow> (legalArtifact list \<times> legalArtifact list) option" where
  "decode_artifacts v mem =
     (case v of
        JvNull \<Rightarrow> Some ([], [])
      | JvArr [] \<Rightarrow> Some ([], [])
      | JvArr vs \<Rightarrow>
          map_option (\<lambda>xs. (xs, drop (length xs) mem))
            (decode_list (decode_struct False artifact_fields) zero_artifact vs mem)
      | _ \<Rightarrow> None)"

definition implementation_fields :: "legalManifest fields" where
  "implementation_fields =
     [(''module'', set_string (\<lambda>x. lm_module_update (\<lambda>_. x))),
      (''dependencyModel'', set_string (\<lambda>x. lm_dependencyModel_update (\<lambda>_. x))),
      (''historicalArtifactsUsedAtRuntime'', set_bool (\<lambda>b. lm_usedAtRuntime_update (\<lambda>_. b)))]"

definition manifest_fields :: "legalManifest fields" where
  "manifest_fields =
     [(''schemaVersion'', set_uint (\<lambda>n. lm_schemaVersion_update (\<lambda>_. n))),
      (''status'', set_string (\<lambda>x. lm_status_update (\<lambda>_. x))),
      (''notice'', set_string (\<lambda>x. lm_notice_update (\<lambda>_. x))),
      (''currentImplementation'', decode_struct False implementation_fields),
      (''rootLicense'', \<lambda>v m. map_option (\<lambda>a. m\<lparr>lm_rootLicense := a\<rparr>)
         (decode_struct False artifact_fields v (lm_rootLicense m))),
      (''artifacts'', \<lambda>v m. map_option (\<lambda>(xs, rest). m\<lparr>lm_artifacts := xs, lm_artifacts_spare := rest\<rparr>)
         (decode_artifacts v (lm_artifacts m @ lm_artifacts_spare m))),
      (''goToolchainNotices'', \<lambda>v m. map_option (\<lambda>(xs, rest). m\<lparr>lm_notices := xs, lm_notices_spare := rest\<rparr>)
         (decode_artifacts v (lm_notices m @ lm_notices_spare m)))]"

definition decode_manifest :: "bytes \<Rightarrow> legalManifest option" where
  "decode_manifest data =
     (case json_document data of
        None \<Rightarrow> None
      | Some v \<Rightarrow> decode_struct False manifest_fields v zero_manifest)"

definition sameLegalRecord :: "legalArtifact \<Rightarrow> legalArtifact \<Rightarrow> bool \<Rightarrow> bool" where
  "sameLegalRecord actual expected historical =
     (if la_id actual \<noteq> la_id expected \<or> la_file actual \<noteq> la_file expected \<or>
         la_classification actual \<noteq> la_classification expected \<or>
         la_bytes actual \<noteq> la_bytes expected \<or> la_sha256 actual \<noteq> la_sha256 expected
      then False
      else if historical
      then la_package actual = la_package expected \<and> la_originalPath actual = la_originalPath expected \<and>
        la_package actual \<noteq> [] \<and> la_originalPath actual \<noteq> []
      else la_package actual = la_package expected \<and> la_originalPath actual = la_originalPath expected)"

type_synonym record_map = "(bytes, legalArtifact) gomap"

definition expected_records :: record_map where
  "expected_records = fold (\<lambda>a m. gm_set (la_id a) a m) (drop 1 expectedLegalArtifacts) []"

definition manifest_finding :: "bytes \<Rightarrow> finding" where
  "manifest_finding code = Finding HistoricalManifestPath code"

text \<open>One round of the loop over the manifest's records: the record found is taken from the map.\<close>

definition check_record :: "legalArtifact \<Rightarrow> finding list \<times> record_map \<Rightarrow> finding list \<times> record_map" where
  "check_record actual st =
     (case st of (findings, expectedRecords) \<Rightarrow>
       (let bad = (case gm_get expectedRecords (la_id actual) of
                     None \<Rightarrow> True
                   | Some expected \<Rightarrow>
                       \<not> sameLegalRecord actual expected (has_prefix (la_id expected) ''dependency-''))
        in (if bad then findings @ [manifest_finding ''legal-manifest-record-mismatch''] else findings,
            gm_del (la_id actual) expectedRecords)))"

definition verifyLegalManifest :: "legalManifest \<Rightarrow> finding list" where
  "verifyLegalManifest manifest =
     (let report = (\<lambda>b code. if b then [manifest_finding code] else []);
          actualRecords = lm_artifacts manifest @ lm_notices manifest
      in report (lm_schemaVersion manifest \<noteq> 1 \<or> lm_status manifest \<noteq> ''historical-only'' \<or>
             \<not> contains (lm_notice manifest) ''standard-library-only'' \<or>
             \<not> contains (lm_notice manifest) ''does not import or use'') ''legal-manifest-boundary''
         @ report (lm_module manifest \<noteq> ''github.com/PastureStack/vault-secrets-bridge'' \<or>
             lm_dependencyModel manifest \<noteq> ''Go standard library only'' \<or> lm_usedAtRuntime manifest)
             ''legal-manifest-current-implementation''
         @ report (\<not> sameLegalRecord (lm_rootLicense manifest) (hd expectedLegalArtifacts) False)
             ''root-license-record-mismatch''
         @ report (length actualRecords \<noteq> length expected_records) ''legal-manifest-record-count''
         @ (case fold check_record actualRecords ([], expected_records) of
              (findings, expectedRecords) \<Rightarrow>
                findings @ report (length expectedRecords \<noteq> 0) ''legal-manifest-record-missing''))"

section \<open>The check\<close>

definition check_artifact :: "(bytes \<Rightarrow> bytes option) \<Rightarrow> legalArtifact \<Rightarrow> finding list" where
  "check_artifact read_file expected =
     (case read_file (la_file expected) of
        None \<Rightarrow> [Finding (la_file expected) ''legal-artifact-missing'']
      | Some content \<Rightarrow>
          if int (length content) \<noteq> la_bytes expected \<or> hex_encode (sha256 content) \<noteq> la_sha256 expected
          then [Finding (la_file expected) ''legal-artifact-mismatch''] else [])"

text \<open>\<open>read_file\<close> reads a file under the root, or fails.\<close>

definition VerifyLegalArtifacts :: "(bytes \<Rightarrow> bytes option) \<Rightarrow> finding list" where
  "VerifyLegalArtifacts read_file =
     (let manifest_findings =
            (case read_file HistoricalManifestPath of
               None \<Rightarrow> [manifest_finding ''legal-manifest-missing'']
             | Some manifestData \<Rightarrow>
                 (if length manifestData \<noteq> expectedHistoricalManifestBytes \<or>
                     hex_encode (sha256 manifestData) \<noteq> expectedHistoricalManifestSHA256
                  then [manifest_finding ''legal-manifest-mismatch''] else [])
                 @ (case decode_manifest manifestData of
                      None \<Rightarrow> [manifest_finding ''legal-manifest-invalid'']
                    | Some manifest \<Rightarrow> verifyLegalManifest manifest))
      in uniqueFindings (sort (concat (map (check_artifact read_file) expectedLegalArtifacts) @ manifest_findings)))"

end
