(* ===== verification/LegalProps.thy ===== *)
theory LegalProps
  imports Legal ContentProps "HOL-Library.Multiset"
begin

text \<open>
  The legal artifacts: what a clean verification says of the files under the root and of the
  manifest's records.
\<close>

section \<open>Records\<close>

lemma sameLegalRecord_iff:
  "sameLegalRecord actual expected historical \<longleftrightarrow>
     actual = expected \<and> (historical \<longrightarrow> la_package expected \<noteq> [] \<and> la_originalPath expected \<noteq> [])"
  by (cases actual; cases expected) (auto simp: sameLegalRecord_def)

text \<open>The map of expected records: each under its own identifier, with its attribution when it needs one.\<close>

definition record_ok :: "legalArtifact \<Rightarrow> bool" where
  "record_ok a \<longleftrightarrow>
     (has_prefix (la_id a) ''dependency-'' \<longrightarrow> la_package a \<noteq> [] \<and> la_originalPath a \<noteq> [])"

definition records_inv :: "record_map \<Rightarrow> bool" where
  "records_inv m \<longleftrightarrow> gm_inv m \<and> list_all (\<lambda>(k, a). la_id a = k \<and> record_ok a) m"

lemma records_inv_del [intro]: "records_inv m \<Longrightarrow> records_inv (gm_del k m)"
  by (auto simp: records_inv_def list_all_iff gm_del_def)

lemma records_inv_set [intro]: "records_inv m \<Longrightarrow> record_ok a \<Longrightarrow> records_inv (gm_set (la_id a) a m)"
  by (auto simp: records_inv_def list_all_iff gm_del_def gm_set_def gm_inv_def gm_keys_def distinct_map_filter)

lemma mset_gm_del:
  "gm_inv m \<Longrightarrow> gm_get m k = Some v \<Longrightarrow> mset (map snd m) = add_mset v (mset (map snd (gm_del k m)))"
proof (induction m)
  case (Cons kv m)
  obtain k' v' where kv: "kv = (k', v')" by (cases kv)
  show ?case
  proof (cases "k = k'")
    case True
    with Cons.prems(1) kv have "gm_del k m = m"
      by (intro gm_del_absent) (auto simp: gm_get_None_iff gm_inv_def gm_keys_def)
    then show ?thesis using Cons.prems True kv by (simp add: gm_get_def gm_del_def)
  next
    case False
    with Cons.prems kv have "gm_inv m" "gm_get m k = Some v"
      by (auto simp: gm_inv_def gm_keys_def gm_get_def)
    with Cons.IH False kv show ?thesis by (auto simp: gm_del_def)
  qed
qed simp

lemma mset_gm_set:
  "gm_get m k = None \<Longrightarrow> mset (map snd (gm_set k v m)) = add_mset v (mset (map snd m))"
  by (simp add: gm_set_def gm_del_absent)

lemma record_map_mset:
  "distinct (map la_id xs) \<Longrightarrow> \<forall>x \<in> set xs. gm_get m (la_id x) = None \<and> record_ok x \<Longrightarrow> records_inv m \<Longrightarrow>
     mset (map snd (fold (\<lambda>a m. gm_set (la_id a) a m) xs m)) = mset xs + mset (map snd m) \<and>
     records_inv (fold (\<lambda>a m. gm_set (la_id a) a m) xs m)"
proof (induction xs arbitrary: m)
  case (Cons x xs)
  have "records_inv (gm_set (la_id x) x m)"
    using Cons.prems by auto
  moreover have "\<forall>y \<in> set xs. gm_get (gm_set (la_id x) x m) (la_id y) = None \<and> record_ok y"
    using Cons.prems(1,2) by (auto simp: image_iff)
  ultimately show ?case
    using Cons.IH [of "gm_set (la_id x) x m"] Cons.prems(1,2) mset_gm_set [of m "la_id x" x] by simp
qed simp

lemma expected_ids: "distinct (map la_id (drop 1 expectedLegalArtifacts))"
  by (simp add: expectedLegalArtifacts_def artifact_def)

lemma expected_ok: "list_all record_ok (drop 1 expectedLegalArtifacts)"
  by (simp add: expectedLegalArtifacts_def artifact_def record_ok_def)

lemma expected_records_map:
  "mset (map snd expected_records) = mset (drop 1 expectedLegalArtifacts)" "records_inv expected_records"
  using record_map_mset [OF expected_ids, of "[]"] expected_ok
  by (simp_all add: expected_records_def records_inv_def list_all_iff)

lemma check_record_step:
  assumes "records_inv m"
  shows "check_record actual (findings, m) =
    (findings @ (if gm_get m (la_id actual) = Some actual then []
       else [manifest_finding ''legal-manifest-record-mismatch'']), gm_del (la_id actual) m)"
proof -
  have "sameLegalRecord actual e (has_prefix (la_id e) ''dependency-'') \<longleftrightarrow> e = actual"
    if "gm_get m (la_id actual) = Some e" for e
    using assms gm_get_mem [OF that] by (auto simp: sameLegalRecord_iff records_inv_def list_all_iff record_ok_def)
  then show ?thesis
    by (auto simp: check_record_def Let_def split: option.splits)
qed

lemma check_records_clean:
  "records_inv m \<Longrightarrow>
     fold check_record xs (findings, m) = ([], []) \<longleftrightarrow> findings = [] \<and> mset xs = mset (map snd m)"
proof (induction xs arbitrary: findings m)
  case Nil
  then show ?case by (cases m) auto
next
  case (Cons x xs)
  have IH: "fold check_record xs (fs, gm_del (la_id x) m) = ([], []) \<longleftrightarrow>
      fs = [] \<and> mset xs = mset (map snd (gm_del (la_id x) m))" for fs
    using Cons.IH Cons.prems by blast
  have "gm_inv m" using Cons.prems by (simp add: records_inv_def)
  show ?case
  proof (cases "gm_get m (la_id x) = Some x")
    case True
    then show ?thesis
      using IH mset_gm_del [OF \<open>gm_inv m\<close> True] by (simp add: check_record_step [OF Cons.prems])
  next
    case False
    have "mset (x # xs) \<noteq> mset (map snd m)"
    proof
      assume "mset (x # xs) = mset (map snd m)"
      then have "x \<in> snd ` set m" by (metis list.set_intros(1) set_map set_mset_mset)
      then obtain k where "(k, x) \<in> set m" by auto
      moreover from this have "k = la_id x"
        using Cons.prems by (auto simp: records_inv_def list_all_iff)
      ultimately show False using False gm_mem_get [OF \<open>gm_inv m\<close>] by blast
    qed
    then show ?thesis using IH False by (simp add: check_record_step [OF Cons.prems])
  qed
qed

section \<open>The manifest and the files\<close>

definition manifest_ok :: "legalManifest \<Rightarrow> bool" where
  "manifest_ok m \<longleftrightarrow>
     lm_schemaVersion m = 1 \<and> lm_status m = ''historical-only'' \<and>
     contains (lm_notice m) ''standard-library-only'' \<and> contains (lm_notice m) ''does not import or use'' \<and>
     lm_module m = ''github.com/PastureStack/vault-secrets-bridge'' \<and>
     lm_dependencyModel m = ''Go standard library only'' \<and> \<not> lm_usedAtRuntime m \<and>
     lm_rootLicense m = hd expectedLegalArtifacts \<and>
     mset (lm_artifacts m @ lm_notices m) = mset (drop 1 expectedLegalArtifacts)"

lemma report_Nil: "(if b then [f] else []) = [] \<longleftrightarrow> \<not> b"
  by simp

lemma verifyLegalManifest_clean: "verifyLegalManifest m = [] \<longleftrightarrow> manifest_ok m"
proof -
  obtain fs rest where loop: "fold check_record (lm_artifacts m @ lm_notices m) ([], expected_records) = (fs, rest)"
    by (cases "fold check_record (lm_artifacts m @ lm_notices m) ([], expected_records)")
  have clean: "fs = [] \<and> rest = [] \<longleftrightarrow> mset (lm_artifacts m @ lm_notices m) = mset (drop 1 expectedLegalArtifacts)"
    using check_records_clean [OF expected_records_map(2), of "lm_artifacts m @ lm_notices m" "[]"]
    unfolding loop expected_records_map(1) by simp
  have count: "length (lm_artifacts m @ lm_notices m) = length expected_records"
    if "mset (lm_artifacts m @ lm_notices m) = mset (drop 1 expectedLegalArtifacts)"
    using that expected_records_map(1) by (metis length_map size_mset)
  show ?thesis
    unfolding verifyLegalManifest_def Let_def loop prod.case append_is_Nil_conv report_Nil sameLegalRecord_iff
      length_0_conv manifest_ok_def
    using clean count by (simp only: simp_thms de_Morgan_disj de_Morgan_conj not_not) blast
qed

definition preserved :: "(bytes \<Rightarrow> bytes option) \<Rightarrow> legalArtifact \<Rightarrow> bool" where
  "preserved read_file a \<longleftrightarrow>
     (\<exists>content. read_file (la_file a) = Some content \<and> int (length content) = la_bytes a \<and>
        hex_encode (sha256 content) = la_sha256 a)"

lemma check_artifact_Nil: "check_artifact read_file a = [] \<longleftrightarrow> preserved read_file a"
  by (auto simp: check_artifact_def preserved_def split: option.splits)

text \<open>
  C40: the legal verification reports nothing exactly when every preserved artifact is there with
  its length and SHA-256 digest, and the manifest is there with its own and decodes to one whose
  notice and implementation record are as required, whose root license is the expected record, and
  whose other records are the expected ones, each exactly once, in any order.
\<close>

theorem legal_artifacts_exact:
  "VerifyLegalArtifacts read_file = [] \<longleftrightarrow>
     list_all (preserved read_file) expectedLegalArtifacts \<and>
     (\<exists>data m. read_file HistoricalManifestPath = Some data \<and> length data = expectedHistoricalManifestBytes \<and>
        hex_encode (sha256 data) = expectedHistoricalManifestSHA256 \<and>
        decode_manifest data = Some m \<and> manifest_ok m)"
proof -
  have sorted: "sorted_list_of_set (set fs) = [] \<longleftrightarrow> fs = []" for fs :: "finding list"
    by simp
  have arts: "concat (map (check_artifact read_file) expectedLegalArtifacts) = [] \<longleftrightarrow>
      list_all (preserved read_file) expectedLegalArtifacts"
    by (auto simp: check_artifact_Nil list_all_iff)
  show ?thesis
    unfolding VerifyLegalArtifacts_def Let_def report_findings sorted append_is_Nil_conv arts
    by (auto simp: verifyLegalManifest_clean split: option.splits if_splits)
qed

end
