(* ===== verification/BridgeProps.thy ===== *)
theory BridgeProps
  imports Demo
begin

text \<open>
  The properties of the running bridge (\<^verbatim>\<open>internal/broker/server.go\<close> over the other parts of
  \<^verbatim>\<open>internal/broker\<close>): who gets a lease, what is delivered and in which order, what a refusal
  leaves behind, replay, and the invariant of every reachable state.
\<close>

section \<open>Who is granted a lease\<close>

lemma issue_locked_status: "issue_locked d k q s = (resp, s') \<Longrightarrow> o_status resp \<in> {200, 500, 502}"
  by (cases rule: issue_locked_cases) (auto simp: writeError_def writeJSON_def)

lemma revoke_locked_status: "revoke_locked d q s = (resp, s') \<Longrightarrow> o_status resp \<in> {204, 500, 502}"
  by (cases rule: revoke_locked_cases) (auto simp: writeError_def writeJSON_def no_content_def)

lemma handleIssue_admitted:
  assumes "handleIssue d req s = (resp, s')" and "o_status resp \<notin> {400, 401, 405}"
  obtains q key s1 where "admit decode_issue validate_issue i_hostUUID i_nonce d req s = (Inr (q, key), s1)"
    "issue_locked d key q s1 = (resp, s')"
proof -
  obtain r s1 where a: "admit decode_issue validate_issue i_hostUUID i_nonce d req s = (r, s1)"
    by (cases "admit decode_issue validate_issue i_hostUUID i_nonce d req s")
  show thesis
  proof (cases r)
    case (Inl resp')
    then show thesis
      using assms a admit_rejected [OF a [unfolded Inl]] by (auto simp: handleIssue_admit)
  next
    case (Inr qk)
    then show thesis
      using assms a that by (cases qk) (simp add: handleIssue_admit)
  qed
qed

lemma handleIssue_rejected:
  assumes "handleIssue d req s = (resp, s')" and "o_status resp \<in> {400, 401, 405}"
  shows "admit decode_issue validate_issue i_hostUUID i_nonce d req s = (Inl resp, s')"
proof -
  obtain r s1 where a: "admit decode_issue validate_issue i_hostUUID i_nonce d req s = (r, s1)"
    by (cases "admit decode_issue validate_issue i_hostUUID i_nonce d req s")
  show ?thesis
  proof (cases r)
    case (Inl resp')
    then show ?thesis using assms a by (simp add: handleIssue_admit)
  next
    case (Inr qk)
    then obtain q key where "issue_locked d key q s1 = (resp, s')"
      using assms a by (cases qk) (simp add: handleIssue_admit)
    then show ?thesis using issue_locked_status assms(2) by fastforce
  qed
qed

lemma handleRevoke_rejected:
  assumes "handleRevoke d req s = (resp, s')" and "o_status resp \<in> {400, 401, 405}"
  shows "admit decode_revoke validate_revoke r_hostUUID r_nonce d req s = (Inl resp, s')"
proof -
  obtain r s1 where a: "admit decode_revoke validate_revoke r_hostUUID r_nonce d req s = (r, s1)"
    by (cases "admit decode_revoke validate_revoke r_hostUUID r_nonce d req s")
  show ?thesis
  proof (cases r)
    case (Inl resp')
    then show ?thesis using assms a by (simp add: handleRevoke_admit)
  next
    case (Inr qk)
    then obtain q key where "revoke_locked d q s1 = (resp, s')"
      using assms a by (cases qk) (simp add: handleRevoke_admit)
    then show ?thesis using revoke_locked_status assms(2) by fastforce
  qed
qed

lemma handleRevoke_admitted:
  assumes "handleRevoke d req s = (resp, s')" and "o_status resp \<notin> {400, 401, 405}"
  obtains q key s1 where "admit decode_revoke validate_revoke r_hostUUID r_nonce d req s = (Inr (q, key), s1)"
    "revoke_locked d q s1 = (resp, s')"
proof -
  obtain r s1 where a: "admit decode_revoke validate_revoke r_hostUUID r_nonce d req s = (r, s1)"
    by (cases "admit decode_revoke validate_revoke r_hostUUID r_nonce d req s")
  show thesis
  proof (cases r)
    case (Inl resp')
    then show thesis
      using assms a admit_rejected [OF a [unfolded Inl]] by (auto simp: handleRevoke_admit)
  next
    case (Inr qk)
    then show thesis
      using assms a that by (cases qk) (simp add: handleRevoke_admit)
  qed
qed

lemma handler_not_missing:
  "handleIssue d req s = (resp, s') \<Longrightarrow> o_status resp \<noteq> 404"
  "handleRevoke d req s = (resp, s') \<Longrightarrow> o_status resp \<noteq> 404"
proof -
  show "o_status resp \<noteq> 404" if run: "handleIssue d req s = (resp, s')"
  proof (cases "o_status resp \<in> {400, 401, 405}")
    case False
    obtain q key s1 where "issue_locked d key q s1 = (resp, s')" using handleIssue_admitted [OF run False] .
    from issue_locked_status [OF this] show ?thesis by auto
  qed auto
  show "o_status resp \<noteq> 404" if run: "handleRevoke d req s = (resp, s')"
  proof (cases "o_status resp \<in> {400, 401, 405}")
    case False
    obtain q key s1 where "revoke_locked d q s1 = (resp, s')" using handleRevoke_admitted [OF run False] .
    from revoke_locked_status [OF this] show ?thesis by auto
  qed auto
qed

text \<open>
  C1: a lease is granted (status 200) only to a well-formed, signed request of a host the control
  plane knows: version 1, valid names, path, owners and mode, a time stamp inside the window, a
  sorted set of allowed policies, a signature of the host's key over the body, and a nonce that the
  cache accepts.
\<close>

theorem issue_granted:
  assumes "handleIssue d req s = (resp, s')" and "o_status resp = 200"
    and "0 \<le> NonceTTL (d_config d)" and "NonceTTL (d_config d) < max_duration"
  shows "\<exists>q key. well_formed d req \<and> decode_issue (h_data req) = Some q \<and> i_version q = 1 \<and>
     validName (i_hostUUID q) 128 \<and> validName (i_volumeName q) 128 \<and> validRelativePath (i_file q) \<and>
     validOwnership (i_uid q) \<and> validOwnership (i_gid q) \<and> validReadOnlyMode (i_mode q) \<and>
     fresh (i_timestamp q) (i_nonce q) (NonceTTL (d_config d)) (checked_at s) \<and>
     policies_allowed (AllowedPolicies (d_config d)) (i_policies q) \<and>
     fst (d_platform d (i_hostUUID q) (st_world s)) = Inr key \<and> signed_by d req (h_data req) key \<and>
     fst (use_nonce (st_nonces s) (i_hostUUID q) (i_nonce q) (spent_at s))"
proof -
  have "o_status resp \<notin> {400, 401, 405}" using assms(2) by simp
  from handleIssue_admitted [OF assms(1) this] obtain q key s1 where
    "admit decode_issue validate_issue i_hostUUID i_nonce d req s = (Inr (q, key), s1)" .
  then show ?thesis
    using validate_issue_iff [OF assms(3,4), of q "checked_at s"]
    by (auto simp: admit_ok checked_at_def spent_at_def)
qed

theorem issue_granted_witness:
  "\<exists>q key. well_formed demo_deps demo_inbound \<and> decode_issue (h_data demo_inbound) = Some q \<and>
     policies_allowed (AllowedPolicies (d_config demo_deps)) (i_policies q) \<and>
     signed_by demo_deps demo_inbound (h_data demo_inbound) key"
proof -
  have w: "0 \<le> NonceTTL (d_config demo_deps)" "NonceTTL (d_config demo_deps) < max_duration"
    by (simp_all add: demo_deps_def demo_config_def max_duration_def)
  show ?thesis
    using issue_granted [OF prod.collapse [symmetric] demo_granted w] by blast
qed

text \<open>
  C12: what a granted request gets, and in which order things happen: the host's key is fetched,
  an earlier lease of the volume is revoked, then the token is issued for exactly the requested
  policies, its accessor stored, and the response is the token's record encrypted to that key.
\<close>

theorem issue_granted_delivery:
  assumes "handleIssue d req s = (resp, s')" and "o_status resp = 200"
  shows "\<exists>q key prev t a rec k.
     decode_issue (h_data req) = Some q \<and> k = leaseStateKey (i_hostUUID q) (i_volumeName q) \<and>
     prev = store_accessor (fst (st_leases s)) k \<and>
     st_log s' = st_log s @ HostKey (i_hostUUID q) (Inr key)
       # (if prev = '''' then [] else [Revoke prev (Inr ())])
       @ [Issue (i_policies q) (Inr (t, a)), SetLease k a (Inr ())] \<and>
     encryptLeaseRecord (d_crypto d) (st_entropy s (st_draws s)) (Some key) q t = Inr rec \<and>
     resp = writeJSON 200 (issue_response [rec])"
proof -
  have "o_status resp \<notin> {400, 401, 405}" using assms(2) by simp
  from handleIssue_admitted [OF assms(1) this] obtain q key s1 where
    a: "admit decode_issue validate_issue i_hostUUID i_nonce d req s = (Inr (q, key), s1)"
    and l: "issue_locked d key q s1 = (resp, s')" .
  have s1: "decode_issue (h_data req) = Some q" "st_leases s1 = st_leases s"
      "st_log s1 = st_log s @ [HostKey (i_hostUUID q) (Inr key)]"
      "st_entropy s1 = st_entropy s" "st_draws s1 = st_draws s"
    using a by (auto simp: admit_ok)
  from l show ?thesis
  proof (cases rule: issue_locked_cases)
    case (granted pre t a rec w w')
    let ?k = "leaseStateKey (i_hostUUID q) (i_volumeName q)"
    show ?thesis
      by (rule exI [of _ q], rule exI [of _ key], rule exI [of _ "store_accessor (fst (st_leases s)) ?k"],
          rule exI [of _ t], rule exI [of _ a], rule exI [of _ rec], rule exI [of _ ?k])
        (use granted s1 in simp)
  qed (use assms(2) in \<open>simp_all add: writeError_def writeJSON_def\<close>)
qed

theorem issue_granted_delivery_witness:
  "\<exists>rec. fst (handleIssue demo_deps demo_inbound demo_server) = writeJSON 200 (issue_response [rec])"
  using issue_granted_delivery [OF prod.collapse [symmetric] demo_granted] by blast

text \<open>
  C19: every request, to issue, to revoke or other, that is answered with 400, 401, 404 or 405
  reaches neither Vault nor the lease store: at most the host's key was looked up, and at most one
  nonce was put to the cache.
\<close>

theorem request_refused_inert:
  assumes "ServeHTTP d req s = (resp, s')" and "o_status resp \<in> {400, 401, 404, 405}"
  shows "st_leases s' = st_leases s \<and>
     (st_nonces s' = st_nonces s \<or> (\<exists>h n t. st_nonces s' = snd (use_nonce (st_nonces s) h n t))) \<and>
     (st_log s' = st_log s \<or> (\<exists>h r. st_log s' = st_log s @ [HostKey h r]))"
proof -
  consider (issue) "handleIssue d req s = (resp, s')" "h_path req = ''/v1/leases''"
    | (revoke) "handleRevoke d req s = (resp, s')" "h_path req = ''/v1/leases/revoke''"
    | (other) "h_path req \<noteq> ''/v1/leases''" "h_path req \<noteq> ''/v1/leases/revoke''"
    using assms(1) by (auto simp: ServeHTTP_def split: if_splits)
  then show ?thesis
  proof cases
    case issue
    have "o_status resp \<noteq> 404" using handler_not_missing(1) [OF issue(1)] .
    then show ?thesis using admit_rejected [OF handleIssue_rejected [OF issue(1)]] assms(2) by simp
  next
    case revoke
    have "o_status resp \<noteq> 404" using handler_not_missing(2) [OF revoke(1)] .
    then show ?thesis using admit_rejected [OF handleRevoke_rejected [OF revoke(1)]] assms(2) by simp
  next
    case other
    then show ?thesis
      using assms
      by (auto simp: ServeHTTP_def handleReady_def writeJSON_def Let_def split: prod.splits if_splits)
  qed
qed

section \<open>Replay\<close>

text \<open>
  C6: a request that was once admitted is refused (400 or 401) when it is sent again, after any
  run of the server in which requests are served one by one, as long as no reading of the clock after the first one's nonce check, up to
  that of the second, has reached the expiry of the first one's entry; and the refusal changes no
  lease. The clock may be any, also one that is set back.
\<close>

theorem replay_refused_by_server:
  assumes "nonce_inv (st_nonces s)"
    and first: "handleIssue d req s = (resp1, s1)" "o_status resp1 \<notin> {400, 401, 405}"
    and run: "(server_step d)\<^sup>*\<^sup>* s1 s2"
    and second: "handleIssue d req s2 = (resp2, s3)"
    and early: "\<And>i. Suc (st_ticks s) < i \<Longrightarrow> i \<le> Suc (st_ticks s2) \<Longrightarrow> st_clock s i < spent_at s + ttl (st_nonces s)"
  shows "o_status resp2 \<in> {400, 401} \<and> st_leases s3 = st_leases s2"
proof -
  from handleIssue_admitted [OF first] obtain q key sa where
    a: "admit decode_issue validate_issue i_hostUUID i_nonce d req s = (Inr (q, key), sa)"
    and l: "issue_locked d key q sa = (resp1, s1)" .
  have "elapsed sa s1"
    using same_clock_elapsed [OF issue_locked_clock [of sa d key q]] l by simp
  then have sa: "elapsed sa s2"
    using elapsed_trans steps_elapsed [OF run] by blast
  obtain r sb where b: "admit decode_issue validate_issue i_hostUUID i_nonce d req s2 = (r, sb)"
    by (cases "admit decode_issue validate_issue i_hostUUID i_nonce d req s2")
  show ?thesis
  proof (cases r)
    case (Inr qk)
    then obtain q' key' where qk: "r = Inr (q', key')" by (cases qk) simp
    have "q' = q" using a b qk by (auto simp: admit_ok)
    then show ?thesis
      using admitted_twice [OF assms(1) a sa b [unfolded qk]] early by (fastforce simp: not_less)
  next
    case (Inl resp')
    then have r: "resp2 = resp'" "s3 = sb"
      using second b by (simp_all add: handleIssue_admit)
    have "well_formed d req" using a by (auto simp: admit_ok)
    then have "o_status resp' \<noteq> 405"
      using b Inl by (auto simp: admit_def well_formed_iff writeError_def writeJSON_def
          split: option.splits prod.splits if_splits)
    then show ?thesis
      using admit_rejected [OF b [unfolded Inl]] r by auto
  qed
qed

theorem replay_refused_by_server_witness:
  "o_status (fst (handleIssue demo_deps demo_inbound (snd (handleIssue demo_deps demo_inbound demo_server))))
     \<in> {400, 401}"
proof -
  let ?s1 = "snd (handleIssue demo_deps demo_inbound demo_server)"
  have inv: "nonce_inv (st_nonces demo_server)"
    by (simp add: demo_server_parts nonce_inv_new)
  have ok: "o_status (fst (handleIssue demo_deps demo_inbound demo_server)) \<notin> {400, 401, 405}"
    using demo_granted by simp
  have "st_clock demo_server i < spent_at demo_server + ttl (st_nonces demo_server)" for i
    by (simp add: spent_at_def demo_server_parts newNonceCache_def)
  then show ?thesis
    using replay_refused_by_server [OF inv prod.collapse [symmetric] ok rtranclp.rtrancl_refl
        prod.collapse [symmetric]] by blast
qed

text \<open>
  C16: the replay window. If one request is admitted twice, by a server that serves requests one by
  one, whatever the clock, then a reading of
  it after the first nonce check, up to that of the second, had reached the expiry of the first
  one's entry, and the second freshness check read no later time than a whole window after the
  request's own time stamp. If the clock is never set back, the second nonce check itself came at
  or after the expiry.
\<close>

theorem replay_window:
  assumes "nonce_inv (st_nonces s)"
    and cfg: "0 \<le> NonceTTL (d_config d)" "NonceTTL (d_config d) < max_duration"
    and first: "handleIssue d req s = (resp1, s1)" "o_status resp1 \<notin> {400, 401, 405}"
    and run: "(server_step d)\<^sup>*\<^sup>* s1 s2"
    and second: "handleIssue d req s2 = (resp2, s3)" "o_status resp2 \<notin> {400, 401, 405}"
  shows "\<exists>q t. decode_issue (h_data req) = Some q \<and> parse_rfc3339 (i_timestamp q) = Some t \<and>
     (\<exists>i. Suc (st_ticks s) < i \<and> i \<le> Suc (st_ticks s2) \<and> spent_at s + ttl (st_nonces s) \<le> st_clock s i) \<and>
     (clock_mono s \<longrightarrow> spent_at s + ttl (st_nonces s) \<le> spent_at s2) \<and>
     checked_at s2 \<le> t + NonceTTL (d_config d)"
proof -
  from handleIssue_admitted [OF first] obtain q key sa where
    a: "admit decode_issue validate_issue i_hostUUID i_nonce d req s = (Inr (q, key), sa)"
    and l: "issue_locked d key q sa = (resp1, s1)" .
  from handleIssue_admitted [OF second] obtain q' key' sb where
    b: "admit decode_issue validate_issue i_hostUUID i_nonce d req s2 = (Inr (q', key'), sb)" .
  have qs: "decode_issue (h_data req) = Some q" "q' = q"
      "validate_issue q (d_config d) (checked_at s2) = Inr ()"
    using a b by (auto simp: admit_ok checked_at_def)
  have "elapsed sa s1"
    using same_clock_elapsed [OF issue_locked_clock [of sa d key q]] l by simp
  then have run': "elapsed sa s2"
    using elapsed_trans steps_elapsed [OF run] by blast
  have expired: "\<exists>i. Suc (st_ticks s) < i \<and> i \<le> Suc (st_ticks s2) \<and> spent_at s + ttl (st_nonces s) \<le> st_clock s i"
    using admitted_twice [OF assms(1) a run' b] qs(2) by simp
  moreover have "st_clock s2 = st_clock s"
    using run' a by (auto simp: elapsed_def admit_ok)
  then have "clock_mono s \<longrightarrow> spent_at s + ttl (st_nonces s) \<le> spent_at s2"
    using expired unfolding clock_mono_def spent_at_def by (metis order_trans)
  moreover have "fresh (i_timestamp q) (i_nonce q) (NonceTTL (d_config d)) (checked_at s2)"
    using qs(3) validate_issue_iff [OF cfg] by simp
  ultimately show ?thesis
    using qs(1) by (auto simp: fresh_def split: option.splits)
qed

definition demo_late :: "unit server" where
  "demo_late = demo_server\<lparr>st_clock := \<lambda>i. if i < 2 then demo_now else demo_now + 300000000000\<rparr>"

lemma demo_fresh_late:
  "t \<in> {demo_now, demo_now + 300000000000} \<Longrightarrow> validate_issue demo_issue demo_config t = Inr ()"
proof -
  assume t: "t \<in> {demo_now, demo_now + 300000000000}"
  have cfg: "0 \<le> NonceTTL demo_config" "NonceTTL demo_config < max_duration"
    by (simp_all add: demo_config_def max_duration_def)
  have "fresh (i_timestamp demo_issue) (i_nonce demo_issue) (NonceTTL demo_config) t"
    using demo_time demo_nonce t by (auto simp: fresh_def demo_issue_def demo_config_def)
  with demo_valid show ?thesis
    unfolding validate_issue_iff [OF cfg] by blast
qed

lemma handleIssue_passes:
  assumes "admit decode_issue validate_issue i_hostUUID i_nonce d req s = (Inr (q, key), s1)"
  shows "o_status (fst (handleIssue d req s)) \<notin> {400, 401, 405}"
proof -
  obtain resp s' where l: "issue_locked d key q s1 = (resp, s')"
    by (cases "issue_locked d key q s1")
  then have "fst (handleIssue d req s) = resp"
    using assms by (simp add: handleIssue_admit)
  then show ?thesis using issue_locked_status [OF l] by auto
qed

text \<open>The same request, sent again when the clock has moved by exactly one window.\<close>

lemma demo_late_passes:
  defines "s1 \<equiv> snd (handleIssue demo_deps demo_inbound demo_late)"
  shows "o_status (fst (handleIssue demo_deps demo_inbound demo_late)) \<notin> {400, 401, 405}"
    and "o_status (fst (handleIssue demo_deps demo_inbound s1)) \<notin> {400, 401, 405}"
proof -
  let ?c = "\<lambda>i. if i < (2 :: nat) then demo_now else demo_now + 300000000000"
  have parts: "st_clock demo_late = ?c" "st_ticks demo_late = 0" "st_leases demo_late = demo_store"
      "st_nonces demo_late = newNonceCache 300000000000 10000"
    by (simp_all add: demo_late_def demo_server_parts)
  have ok: "well_formed demo_deps demo_inbound \<and> decode_issue (h_data demo_inbound) = Some demo_issue \<and>
      signed_by demo_deps demo_inbound (h_data demo_inbound) demo_key \<and>
      d_platform demo_deps (i_hostUUID demo_issue) w = (Inr demo_key, w) \<and>
      d_config demo_deps = demo_config" for w
    using demo_well_formed demo_decode demo_signed demo_names(1)
    by (simp add: demo_deps_def demo_issue_def)
  obtain sa where a: "admit decode_issue validate_issue i_hostUUID i_nonce demo_deps demo_inbound demo_late =
      (Inr (demo_issue, demo_key), sa)"
    unfolding admit_ok using ok demo_valid use_nonce_new [of 10000] by (simp add: parts)
  then show p1: "o_status (fst (handleIssue demo_deps demo_inbound demo_late)) \<notin> {400, 401, 405}"
    by (rule handleIssue_passes)
  have sa: "st_clock sa = ?c" "st_ticks sa = 2"
      "st_nonces sa = snd (use_nonce (newNonceCache 300000000000 10000) (i_hostUUID demo_issue)
         (i_nonce demo_issue) demo_now)"
    using a unfolding admit_ok by (auto simp: parts)
  have "same_clock sa s1"
    using issue_locked_clock [of sa demo_deps demo_key demo_issue] a
    by (simp add: s1_def handleIssue_admit)
  then have s1: "st_clock s1 = ?c" "st_ticks s1 = 2"
      "st_nonces s1 = snd (use_nonce (newNonceCache 300000000000 10000) (i_hostUUID demo_issue)
         (i_nonce demo_issue) demo_now)"
    using sa by (simp_all add: same_clock_def)
  have n: "fst (use_nonce (snd (use_nonce (newNonceCache 300000000000 10000) h n demo_now)) h n
      (demo_now + 300000000000))" for h n
    by (simp add: use_nonce_def newNonceCache_def purge_def gm_set_def gm_del_def Let_def)
  have "\<exists>sb. admit decode_issue validate_issue i_hostUUID i_nonce demo_deps demo_inbound s1 =
      (Inr (demo_issue, demo_key), sb)"
    unfolding admit_ok using ok demo_fresh_late n by (simp add: s1)
  then show "o_status (fst (handleIssue demo_deps demo_inbound s1)) \<notin> {400, 401, 405}"
    using handleIssue_passes by blast
qed

theorem replay_window_witness:
  "spent_at demo_late + 300000000000 \<le>
     spent_at (snd (handleIssue demo_deps demo_inbound demo_late))"
proof -
  have inv: "nonce_inv (st_nonces demo_late)" and ttl: "ttl (st_nonces demo_late) = 300000000000"
    by (simp_all add: demo_late_def demo_server_parts nonce_inv_new) (simp add: newNonceCache_def)
  have mono: "clock_mono demo_late"
    by (simp add: clock_mono_def demo_late_def)
  have cfg: "0 \<le> NonceTTL (d_config demo_deps)" "NonceTTL (d_config demo_deps) < max_duration"
    by (simp_all add: demo_deps_def demo_config_def max_duration_def)
  show ?thesis
    using mono replay_window [OF inv cfg prod.collapse [symmetric] demo_late_passes(1) rtranclp.rtrancl_refl
        prod.collapse [symmetric] demo_late_passes(2)] ttl by auto
qed

text \<open>
  C17: the window is not empty. A request whose time stamp is not in the past when its nonce is
  spent (at \<open>t0\<close>) passes the freshness check again at the very instant its cache entry expires,
  one window later, and its nonce is then accepted a second time.
\<close>

theorem late_replay_accepted:
  assumes stamp: "parse_rfc3339 ts = Some t" and now: "t0 \<le> t" "t \<le> t0 + w"
    and nonce: "rawurl_decode_strict n = Some b" "length b = 24"
    and w: "0 < w" "w < max_duration" and m: "0 < m"
  shows "validateFreshness ts n w t0 = Inr () \<and>
     fst (use_nonce (newNonceCache w m) h n t0) \<and>
     validateFreshness ts n w (t0 + w) = Inr () \<and>
     fst (use_nonce (snd (use_nonce (newNonceCache w m) h n t0)) h n (t0 + w))"
proof -
  have "fresh ts n w t0" "fresh ts n w (t0 + w)"
    using stamp now nonce w by (simp_all add: fresh_def)
  then show ?thesis
    using w m by (simp add: validateFreshness_fresh)
      (simp add: use_nonce_def newNonceCache_def purge_def gm_set_def gm_del_def Let_def)
qed

theorem late_replay_accepted_witness:
  "validateFreshness ''2026-01-01T00:00:00Z'' (i_nonce demo_issue) 300000000000 (demo_now + 300000000000) = Inr ()"
  using late_replay_accepted [OF demo_time order.refl _ demo_nonce, of 300000000000 1]
  by (simp add: max_duration_def)

section \<open>Revoking\<close>

text \<open>
  C13: a revoke request is answered with 204 only after admission (well-formed, valid, signed with
  the key of its host, its nonce accepted), and then the volume's lease is
  gone from the store and no other lease is touched; if the store held an accessor, Vault had
  confirmed its revocation before the store was changed.
\<close>

theorem revoke_granted:
  assumes inv: "lease_state_inv (st_leases s)" and run: "handleRevoke d req s = (resp, s')"
    and ok: "o_status resp = 204"
  shows "\<exists>q key k. well_formed d req \<and> decode_revoke (h_data req) = Some q \<and>
     validate_revoke q (d_config d) (checked_at s) = Inr () \<and>
     fst (d_platform d (r_hostUUID q) (st_world s)) = Inr key \<and> signed_by d req (h_data req) key \<and>
     fst (use_nonce (st_nonces s) (r_hostUUID q) (r_nonce q) (spent_at s)) \<and>
     k = leaseStateKey (r_hostUUID q) (r_volumeName q) \<and>
     held (st_leases s') = (held (st_leases s))(k := None) \<and>
     st_log s' = st_log s @ HostKey (r_hostUUID q) (Inr key) #
       (case held (st_leases s) k of
          None \<Rightarrow> [] | Some a \<Rightarrow> [Revoke a (Inr ()), RemoveLease k (Inr ())])"
proof -
  have "o_status resp \<notin> {400, 401, 405}" using ok by simp
  from handleRevoke_admitted [OF run this] obtain q key s1 where
    a: "admit decode_revoke validate_revoke r_hostUUID r_nonce d req s = (Inr (q, key), s1)"
    and l: "revoke_locked d q s1 = (resp, s')" .
  let ?k = "leaseStateKey (r_hostUUID q) (r_volumeName q)"
  have s1: "st_leases s1 = st_leases s" "st_log s1 = st_log s @ [HostKey (r_hostUUID q) (Inr key)]"
      "well_formed d req \<and> decode_revoke (h_data req) = Some q \<and>
       validate_revoke q (d_config d) (checked_at s) = Inr () \<and>
       fst (d_platform d (r_hostUUID q) (st_world s)) = Inr key \<and> signed_by d req (h_data req) key \<and>
       fst (use_nonce (st_nonces s) (r_hostUUID q) (r_nonce q) (spent_at s))"
    using a by (auto simp: admit_ok checked_at_def spent_at_def)
  have held: "held (st_leases s') = (held (st_leases s))(?k := None)"
    using revoke_locked_effect(2) [of s1 d q resp s'] inv l ok s1 by simp
  have log: "st_log s' = st_log s1 @
      (case held (st_leases s) ?k of None \<Rightarrow> [] | Some a \<Rightarrow> [Revoke a (Inr ()), RemoveLease ?k (Inr ())])"
    using l
  proof (cases rule: revoke_locked_cases)
    case absent
    then have "held (st_leases s) ?k = None"
      using store_accessor_held(1) [OF inv, of ?k] by (simp add: s1)
    then show ?thesis using absent by simp
  next
    case dropped
    then have "held (st_leases s) ?k = Some (store_accessor (fst (st_leases s)) ?k)"
      using store_accessor_held(2) [OF inv, of ?k] by (simp add: s1)
    then show ?thesis using dropped by (simp add: s1)
  qed (use ok in \<open>auto simp: writeError_def writeJSON_def\<close>)
  show ?thesis
    by (rule exI [of _ q], rule exI [of _ key], rule exI [of _ ?k]) (use s1 held log in simp)
qed

section \<open>Every reachable state\<close>

lemma state_path_file:
  assumes "validStatePath p = Inr ()" and "\<not> has_suffix p ''.tmp''"
  shows "state_file p"
proof -
  obtain rs where rs: "rs \<noteq> []" "list_all plain_elem rs" "p = abs_path (state_root @ rs)"
    using assms(1) validStatePath_elems by blast
  then have "state_root @ rs = (state_root @ butlast rs) @ [last rs]" by simp
  then have "p = abs_path ((state_root @ butlast rs) @ [last rs])" using rs(3) by metis
  moreover have "list_all plain_elem ((state_root @ butlast rs) @ [last rs])"
    using rs(1,2) append_butlast_last_id [OF rs(1)] by (metis append.assoc list_all_append state_root_plain)
  ultimately show ?thesis using assms(2) unfolding state_file_def by blast
qed

lemma live_reachable:
  assumes "loadStateStore lst rd p fs = Inr store" and "validStatePath p = Inr ()"
    and "\<not> has_suffix p ''.tmp''"
    and "(server_step (live_deps send parsers crypto pss media config vault platform))\<^sup>*\<^sup>*
           (newServer config (store, fs) w clock rnd) s"
  shows "server_inv s \<and> accounted [] {} s"
  by (rule live.reachable_inv [OF assms(4) newServer_inv [OF load_inv [OF state_path_file [OF assms(2,3)] assms(1)]]]) simp_all

text \<open>
  In every such state the lease store and the nonce cache are well-formed, the cache is within
  its limit, and a restart would load exactly the leases the server holds (if the state fits the
  loader's size limit).
\<close>

theorem restart_recovers_leases:
  assumes "loadStateStore lst rd p fs = Inr store" and "validStatePath p = Inr ()"
    and "\<not> has_suffix p ''.tmp''"
    and "(server_step (live_deps send parsers crypto pss media config vault platform))\<^sup>*\<^sup>*
           (newServer config (store, fs) w clock rnd) s"
  shows "store_inv (fst (st_leases s)) \<and> length (entries (st_nonces s)) \<le> nat (maximum (st_nonces s)) \<and>
     (state_fits (st_leases s) \<longrightarrow> restarted (st_leases s) = Some (held (st_leases s)))"
  using live_reachable [OF assms]
  by (simp add: server_inv_def lease_state_inv_def nonce_inv_def)

text \<open>
  Readiness is reported (status 200) exactly for a GET while the last renewal of the issuer
  token succeeded and Vault answers that it is initialised and unsealed.
\<close>

theorem ready_iff:
  "o_status (fst (handleReady d req s)) = 200 \<longleftrightarrow>
     h_method req = ''GET'' \<and> st_ready s \<and> fst (op_healthy (d_vault d) (st_world s))"
  by (auto simp: handleReady_def writeError_def writeJSON_def Let_def split: prod.splits)

section \<open>Witnesses\<close>

definition demo_revoke :: revokeRequest where
  "demo_revoke = \<lparr>r_version = 1, r_hostUUID = ''host'', r_volumeName = ''vol'',
     r_timestamp = ''2026-01-01T00:00:00Z'', r_nonce = i_nonce demo_issue\<rparr>"

definition demo_revoke_inbound :: inbound where
  "demo_revoke_inbound =
     demo_inbound\<lparr>h_path := ''/v1/leases/revoke'', h_data := json_encode True (revoke_document demo_revoke)\<rparr>"

lemma demo_revoke_decode: "decode_revoke (h_data demo_revoke_inbound) = Some demo_revoke"
proof -
  have "revoke_wf demo_revoke"
    by (simp add: revoke_wf_def demo_revoke_def demo_issue_def ascii_utf8 ascii_rawurl)
  then show ?thesis
    by (simp add: demo_revoke_inbound_def decode_revoke_document)
qed

lemma demo_revoke_valid: "validate_revoke demo_revoke demo_config demo_now = Inr ()"
proof -
  have cfg: "0 \<le> NonceTTL demo_config" "NonceTTL demo_config < max_duration"
    by (simp_all add: demo_config_def max_duration_def)
  show ?thesis
    unfolding validate_revoke_iff [OF cfg]
    using demo_time demo_nonce demo_names
    by (simp add: demo_revoke_def fresh_def demo_config_def)
qed

lemma demo_revoke_body:
  "h_data demo_revoke_inbound \<noteq> '''' \<and> int (length (h_data demo_revoke_inbound)) \<le> 65536"
proof -
  have "length (json_quote True (i_nonce demo_issue)) \<le> 6 * length (i_nonce demo_issue) + 2"
    by (rule length_json_quote) (simp add: demo_issue_def ascii_rawurl)
  moreover have "length (i_nonce demo_issue) \<le> 48"
    using length_b64_raw [of "b64_char CHR ''-'' CHR ''_''" "replicate 24 CHR 0x07"]
    by (simp add: demo_issue_def rawurl_encode_def)
  moreover have "length (json_encode True (revoke_document (demo_revoke\<lparr>r_nonce := []\<rparr>))) \<le> 1000"
    by code_simp
  ultimately show ?thesis
    by (simp add: demo_revoke_inbound_def revoke_document_def demo_revoke_def)
qed

lemma demo_revoke_well_formed: "well_formed demo_deps demo_revoke_inbound"
  using demo_revoke_body demo_well_formed
  by (simp add: well_formed_def demo_deps_def demo_config_def header_get_def header_values_def)
    (simp add: demo_revoke_inbound_def)

lemma demo_revoked: "o_status (fst (handleRevoke demo_deps demo_revoke_inbound demo_server)) = 204"
proof -
  have "signed_by demo_deps demo_revoke_inbound (h_data demo_revoke_inbound) demo_key"
    using demo_signed
    by (simp add: signed_by_def demo_deps_def header_get_def header_values_def demo_revoke_inbound_def
        split: option.splits)
  moreover have "d_platform demo_deps (r_hostUUID demo_revoke) w = (Inr demo_key, w)" for w
    using demo_names(1) by (simp add: demo_deps_def demo_revoke_def)
  moreover have "d_config demo_deps = demo_config" by (simp add: demo_deps_def)
  ultimately have "\<exists>s1. admit decode_revoke validate_revoke r_hostUUID r_nonce demo_deps demo_revoke_inbound
      demo_server = (Inr (demo_revoke, demo_key), s1) \<and> st_leases s1 = demo_store"
    unfolding admit_ok
    using demo_revoke_well_formed demo_revoke_decode demo_revoke_valid use_nonce_new [of 10000]
    by (simp add: demo_server_parts)
  then obtain s1 where "handleRevoke demo_deps demo_revoke_inbound demo_server = revoke_locked demo_deps demo_revoke s1"
      and "st_leases s1 = demo_store"
    by (auto simp: handleRevoke_admit)
  then show ?thesis
    by (simp add: revoke_locked_def store_accessor_def demo_store_def no_content_def)
qed

lemma demo_path_valid: "validStatePath (StatePath demo_config) = Inr ()" "\<not> has_suffix (StatePath demo_config) ''.tmp''"
proof -
  have "StatePath demo_config = abs_path (state_root @ [''leases.json''])"
    by (simp add: demo_config_def abs_path_def join_byte_def state_root_def)
  moreover have "list_all plain_elem [''leases.json'']"
    by (simp add: plain_elem_def)
  ultimately show "validStatePath (StatePath demo_config) = Inr ()"
    unfolding validStatePath_elems by blast
  show "\<not> has_suffix (StatePath demo_config) ''.tmp''"
    using demo_state_file by (simp add: state_file_def)
qed

lemma demo_loaded: "loadStateStore True True (StatePath demo_config) demo_os = Inr (fst demo_store)"
  by (simp add: loadStateStore_def demo_os_def demo_store_def)

text \<open>A revoke request whose signature the library rejects, refused after the lookup of the host's key.\<close>

theorem request_refused_inert_witness:
  "o_status (fst (ServeHTTP (demo_deps\<lparr>d_verify_pss := \<lambda>k d s. False\<rparr>) demo_revoke_inbound demo_server)) = 401 \<and>
   st_leases (snd (ServeHTTP (demo_deps\<lparr>d_verify_pss := \<lambda>k d s. False\<rparr>) demo_revoke_inbound demo_server)) = demo_store"
proof -
  let ?d = "demo_deps\<lparr>d_verify_pss := \<lambda>k d s. False\<rparr>" and ?req = demo_revoke_inbound
  obtain r s1 where a: "admit decode_revoke validate_revoke r_hostUUID r_nonce ?d ?req demo_server = (r, s1)"
    by (cases "admit decode_revoke validate_revoke r_hostUUID r_nonce ?d ?req demo_server")
  have "\<not> signed_by ?d ?req (h_data ?req) key" for key
    by (simp add: signed_by_def split: option.splits)
  then obtain resp where resp: "r = Inl resp"
    using a by (cases r) (auto simp: admit_ok)
  have "well_formed ?d ?req"
    using demo_revoke_well_formed by (simp add: well_formed_def)
  then have "o_status resp = 401"
    using a resp demo_revoke_decode demo_revoke_valid
    by (auto simp: admit_def well_formed_iff demo_deps_def read_clock_def demo_server_parts Let_def
        writeError_def writeJSON_def dest!: readRequest_data split: option.splits prod.splits)
  moreover have "ServeHTTP ?d ?req demo_server = (resp, s1)"
    using a resp by (simp add: ServeHTTP_def handleRevoke_admit) (simp add: demo_revoke_inbound_def)
  ultimately show ?thesis
    using request_refused_inert [of ?d ?req demo_server resp s1] by (simp add: demo_server_parts)
qed

theorem revoke_granted_witness:
  "\<exists>q. decode_revoke (h_data demo_revoke_inbound) = Some q \<and>
     held (st_leases (snd (handleRevoke demo_deps demo_revoke_inbound demo_server)))
       (leaseStateKey (r_hostUUID q) (r_volumeName q)) = None"
proof -
  have "lease_state_inv (st_leases demo_server)"
    using load_inv [OF demo_state_file demo_loaded] by (simp add: demo_server_parts demo_store_def)
  from revoke_granted [OF this prod.collapse [symmetric] demo_revoked] show ?thesis by auto
qed

definition demo_live :: "unit deps" where
  "demo_live = live_deps (\<lambda>q w. (None, w))
     \<lparr>pem_decode = \<lambda>c. None, parse_pkcs1 = \<lambda>d. None, parse_pkix = \<lambda>d. None, parse_certificate = \<lambda>d. None\<rparr>
     demo_crypto (\<lambda>k d s. False) (\<lambda>m. Some m) demo_config
     (newVaultClient demo_config \<lparr>u_scheme = ''https'', u_host = ''vault'', u_path = [], u_query = []\<rparr>)
     (newPlatformClient demo_config \<lparr>u_scheme = ''https'', u_host = ''control'', u_path = [], u_query = []\<rparr>)"

lemma demo_live_step:
  "(server_step demo_live)\<^sup>*\<^sup>* (newServer demo_config (fst demo_store, demo_os) () (\<lambda>_. 0) (\<lambda>_. demo_entropy))
     (renewal_tick demo_live (newServer demo_config (fst demo_store, demo_os) () (\<lambda>_. 0) (\<lambda>_. demo_entropy)))"
  by (rule r_into_rtranclp) (rule renew)

theorem restart_recovers_leases_witness:
  "store_inv (fst (st_leases (renewal_tick demo_live
     (newServer demo_config (fst demo_store, demo_os) () (\<lambda>_. 0) (\<lambda>_. demo_entropy)))))"
  using restart_recovers_leases [OF demo_loaded demo_path_valid demo_live_step [unfolded demo_live_def]]
  unfolding demo_live_def by blast

end
