(* ===== verification/GoNumber.thy ===== *)
theory GoNumber
  imports GoTime
begin

text \<open>
  The number syntax of flags: \<^verbatim>\<open>strconv.ParseInt\<close> with base 0 (prefixes and underscores) and
  \<^verbatim>\<open>time.ParseDuration\<close>, whose fractions go through \<^verbatim>\<open>float64\<close> and whose sums through \<^verbatim>\<open>uint64\<close>.
\<close>

section \<open>Integers\<close>

definition ascii_digit :: "char \<Rightarrow> bool" where
  "ascii_digit c = (48 \<le> byte_val c \<and> byte_val c \<le> 57)"

text \<open>A digit or letter as a number below 36.\<close>

definition base36_val :: "char \<Rightarrow> nat option" where
  "base36_val c =
     (let n = byte_val c in
      if 48 \<le> n \<and> n \<le> 57 then Some (n - 48)
      else if 97 \<le> n \<and> n \<le> 122 then Some (n - 87)
      else if 65 \<le> n \<and> n \<le> 90 then Some (n - 55) else None)"

definition base_prefix :: "bytes \<Rightarrow> nat option" where
  "base_prefix s =
     (case s of
        z # b # r \<Rightarrow>
          if z \<noteq> CHR ''0'' then None
          else if b = CHR ''b'' \<or> b = CHR ''B'' then Some 2
          else if b = CHR ''o'' \<or> b = CHR ''O'' then Some 8
          else if b = CHR ''x'' \<or> b = CHR ''X'' then Some 16 else None
      | _ \<Rightarrow> None)"

text \<open>The digits of a base, underscores skipped; \<open>None\<close> on anything else or beyond \<^verbatim>\<open>uint64\<close>.\<close>

fun base_digits :: "nat \<Rightarrow> nat \<Rightarrow> bytes \<Rightarrow> nat option" where
  "base_digits b n [] = Some n"
| "base_digits b n (c # s) =
     (if c = CHR ''_'' then base_digits b n s
      else (case base36_val c of
              None \<Rightarrow> None
            | Some d \<Rightarrow>
                if d \<ge> b then None
                else if n * b + d \<ge> 2 ^ 64 then None else base_digits b (n * b + d) s))"

text \<open>Underscores stand between digits, or between a base prefix and a digit.\<close>

datatype underscore_state = UStart | UDigit | UUnderscore | UOther

fun underscore_scan :: "bool \<Rightarrow> underscore_state \<Rightarrow> bytes \<Rightarrow> bool" where
  "underscore_scan hex i [] = (i \<noteq> UUnderscore)"
| "underscore_scan hex i (c # s) =
     (if ascii_digit c \<or> (hex \<and> (case base36_val c of Some d \<Rightarrow> 10 \<le> d \<and> d < 16 | None \<Rightarrow> False))
      then underscore_scan hex UDigit s
      else if c = CHR ''_'' then i = UDigit \<and> underscore_scan hex UUnderscore s
      else i \<noteq> UUnderscore \<and> underscore_scan hex UOther s)"

definition underscore_ok :: "bytes \<Rightarrow> bool" where
  "underscore_ok s =
     (case base_prefix s of
        Some b \<Rightarrow> underscore_scan (b = 16) UDigit (drop 2 s)
      | None \<Rightarrow> underscore_scan False UStart s)"

definition parse_uint0 :: "bytes \<Rightarrow> nat option" where
  "parse_uint0 s =
     (if s = [] then None
      else (let (b, t) =
              (if hd s \<noteq> CHR ''0'' then (10, s)
               else (case base_prefix s of
                       Some b \<Rightarrow> if length s \<ge> 3 then (b, drop 2 s) else (8, drop 1 s)
                     | None \<Rightarrow> (8, drop 1 s)))
            in case base_digits b 0 t of
                 None \<Rightarrow> None
               | Some n \<Rightarrow> if CHR ''_'' \<in> set t \<and> \<not> underscore_ok s then None else Some n))"

definition parse_int0 :: "bytes \<Rightarrow> int option" where
  "parse_int0 s =
     (case s of
        [] \<Rightarrow> None
      | c # t \<Rightarrow>
          (let neg = (c = CHR ''-''); r = (if c = CHR ''+'' \<or> c = CHR ''-'' then t else s)
           in case parse_uint0 r of
                None \<Rightarrow> None
              | Some n \<Rightarrow>
                  if neg then (if n > 2 ^ 63 then None else Some (- int n))
                  else (if n \<ge> 2 ^ 63 then None else Some (int n))))"

section \<open>Binary floating point\<close>

text \<open>
  Positive numbers \<open>m * 2^e\<close> of 53 significant bits, rounded to nearest, ties to even. The values
  that occur stay in the range of normal numbers, or are far below one where only their integral
  part, zero, is used.
\<close>

type_synonym float64 = "nat \<times> int"

fun bit_length :: "nat \<Rightarrow> nat" where
  "bit_length n = (if n = 0 then 0 else Suc (bit_length (n div 2)))"

declare bit_length.simps [simp del]

definition fl_round :: "nat \<Rightarrow> nat \<Rightarrow> int \<Rightarrow> float64" where
  "fl_round p q e =
     (let sh = 55 + int (bit_length q) - int (bit_length p);
          (n, d) = (if sh \<ge> 0 then (p * 2 ^ nat sh, q) else (p, q * 2 ^ nat (- sh)));
          m = n div d;
          extra = bit_length m - 53;
          hi = m div 2 ^ extra; lo = m mod 2 ^ extra; half = 2 ^ (extra - 1);
          up = (lo > half \<or> (lo = half \<and> (n mod d \<noteq> 0 \<or> odd hi)))
      in (if up then hi + 1 else hi, int extra - sh + e))"

definition fl_nat :: "nat \<Rightarrow> float64" where
  "fl_nat n = (if n = 0 then (0, 0) else fl_round n 1 0)"

definition fl_mul :: "float64 \<Rightarrow> float64 \<Rightarrow> float64" where
  "fl_mul a b = (if fst a = 0 \<or> fst b = 0 then (0, 0) else fl_round (fst a * fst b) 1 (snd a + snd b))"

definition fl_div :: "float64 \<Rightarrow> float64 \<Rightarrow> float64" where
  "fl_div a b = (if fst a = 0 then (0, 0) else fl_round (fst a) (fst b) (snd a - snd b))"

definition fl_trunc :: "float64 \<Rightarrow> nat" where
  "fl_trunc a = (if snd a \<ge> 0 then fst a * 2 ^ nat (snd a) else fst a div 2 ^ nat (- snd a))"

text \<open>The scale of a fraction of \<open>k\<close> digits; beyond 308 digits it is infinite.\<close>

fun fl_scale :: "nat \<Rightarrow> float64" where
  "fl_scale 0 = fl_nat 1"
| "fl_scale (Suc k) = fl_mul (fl_scale k) (fl_nat 10)"

definition fraction_nanos :: "nat \<Rightarrow> nat \<Rightarrow> nat \<Rightarrow> nat" where
  "fraction_nanos f k unit =
     (if k > 308 then 0 else fl_trunc (fl_mul (fl_nat f) (fl_div (fl_nat unit) (fl_scale k))))"

section \<open>Durations\<close>

text \<open>\<^verbatim>\<open>leadingInt\<close>: \<open>None\<close> when the number exceeds two to the 63.\<close>

fun leading_int :: "nat \<Rightarrow> bytes \<Rightarrow> (nat \<times> bytes) option" where
  "leading_int x [] = Some (x, [])"
| "leading_int x (c # s) =
     (if \<not> ascii_digit c then Some (x, c # s)
      else if x > 2 ^ 63 div 10 then None
      else (let y = x * 10 + (byte_val c - 48) in if y > 2 ^ 63 then None else leading_int y s))"

text \<open>\<^verbatim>\<open>leadingFraction\<close>: value, number of digits taken into account, rest.\<close>

fun leading_fraction :: "bool \<Rightarrow> nat \<Rightarrow> nat \<Rightarrow> bytes \<Rightarrow> nat \<times> nat \<times> bytes" where
  "leading_fraction overflow x k [] = (x, k, [])"
| "leading_fraction overflow x k (c # s) =
     (if \<not> ascii_digit c then (x, k, c # s)
      else if overflow \<or> x > (2 ^ 63 - 1) div 10 then leading_fraction True x k s
      else (let y = x * 10 + (byte_val c - 48)
            in if y > 2 ^ 63 then leading_fraction True x k s else leading_fraction False y (Suc k) s))"

definition duration_units :: "(bytes \<times> nat) list" where
  "duration_units =
     [(''ns'', 1), (''us'', 1000), (map char_of [0xC2, 0xB5 :: nat] @ ''s'', 1000),
      (map char_of [0xCE, 0xBC :: nat] @ ''s'', 1000), (''ms'', 1000000), (''s'', 1000000000),
      (''m'', 60000000000), (''h'', 3600000000000)]"

definition unit_byte :: "char \<Rightarrow> bool" where
  "unit_byte c = (\<not> (c = CHR ''.'' \<or> ascii_digit c))"

text \<open>One term of a duration: its nanoseconds and the rest of the text.\<close>

definition duration_term :: "bytes \<Rightarrow> (nat \<times> bytes) option" where
  "duration_term s =
     (if s = [] \<or> unit_byte (hd s) then None
      else (case leading_int 0 s of
        None \<Rightarrow> None
      | Some (v, s1) \<Rightarrow>
          (let pre = length s1 \<noteq> length s;
               dot = (s1 \<noteq> [] \<and> hd s1 = CHR ''.'');
               (f, k, s2) = (if dot then leading_fraction False 0 0 (drop 1 s1) else (0, 0, s1));
               post = (dot \<and> length s2 \<noteq> length (drop 1 s1));
               u = takeWhile unit_byte s2
           in if \<not> pre \<and> \<not> post then None
              else if u = [] then None
              else (case map_of duration_units u of
                      None \<Rightarrow> None
                    | Some unit \<Rightarrow>
                        if v > 2 ^ 63 div unit then None
                        else (let total = v * unit + (if f > 0 then fraction_nanos f k unit else 0)
                              in if f > 0 \<and> total > 2 ^ 63 then None
                                 else Some (total, dropWhile unit_byte s2))))))"

lemma leading_int_length: "leading_int x s = Some (v, r) \<Longrightarrow> length r \<le> length s"
  by (induction x s rule: leading_int.induct) (auto simp: Let_def split: if_splits)

lemma leading_fraction_length: "leading_fraction b x k s = (f, k', r) \<Longrightarrow> length r \<le> length s"
  by (induction s arbitrary: b x k) (auto simp: Let_def intro: le_SucI split: if_splits)

lemma duration_term_shorter:
  assumes "duration_term s = Some (n, r)"
  shows "length r < length s"
proof -
  from assms obtain v s1 where s1: "leading_int 0 s = Some (v, s1)"
    by (auto simp: duration_term_def split: if_splits option.splits)
  define dot where "dot = (s1 \<noteq> [] \<and> hd s1 = CHR ''.'')"
  obtain f k s2 where s2: "(if dot then leading_fraction False 0 0 (drop 1 s1) else (0, 0, s1)) = (f, k, s2)"
    by (metis prod_cases3)
  have "takeWhile unit_byte s2 \<noteq> []" and r: "r = dropWhile unit_byte s2"
    using assms by (auto simp: duration_term_def s1 dot_def [symmetric] s2 Let_def split: if_splits option.splits)
  then have "length r < length s2"
    by (metis length_append length_greater_0_conv less_add_same_cancel2 takeWhile_dropWhile_id)
  also have "length s2 \<le> length s1"
    using s2 leading_fraction_length [of False 0 0 "drop 1 s1"] by (fastforce split: if_splits)
  also have "length s1 \<le> length s"
    using leading_int_length [OF s1] .
  finally show ?thesis .
qed

text \<open>The loop over the terms; the sum is a \<^verbatim>\<open>uint64\<close> and wraps before it is checked.\<close>

function duration_terms :: "nat \<Rightarrow> bytes \<Rightarrow> nat option" where
  "duration_terms d s =
     (if s = [] then Some d
      else (case duration_term s of
              None \<Rightarrow> None
            | Some (v, r) \<Rightarrow>
                (let d' = (d + v) mod 2 ^ 64 in if d' > 2 ^ 63 then None else duration_terms d' r)))"
  by pat_completeness auto
termination
  by (relation "measure (\<lambda>(d, s). length s)") (auto dest: duration_term_shorter)

declare duration_terms.simps [simp del]

definition parse_duration :: "bytes \<Rightarrow> nanos option" where
  "parse_duration s =
     (let signed = (s \<noteq> [] \<and> (hd s = CHR ''-'' \<or> hd s = CHR ''+''));
          neg = (signed \<and> hd s = CHR ''-'');
          t = (if signed then drop 1 s else s)
      in if t = ''0'' then Some 0
         else if t = [] then None
         else (case duration_terms 0 t of
                 None \<Rightarrow> None
               | Some d \<Rightarrow>
                   if neg then Some (- int d)
                   else if d > 2 ^ 63 - 1 then None else Some (int d)))"

end
