(* ===== verification/GoNet.thy ===== *)
theory GoNet
  imports Network GoNumber
begin

text \<open>
  Textual addresses: \<^verbatim>\<open>net.ParseIP\<close> (which refuses zones) and the host name of a URL's host part.
\<close>

section \<open>IPv4\<close>

text \<open>The loop over the text: value and length of the octet being read, and the octets before it.\<close>

fun ipv4_scan :: "nat list \<Rightarrow> nat \<Rightarrow> nat \<Rightarrow> bytes \<Rightarrow> nat list option" where
  "ipv4_scan done val len [] = (if len = 0 \<or> length done \<noteq> 3 then None else Some (done @ [val]))"
| "ipv4_scan done val len (c # s) =
     (if ascii_digit c then
        (if len = 1 \<and> val = 0 then None
         else (let v = val * 10 + (byte_val c - 48) in if v > 255 then None else ipv4_scan done v (len + 1) s))
      else if c = CHR ''.'' then
        (if len = 0 \<or> length done = 3 then None else ipv4_scan (done @ [val]) 0 0 s)
      else None)"

definition parse_ipv4 :: "bytes \<Rightarrow> nat list option" where
  "parse_ipv4 s = ipv4_scan [] 0 0 s"

section \<open>IPv6\<close>

definition hex_digit :: "char \<Rightarrow> bool" where
  "hex_digit c = (case base36_val c of Some d \<Rightarrow> d < 16 | None \<Rightarrow> False)"

definition hex_number :: "bytes \<Rightarrow> nat" where
  "hex_number s = foldl (\<lambda>n c. n * 16 + the (base36_val c)) 0 s"

text \<open>
  The loop over the groups: the bytes so far, where the ellipsis stood, the rest. The result is
  the bytes, the ellipsis and the text left.
\<close>

function ipv6_groups :: "nat list \<Rightarrow> nat option \<Rightarrow> bytes \<Rightarrow> (nat list \<times> nat option \<times> bytes) option" where
  "ipv6_groups ip ellipsis s =
     (if length ip \<ge> 16 then Some (ip, ellipsis, s)
      else (let digits = takeWhile hex_digit s; rest = dropWhile hex_digit s
            in if digits = [] \<or> length digits > 4 then None
               else if rest \<noteq> [] \<and> hd rest = CHR ''.'' then
                 (if (ellipsis = None \<and> length ip \<noteq> 12) \<or> length ip + 4 > 16 then None
                  else (case parse_ipv4 s of None \<Rightarrow> None | Some a \<Rightarrow> Some (ip @ a, ellipsis, [])))
               else (let ip' = ip @ [hex_number digits div 256, hex_number digits mod 256]
                     in case rest of
                          [] \<Rightarrow> Some (ip', ellipsis, [])
                        | c # t \<Rightarrow>
                            if c \<noteq> CHR '':'' \<or> t = [] then None
                            else if hd t = CHR '':'' then
                              (if ellipsis \<noteq> None then None
                               else if drop 1 t = [] then Some (ip', Some (length ip'), [])
                               else ipv6_groups ip' (Some (length ip')) (drop 1 t))
                            else ipv6_groups ip' ellipsis t)))"
  by pat_completeness auto
termination
proof (relation "measure (\<lambda>(ip, e, s). length s)", goal_cases)
  case (2 ip e s digits rest ip' c t)
  then show ?case
    using length_dropWhile_le [of hex_digit s] by (cases "dropWhile hex_digit s") auto
next
  case (3 ip e s digits rest ip' c t)
  then show ?case
    using length_dropWhile_le [of hex_digit s] by (cases "dropWhile hex_digit s") auto
qed simp

declare ipv6_groups.simps [simp del]

definition parse_ipv6 :: "bytes \<Rightarrow> nat list option" where
  "parse_ipv6 s =
     (let lead = has_prefix s ''::''; t = (if lead then drop 2 s else s)
      in if lead \<and> t = [] then Some (replicate 16 0)
         else (case ipv6_groups [] (if lead then Some 0 else None) t of
                 None \<Rightarrow> None
               | Some (ip, ellipsis, rest) \<Rightarrow>
                   if rest \<noteq> [] then None
                   else (case ellipsis of
                           None \<Rightarrow> if length ip < 16 then None else Some ip
                         | Some e \<Rightarrow>
                             if length ip < 16 then Some (take e ip @ replicate (16 - length ip) 0 @ drop e ip)
                             else None)))"

text \<open>The first dot, colon or percent sign decides; an address with a zone is no \<^verbatim>\<open>net.IP\<close>.\<close>

definition parse_ip :: "bytes \<Rightarrow> ip option" where
  "parse_ip s =
     (case find (\<lambda>c. c = CHR ''.'' \<or> c = CHR '':'' \<or> c = CHR ''%'') s of
        None \<Rightarrow> None
      | Some c \<Rightarrow>
          if c = CHR ''.'' then map_option (\<lambda>a. replicate 10 0 @ [255, 255] @ a) (parse_ipv4 s)
          else if c = CHR '':'' then (if CHR ''%'' \<in> set s then None else parse_ipv6 s)
          else None)"

section \<open>The host of a URL\<close>

definition valid_optional_port :: "bytes \<Rightarrow> bool" where
  "valid_optional_port s = (case s of [] \<Rightarrow> True | c # t \<Rightarrow> c = CHR '':'' \<and> list_all ascii_digit t)"

text \<open>\<^verbatim>\<open>URL.Hostname\<close>: without the port and without the brackets of an IPv6 address.\<close>

definition url_hostname :: "bytes \<Rightarrow> bytes" where
  "url_hostname host_port =
     (let h = (case last_index_byte host_port CHR '':'' of
                 None \<Rightarrow> host_port
               | Some i \<Rightarrow> if valid_optional_port (drop i host_port) then take i host_port else host_port)
      in if has_prefix h ''['' \<and> has_suffix h '']'' then take (length h - 2) (drop 1 h) else h)"

end
