(* ===== verification/Settings.thy ===== *)
theory Settings
  imports Config GoFlag GoNet GoJson
begin

text \<open>
  How the bridge gets its configuration (\<^verbatim>\<open>internal/broker/config.go\<close>): defaults and environment,
  flags, the secret file, the policy allowlist, and \<^verbatim>\<open>Validate\<close>. \<^verbatim>\<open>url.Parse\<close> is a parameter: which
  texts it accepts has changed between releases of Go.
\<close>

section \<open>Service URLs\<close>

record parsed_url =
  pu_scheme :: bytes
  pu_user :: bool
  pu_host :: bytes
  pu_path :: bytes
  pu_rawQuery :: bytes
  pu_fragment :: bytes

type_synonym url_parser = "bytes \<Rightarrow> parsed_url option"

definition privateHost :: "bytes \<Rightarrow> bool" where
  "privateHost host =
     (if fold_name host = fold_name ''localhost'' then True
      else (case parse_ip host of
              Some ip \<Rightarrow> is_private ip \<or> is_loopback ip \<or> is_link_local ip
            | None \<Rightarrow> validInternalHostname host))"

definition validateServiceURL :: "url_parser \<Rightarrow> bytes \<Rightarrow> parsed_url result" where
  "validateServiceURL parse_url raw =
     (case parse_url (trim_space raw) of
        None \<Rightarrow> Inl ''URL is invalid''
      | Some parsed \<Rightarrow>
          if pu_host parsed = '''' \<or> pu_user parsed \<or> pu_rawQuery parsed \<noteq> '''' \<or> pu_fragment parsed \<noteq> ''''
          then Inl ''URL is invalid''
          else if pu_scheme parsed \<noteq> ''https'' \<and> pu_scheme parsed \<noteq> ''http''
          then Inl ''URL scheme is unsupported''
          else if pu_scheme parsed = ''http'' \<and> \<not> privateHost (url_hostname (pu_host parsed))
          then Inl ''unencrypted URL must use a private address''
          else Inr (parsed\<lparr>pu_path := trim_right_byte CHR ''/'' (pu_path parsed)\<rparr>))"

section \<open>The secret file\<close>

text \<open>
  What a path names: the outcome of \<^verbatim>\<open>Lstat\<close> (whether the file is regular), whether it opens, the
  outcome of \<^verbatim>\<open>Stat\<close> on the open file, and what reading delivers, perhaps up to an error.
\<close>

record secret_file =
  sf_lstat :: "bool option"
  sf_opens :: bool
  sf_stat :: "bool option"
  sf_data :: bytes
  sf_broken :: bool

definition readSecretFile :: "(bytes \<Rightarrow> secret_file) \<Rightarrow> bytes \<Rightarrow> int \<Rightarrow> bytes result" where
  "readSecretFile files path maximum =
     (if maximum < 1 \<or> \<not> is_abs path \<or> path_clean path \<noteq> path then Inl ''secret file path is invalid''
      else if sf_lstat (files path) \<noteq> Some True then Inl ''secret file is invalid''
      else if \<not> sf_opens (files path) then Inl ''secret file is unavailable''
      else if sf_stat (files path) \<noteq> Some True then Inl ''secret file is invalid''
      else (let data = sf_data (files path);
                value = take (nat (maximum + 1)) data
            in if (sf_broken (files path) \<and> int (length data) < maximum + 1) \<or> int (length value) > maximum
               then Inl ''secret file exceeds its limit'' else Inr value))"

section \<open>Validation\<close>

definition validate_config :: "url_parser \<Rightarrow> config \<Rightarrow> unit result" where
  "validate_config parse_url config =
     (if split_host_port (Listen config) = None then Inl ''invalid listen address''
      else (case validateServiceURL parse_url (VaultURL config) of
        Inl e \<Rightarrow> Inl (''invalid Vault URL: '' @ e)
      | Inr _ \<Rightarrow>
      (case validateServiceURL parse_url (ControlPlaneURL config) of
        Inl e \<Rightarrow> Inl (''invalid compatible control-plane URL: '' @ e)
      | Inr _ \<Rightarrow>
          if \<not> validOpaqueSecret (VaultToken config) (64 * 1024) then Inl ''Vault issuing token is invalid''
          else if \<not> validName (VaultRole config) 128 then Inl ''Vault role is invalid''
          else if length (AllowedPolicies config) = 0 \<or> length (AllowedPolicies config) > 64
          then Inl ''Vault policy allowlist is invalid''
          else if \<not> validOpaqueSecret (AccessKey config) (4 * 1024) \<or> \<not> validOpaqueSecret (SecretKey config) (4 * 1024)
          then Inl ''compatible control-plane credentials are invalid''
          else (case validStatePath (StatePath config) of
                  Inl e \<Rightarrow> Inl e
                | Inr _ \<Rightarrow> if \<not> validLimits config then Inl ''runtime safety limit is invalid'' else Inr ()))))"

section \<open>Environment and flags\<close>

definition durationEnv :: "(bytes \<Rightarrow> bytes) \<Rightarrow> bytes \<Rightarrow> nanos \<Rightarrow> nanos" where
  "durationEnv getenv name fallback =
     (if getenv name = '''' then fallback
      else (case parse_duration (getenv name) of None \<Rightarrow> 0 | Some d \<Rightarrow> d))"

definition DefaultListen :: bytes where "DefaultListen = ''0.0.0.0:8080''"
definition DefaultStatePath :: bytes where
  "DefaultStatePath = ''/var/lib/pasturestack/vault-secrets-bridge/leases.json''"
definition DefaultMaxRequestBytes :: int where "DefaultMaxRequestBytes = 64 * 1024"
definition DefaultMaxResponse :: int where "DefaultMaxResponse = 2 * 1024 * 1024"
definition DefaultMaxVaultToken :: int where "DefaultMaxVaultToken = 64 * 1024"

definition compatibilityControlPlaneURL :: bytes where
  "compatibilityControlPlaneURL = ''CATTLE_URL''"
definition compatibilityAccessKey :: bytes where
  "compatibilityAccessKey = ''CATTLE_ACCESS_KEY''"
definition compatibilityEnvironmentAccessKey :: bytes where
  "compatibilityEnvironmentAccessKey = ''CATTLE_ENVIRONMENT_ACCESS_KEY''"
definition compatibilitySecretKey :: bytes where
  "compatibilitySecretKey = ''CATTLE_SECRET_KEY''"
definition compatibilityEnvironmentSecretKey :: bytes where
  "compatibilityEnvironmentSecretKey = ''CATTLE_ENVIRONMENT_SECRET_KEY''"

text \<open>The flags write to the configuration and to the text of the policy allowlist.\<close>

type_synonym settings = "config \<times> bytes"

definition initial_settings :: "(bytes \<Rightarrow> bytes) \<Rightarrow> settings" where
  "initial_settings getenv =
     (\<lparr>Listen = envOr getenv ''PASTURESTACK_VAULT_BRIDGE_LISTEN'' DefaultListen,
       VaultURL = firstEnv getenv [''VAULT_ADDR'', ''PASTURESTACK_VAULT_URL''],
       VaultToken = firstEnv getenv [''VAULT_TOKEN'', ''PASTURESTACK_VAULT_ISSUER_TOKEN''],
       VaultTokenFile = envOr getenv ''PASTURESTACK_VAULT_ISSUER_TOKEN_FILE'' '''',
       VaultRole = firstEnv getenv [''VAULT_ROLE'', ''PASTURESTACK_VAULT_ROLE''],
       AllowedPolicies = [],
       TokenTTL = durationEnv getenv ''PASTURESTACK_VAULT_TOKEN_TTL'' (5 * minute),
       WrapTTL = durationEnv getenv ''PASTURESTACK_VAULT_WRAP_TTL'' minute,
       RenewInterval = durationEnv getenv ''PASTURESTACK_VAULT_RENEW_INTERVAL'' (5 * minute),
       ControlPlaneURL = firstEnv getenv [compatibilityControlPlaneURL, ''PASTURESTACK_CONTROL_PLANE_URL''],
       AccessKey = firstEnv getenv
         [compatibilityEnvironmentAccessKey, ''PASTURESTACK_ACCESS_KEY'', compatibilityAccessKey],
       SecretKey = firstEnv getenv
         [compatibilityEnvironmentSecretKey, ''PASTURESTACK_SECRET_KEY'', compatibilitySecretKey],
       StatePath = envOr getenv ''PASTURESTACK_VAULT_STATE_PATH'' DefaultStatePath,
       RequestTimeout = durationEnv getenv ''PASTURESTACK_VAULT_REQUEST_TIMEOUT'' (10 * second),
       MaxRequestBytes = DefaultMaxRequestBytes, MaxResponseBytes = DefaultMaxResponse,
       NonceTTL = 5 * minute, MaxRememberedNonce = 10000\<rparr>,
      envOr getenv ''PASTURESTACK_VAULT_ALLOWED_POLICIES'' '''')"

definition string_flag :: "(bytes \<Rightarrow> config \<Rightarrow> config) \<Rightarrow> bytes \<Rightarrow> settings \<Rightarrow> settings option" where
  "string_flag upd v st = Some (upd v (fst st), snd st)"

definition duration_flag :: "(nanos \<Rightarrow> config \<Rightarrow> config) \<Rightarrow> bytes \<Rightarrow> settings \<Rightarrow> settings option" where
  "duration_flag upd v st = map_option (\<lambda>d. (upd d (fst st), snd st)) (parse_duration v)"

definition int_flag :: "(int \<Rightarrow> config \<Rightarrow> config) \<Rightarrow> bytes \<Rightarrow> settings \<Rightarrow> settings option" where
  "int_flag upd v st = map_option (\<lambda>n. (upd n (fst st), snd st)) (parse_int0 v)"

definition serve_flags :: "settings flag_table" where
  "serve_flags =
     [(''listen'', string_flag (\<lambda>x. Listen_update (\<lambda>_. x))),
      (''vault-url'', string_flag (\<lambda>x. VaultURL_update (\<lambda>_. x))),
      (''vault-token'', string_flag (\<lambda>x. VaultToken_update (\<lambda>_. x))),
      (''vault-token-file'', string_flag (\<lambda>x. VaultTokenFile_update (\<lambda>_. x))),
      (''vault-role'', string_flag (\<lambda>x. VaultRole_update (\<lambda>_. x))),
      (''allowed-policies'', \<lambda>v st. Some (fst st, v)),
      (''token-ttl'', duration_flag (\<lambda>x. TokenTTL_update (\<lambda>_. x))),
      (''wrap-ttl'', duration_flag (\<lambda>x. WrapTTL_update (\<lambda>_. x))),
      (''renew-interval'', duration_flag (\<lambda>x. RenewInterval_update (\<lambda>_. x))),
      (''control-plane-url'', string_flag (\<lambda>x. ControlPlaneURL_update (\<lambda>_. x))),
      (''access-key'', string_flag (\<lambda>x. AccessKey_update (\<lambda>_. x))),
      (''secret-key'', string_flag (\<lambda>x. SecretKey_update (\<lambda>_. x))),
      (''state-path'', string_flag (\<lambda>x. StatePath_update (\<lambda>_. x))),
      (''request-timeout'', duration_flag (\<lambda>x. RequestTimeout_update (\<lambda>_. x))),
      (''max-request-bytes'', int_flag (\<lambda>x. MaxRequestBytes_update (\<lambda>_. x))),
      (''max-response-bytes'', int_flag (\<lambda>x. MaxResponseBytes_update (\<lambda>_. x))),
      (''nonce-ttl'', duration_flag (\<lambda>x. NonceTTL_update (\<lambda>_. x))),
      (''max-remembered-nonces'', int_flag (\<lambda>x. MaxRememberedNonce_update (\<lambda>_. x)))]"

text \<open>The message of a flag error is that of the \<^verbatim>\<open>flag\<close> package and is not modelled.\<close>

definition ParseConfig ::
  "(bytes \<Rightarrow> bytes) \<Rightarrow> (bytes \<Rightarrow> secret_file) \<Rightarrow> url_parser \<Rightarrow> bytes list \<Rightarrow> config result" where
  "ParseConfig getenv files parse_url args =
     (case parse_flags serve_flags args (initial_settings getenv) of
       (ok, (config, allowedPolicies), rest) \<Rightarrow>
         if \<not> ok then Inl ''flag error''
         else if length rest \<noteq> 0 then Inl ''unexpected positional arguments''
         else if VaultToken config \<noteq> '''' \<and> VaultTokenFile config \<noteq> ''''
         then Inl ''Vault issuing token must use exactly one input''
         else (case (if VaultTokenFile config \<noteq> ''''
                     then readSecretFile files (VaultTokenFile config) DefaultMaxVaultToken
                     else Inr (VaultToken config)) of
           Inl _ \<Rightarrow> Inl ''unable to read Vault issuing token file''
         | Inr token \<Rightarrow>
           (case parsePolicyAllowlist allowedPolicies of
              Inl e \<Rightarrow> Inl e
            | Inr policies \<Rightarrow>
                (let complete = config\<lparr>VaultToken := token, AllowedPolicies := policies\<rparr>
                 in case validate_config parse_url complete of
                      Inl e \<Rightarrow> Inl e
                    | Inr _ \<Rightarrow> Inr complete))))"

end
