(* ===== verification/Startup.thy ===== *)
theory Startup
  imports Settings Network Platform Bridge
begin

text \<open>
  From arguments to a running service: the clients with their connection settings
  (\<^verbatim>\<open>vault.go\<close>, \<^verbatim>\<open>platform.go\<close>), \<^verbatim>\<open>RunServe\<close> (\<^verbatim>\<open>server.go\<close>) and \<^verbatim>\<open>main\<close>.
\<close>

section \<open>Clients\<close>

text \<open>
  The settings of an upstream client. \<^verbatim>\<open>CheckRedirect\<close> fails on every redirect; the client's dialer
  is the private one for an unencrypted upstream.
\<close>

record http_client =
  hc_timeout :: nanos
  hc_private :: bool
  hc_dial_timeout :: nanos
  hc_keep_alive :: nanos
  hc_min_tls :: nat
  hc_force_http2 :: bool
  hc_max_idle :: nat
  hc_max_idle_host :: nat
  hc_idle_timeout :: nanos
  hc_tls_timeout :: nanos
  hc_header_timeout :: nanos
  hc_on_redirect :: "unit result"

definition secureHTTPClient :: "nanos \<Rightarrow> bool \<Rightarrow> http_client" where
  "secureHTTPClient timeout privateOnly =
     \<lparr>hc_timeout = timeout, hc_private = privateOnly, hc_dial_timeout = 5 * second, hc_keep_alive = 30 * second,
      hc_min_tls = 0x0303, hc_force_http2 = True, hc_max_idle = 8, hc_max_idle_host = 4,
      hc_idle_timeout = 30 * second, hc_tls_timeout = 5 * second, hc_header_timeout = timeout,
      hc_on_redirect = Inl ''redirect was rejected''\<rparr>"

text \<open>
  The addresses a client connects to for one dial: those the private dialer tries, or those the
  plain dialer would.
\<close>

definition client_dials ::
  "http_client \<Rightarrow> (bytes \<Rightarrow> ip list option) \<Rightarrow> (bytes \<Rightarrow> ip \<Rightarrow> bool) \<Rightarrow> (bytes \<Rightarrow> ip list) \<Rightarrow> bytes \<Rightarrow> ip list" where
  "client_dials client lookup connects plain address =
     (if hc_private client then fst (privateDialContext lookup connects address) else plain address)"

definition base_url :: "parsed_url \<Rightarrow> url" where
  "base_url u = \<lparr>u_scheme = pu_scheme u, u_host = pu_host u, u_path = pu_path u, u_query = pu_rawQuery u\<rparr>"

definition openVaultClient :: "url_parser \<Rightarrow> config \<Rightarrow> (vaultClient \<times> http_client) result" where
  "openVaultClient parse_url config =
     (case validateServiceURL parse_url (VaultURL config) of
        Inl e \<Rightarrow> Inl e
      | Inr u \<Rightarrow>
          Inr (newVaultClient config (base_url u), secureHTTPClient (RequestTimeout config) (pu_scheme u = ''http'')))"

definition openPlatformClient :: "url_parser \<Rightarrow> config \<Rightarrow> (platformClient \<times> http_client) result" where
  "openPlatformClient parse_url config =
     (case validateServiceURL parse_url (ControlPlaneURL config) of
        Inl e \<Rightarrow> Inl e
      | Inr u \<Rightarrow>
          Inr (newPlatformClient config (base_url u), secureHTTPClient (RequestTimeout config) (pu_scheme u = ''http'')))"

section \<open>Starting\<close>

text \<open>
  What a start finds: environment, secret files, the state file's file system and whether \<^verbatim>\<open>Lstat\<close>
  and \<^verbatim>\<open>ReadFile\<close> on it work, the network behind the clients, and which addresses can be
  listened on.
\<close>

record 'w host =
  ho_getenv :: "bytes \<Rightarrow> bytes"
  ho_files :: "bytes \<Rightarrow> secret_file"
  ho_parse_url :: url_parser
  ho_lstat_ok :: bool
  ho_read_ok :: bool
  ho_os :: os
  ho_send :: "'w transport"
  ho_listen :: "bytes \<Rightarrow> bool"

record running =
  ru_config :: config
  ru_leases :: lease_state
  ru_vault :: vaultClient
  ru_platform :: platformClient
  ru_http :: "http_client \<times> http_client"

text \<open>
  The start-up of \<^verbatim>\<open>RunServe\<close>, up to the listener: the exit code, the message on standard error
  and the Vault client if there is one to close, or the parts of the running service. The server's
  own configuration has lost the token.
\<close>

definition start_serve :: "'w host \<Rightarrow> bytes list \<Rightarrow> 'w \<Rightarrow> ((nat \<times> bytes \<times> vaultClient option) + running) \<times> 'w" where
  "start_serve h args w =
     (case ParseConfig (ho_getenv h) (ho_files h) (ho_parse_url h) args of
        Inl _ \<Rightarrow> (Inl (2, ''invalid runtime configuration'', None), w)
      | Inr config \<Rightarrow>
      (case openPlatformClient (ho_parse_url h) config of
        Inl _ \<Rightarrow> (Inl (1, ''invalid compatible control-plane configuration'', None), w)
      | Inr (platform, platform_http) \<Rightarrow>
      (case openVaultClient (ho_parse_url h) config of
        Inl _ \<Rightarrow> (Inl (1, ''invalid Vault configuration'', None), w)
      | Inr (vault, vault_http) \<Rightarrow>
      (case loadStateStore (ho_lstat_ok h) (ho_read_ok h) (StatePath config) (ho_os h) of
        Inl e \<Rightarrow> (Inl (1, e, Some vault), w)
      | Inr state \<Rightarrow>
          (let (healthy, w1) = vault_healthy (ho_send h) vault w;
               (renewed, w2) = vault_renew (ho_send h) vault w1
           in if \<not> healthy \<or> \<not> is_ok renewed then (Inl (1, ''Vault issuer is not ready'', Some vault), w2)
              else if \<not> ho_listen h (Listen config) then (Inl (1, ''unable to start Vault bridge listener'', Some vault), w2)
              else (Inr \<lparr>ru_config = config\<lparr>VaultToken := ''''\<rparr>, ru_leases = (state, ho_os h), ru_vault = vault,
                     ru_platform = platform, ru_http = (platform_http, vault_http)\<rparr>, w2))))))"

text \<open>
  How serving ends: \<^verbatim>\<open>Serve\<close> returns (closed or nil, or with another error), or a signal arrives. What
  the requests in flight have done by then is in the log of the service; \<^verbatim>\<open>Shutdown\<close> waits five
  seconds for them, and one that is still at work then dies with the process, as in a crash.
\<close>

datatype serve_end = ServeClosed | ServeFailed | Signalled

record serve_result =
  sr_code :: nat
  sr_stdout :: bytes
  sr_stderr :: bytes
  sr_vault :: "vaultClient option"

definition RunServe :: "'w host \<Rightarrow> bytes list \<Rightarrow> serve_end \<Rightarrow> 'w \<Rightarrow> serve_result" where
  "RunServe h args stop w =
     (case fst (start_serve h args w) of
        Inl (code, msg, vault) \<Rightarrow>
          \<lparr>sr_code = code, sr_stdout = '''', sr_stderr = msg, sr_vault = map_option vault_close vault\<rparr>
      | Inr r \<Rightarrow>
          (if stop = ServeFailed
           then \<lparr>sr_code = 1, sr_stdout = '''', sr_stderr = ''Vault bridge stopped unexpectedly'',
                 sr_vault = Some (vault_close (ru_vault r))\<rparr>
           else \<lparr>sr_code = 0, sr_stdout = ''Vault bridge stopped'', sr_stderr = '''',
                 sr_vault = Some (vault_close (ru_vault r))\<rparr>))"

end
