(* ===== verification/StartProps.thy ===== *)
theory StartProps
  imports BridgeProps Startup
begin

text \<open>
  What a start of the bridge establishes: the configuration it accepts and the connections of the
  running service to its upstreams.
\<close>

section \<open>A start in its parts\<close>

lemma start_serve_running:
  assumes "start_serve h args w = (Inr r, w')"
  shows "\<exists>config. ParseConfig (ho_getenv h) (ho_files h) (ho_parse_url h) args = Inr config \<and>
     ru_config r = config\<lparr>VaultToken := ''''\<rparr> \<and>
     (\<exists>state. loadStateStore (ho_lstat_ok h) (ho_read_ok h) (StatePath config) (ho_os h) = Inr state \<and>
        ru_leases r = (state, ho_os h))"
  using assms by (auto simp: start_serve_def Let_def split: sum.splits prod.splits if_splits)

lemma ParseConfig_parts:
  assumes "ParseConfig getenv files parse_url args = Inr c"
  obtains config allowed token policies where
    "(if VaultTokenFile config \<noteq> [] then readSecretFile files (VaultTokenFile config) DefaultMaxVaultToken
      else Inr (VaultToken config)) = Inr token"
    "parsePolicyAllowlist allowed = Inr policies" "c = config\<lparr>VaultToken := token, AllowedPolicies := policies\<rparr>"
    "validate_config parse_url c = Inr ()"
proof -
  obtain ok config allowed rest where flags: "parse_flags serve_flags args (initial_settings getenv) = (ok, (config, allowed), rest)"
    by (metis prod.collapse)
  define source where "source = (if VaultTokenFile config \<noteq> [] then readSecretFile files (VaultTokenFile config) DefaultMaxVaultToken
      else Inr (VaultToken config))"
  have "\<exists>token policies. source = Inr token \<and> parsePolicyAllowlist allowed = Inr policies \<and>
      c = config\<lparr>VaultToken := token, AllowedPolicies := policies\<rparr> \<and> validate_config parse_url c = Inr ()"
    using assms unfolding ParseConfig_def flags prod.case source_def [symmetric] Let_def
    by (auto split: sum.splits if_splits)
  then show ?thesis using that unfolding source_def by blast
qed

lemma ParseConfig_valid: "ParseConfig getenv files parse_url args = Inr c \<Longrightarrow> validate_config parse_url c = Inr ()"
  by (erule ParseConfig_parts)

lemma validate_config_iff:
  "validate_config parse_url c = Inr () \<longleftrightarrow>
     split_host_port (Listen c) \<noteq> None \<and>
     (\<exists>u. validateServiceURL parse_url (VaultURL c) = Inr u) \<and>
     (\<exists>u. validateServiceURL parse_url (ControlPlaneURL c) = Inr u) \<and>
     validOpaqueSecret (VaultToken c) (64 * 1024) \<and> validName (VaultRole c) 128 \<and>
     0 < length (AllowedPolicies c) \<and> length (AllowedPolicies c) \<le> 64 \<and>
     validOpaqueSecret (AccessKey c) (4 * 1024) \<and> validOpaqueSecret (SecretKey c) (4 * 1024) \<and>
     validStatePath (StatePath c) = Inr () \<and> validLimits c"
  by (auto simp: validate_config_def split: sum.splits if_splits)

section \<open>What a start establishes\<close>

definition service_url_ok :: "url_parser \<Rightarrow> bytes \<Rightarrow> bool" where
  "service_url_ok parse_url raw \<longleftrightarrow>
     (\<exists>u. parse_url (trim_space raw) = Some u \<and> pu_host u \<noteq> '''' \<and> \<not> pu_user u \<and> pu_rawQuery u = '''' \<and>
        pu_fragment u = '''' \<and>
        (pu_scheme u = ''https'' \<or> pu_scheme u = ''http'' \<and> privateHost (url_hostname (pu_host u))))"

lemma service_url_iff: "(\<exists>u. validateServiceURL parse_url raw = Inr u) \<longleftrightarrow> service_url_ok parse_url raw"
proof (cases "parse_url (trim_space raw)")
  case (Some u)
  show ?thesis unfolding validateServiceURL_def service_url_ok_def Some option.case option.inject ex_simps simp_thms
    by (simp split: if_split) blast
qed (simp add: validateServiceURL_def service_url_ok_def)

lemma privateHost_iff:
  "privateHost host \<longleftrightarrow> fold_name host = fold_name ''localhost'' \<or>
     (case parse_ip host of Some ip \<Rightarrow> internal_ip ip | None \<Rightarrow> validInternalHostname host)"
  unfolding privateHost_def internal_ip_def by (simp only: if_bool_eq_disj) blast

text \<open>The issuer token comes from one place: the flag or environment, or exactly a whole regular file.\<close>

definition token_source_ok :: "(bytes \<Rightarrow> secret_file) \<Rightarrow> config \<Rightarrow> bool" where
  "token_source_ok files c \<longleftrightarrow>
     VaultTokenFile c = '''' \<or>
     is_abs (VaultTokenFile c) \<and> path_clean (VaultTokenFile c) = VaultTokenFile c \<and>
     sf_lstat (files (VaultTokenFile c)) = Some True \<and> sf_stat (files (VaultTokenFile c)) = Some True \<and>
     sf_data (files (VaultTokenFile c)) = VaultToken c \<and> \<not> sf_broken (files (VaultTokenFile c))"

lemma readSecretFile_whole:
  assumes "readSecretFile files path bound = Inr value"
  shows "is_abs path \<and> path_clean path = path \<and> sf_lstat (files path) = Some True \<and>
     sf_stat (files path) = Some True \<and> sf_data (files path) = value \<and> \<not> sf_broken (files path)"
proof -
  have m: "\<not> bound < 1" and paths: "is_abs path" "path_clean path = path"
    and files: "sf_lstat (files path) = Some True" "sf_stat (files path) = Some True"
    and fits: "\<not> (sf_broken (files path) \<and> int (length (sf_data (files path))) < bound + 1)"
      "int (length value) \<le> bound" "value = take (nat (bound + 1)) (sf_data (files path))"
    using assms by (auto simp: readSecretFile_def Let_def split: if_splits)
  from fits(2,3) m have "length (sf_data (files path)) \<le> nat bound"
    by (auto simp: min_def split: if_splits)
  then have "value = sf_data (files path)" "int (length (sf_data (files path))) < bound + 1"
    using fits(3) m by auto
  with paths files fits(1) show ?thesis by blast
qed

definition limits_ok :: "config \<Rightarrow> bool" where
  "limits_ok c \<longleftrightarrow>
     minute \<le> TokenTTL c \<and> TokenTTL c \<le> hour \<and> 30 * second \<le> WrapTTL c \<and> WrapTTL c \<le> 5 * minute \<and>
     WrapTTL c \<le> TokenTTL c \<and> minute \<le> RenewInterval c \<and> RenewInterval c \<le> 30 * minute \<and>
     second \<le> RequestTimeout c \<and> RequestTimeout c \<le> minute \<and> minute \<le> NonceTTL c \<and> NonceTTL c \<le> 10 * minute \<and>
     1024 \<le> MaxRequestBytes c \<and> MaxRequestBytes c \<le> 1048576 \<and> 1024 \<le> MaxResponseBytes c \<and>
     MaxResponseBytes c \<le> 8388608 \<and> 100 \<le> MaxRememberedNonce c \<and> MaxRememberedNonce c \<le> 100000"

lemma validLimits_ok: "validLimits c \<longleftrightarrow> limits_ok c"
  by (auto simp: validLimits_def limits_ok_def)

lemma parsed_allowlist_ok:
  assumes "parsePolicyAllowlist raw = Inr m"
  shows "allowlist_ok m"
proof -
  have "allowlist_items (split_byte CHR '','' raw) [] = Inr m"
    using assms by (auto simp: parsePolicyAllowlist_def split: sum.splits if_splits)
  then show ?thesis
    by (rule allowlist_items_inv [rotated]) (simp add: allowlist_ok_def gm_keys_def)
qed

text \<open>
  C9: whatever the environment and arguments, a configuration that is accepted is safe: both service
  URLs are HTTPS or name an internal host, without user information, query or fragment; the issuer
  token comes from one source, and from a file only as the whole content of a regular file at a clean
  absolute path; the policy allowlist has one to 64 valid names; the state file lies below its root;
  and every limit is within its bounds.
\<close>

theorem config_accepted:
  assumes "ParseConfig getenv files parse_url args = Inr c"
  shows "service_url_ok parse_url (VaultURL c) \<and> service_url_ok parse_url (ControlPlaneURL c) \<and>
     validOpaqueSecret (VaultToken c) (64 * 1024) \<and> token_source_ok files c \<and> validName (VaultRole c) 128 \<and>
     allowlist_ok (AllowedPolicies c) \<and> 0 < length (AllowedPolicies c) \<and> length (AllowedPolicies c) \<le> 64 \<and>
     (\<exists>rs. rs \<noteq> [] \<and> list_all plain_elem rs \<and> StatePath c = abs_path (state_root @ rs)) \<and> limits_ok c"
proof -
  obtain config allowed token policies where parsed:
      "(if VaultTokenFile config \<noteq> [] then readSecretFile files (VaultTokenFile config) DefaultMaxVaultToken
        else Inr (VaultToken config)) = Inr token"
      "parsePolicyAllowlist allowed = Inr policies" "c = config\<lparr>VaultToken := token, AllowedPolicies := policies\<rparr>"
      "validate_config parse_url c = Inr ()"
    using assms by (rule ParseConfig_parts)
  have "token_source_ok files c"
  proof (cases "VaultTokenFile config = []")
    case False
    then have "readSecretFile files (VaultTokenFile c) DefaultMaxVaultToken = Inr (VaultToken c)"
      using parsed(1,3) by simp
    from readSecretFile_whole [OF this] show ?thesis by (simp add: token_source_ok_def)
  qed (simp add: token_source_ok_def parsed(3))
  moreover have "allowlist_ok (AllowedPolicies c)"
    using parsed_allowlist_ok [OF parsed(2)] parsed(3) by simp
  ultimately show ?thesis
    using parsed(4) unfolding validate_config_iff service_url_iff validStatePath_elems validLimits_ok by simp
qed

text \<open>The connection settings a start gives its two clients.\<close>

definition confined :: "bytes \<Rightarrow> http_client \<Rightarrow> bool" where
  "confined scheme client \<longleftrightarrow>
     scheme \<in> {''http'', ''https''} \<and> hc_on_redirect client = Inl ''redirect was rejected'' \<and>
     (scheme = ''http'' \<longrightarrow> (\<forall>lookup connects plain address.
        list_all internal_ip (client_dials client lookup connects plain address)))"

lemma private_dials_internal: "list_all internal_ip (fst (privateDialContext lookup connects address))"
proof -
  have "fst (privateDialContext lookup connects address) = [] \<or>
      (\<exists>port as. fst (privateDialContext lookup connects address) = fst (dial_loop (connects port) as))"
    by (auto simp: privateDialContext_def split: option.splits prod.splits) (metis fst_conv)+
  then show ?thesis using dial_loop_internal by auto
qed

lemma client_confined:
  "scheme \<in> {''http'', ''https''} \<Longrightarrow> confined scheme (secureHTTPClient timeout (scheme = ''http''))"
  by (auto simp: confined_def secureHTTPClient_def client_dials_def private_dials_internal)

lemma service_scheme: "validateServiceURL parse_url raw = Inr u \<Longrightarrow> pu_scheme u \<in> {''http'', ''https''}"
  by (auto simp: validateServiceURL_def split: option.splits if_splits)

text \<open>
  C8: the running service talks to its two upstreams over HTTPS, or without encryption only to
  internal addresses: whatever a name resolves to, a client for a plain HTTP service dials
  private, loopback and link-local addresses only. It follows no redirect, and the server's own
  configuration no longer has the issuer token.
\<close>

theorem upstreams_confined:
  assumes "start_serve h args w = (Inr r, w')"
  shows "confined (u_scheme (f_endpoint (ru_platform r))) (fst (ru_http r)) \<and>
     confined (u_scheme (v_baseURL (ru_vault r))) (snd (ru_http r)) \<and> VaultToken (ru_config r) = ''''"
proof -
  obtain config p ph v vh where
      p: "openPlatformClient (ho_parse_url h) config = Inr (p, ph)" and
      v: "openVaultClient (ho_parse_url h) config = Inr (v, vh)" and
      r: "ru_platform r = p" "ru_vault r = v" "ru_http r = (ph, vh)" "VaultToken (ru_config r) = ''''"
    using assms by (auto simp: start_serve_def Let_def split: sum.splits prod.splits if_splits)
  have "confined (u_scheme (f_endpoint p)) ph"
    using p client_confined service_scheme
    by (auto simp: openPlatformClient_def newPlatformClient_def base_url_def split: sum.splits)
  moreover have "confined (u_scheme (v_baseURL v)) vh"
    using v client_confined service_scheme
    by (auto simp: openVaultClient_def newVaultClient_def base_url_def split: sum.splits)
  ultimately show ?thesis using r by simp
qed

section \<open>A start\<close>

text \<open>
  A host with settings in its environment and an upstream that answers: Vault is reached without
  encryption at a private address, the control plane over HTTPS.
\<close>

definition demo_settings :: "(bytes \<times> bytes) list" where
  "demo_settings =
     [(''VAULT_ADDR'', ''http://10.0.0.2:8200''), (''VAULT_TOKEN'', ''issuer''), (''VAULT_ROLE'', ''bridge''),
      (''PASTURESTACK_VAULT_ALLOWED_POLICIES'', ''app''), (''PASTURESTACK_CONTROL_PLANE_URL'', ''https://control''),
      (''PASTURESTACK_ACCESS_KEY'', ''ak''), (''PASTURESTACK_SECRET_KEY'', ''sk'')]"

definition demo_env :: "bytes \<Rightarrow> bytes" where
  "demo_env name = (case map_of demo_settings name of None \<Rightarrow> '''' | Some v \<Rightarrow> v)"

definition demo_parse_url :: url_parser where
  "demo_parse_url raw =
     (if raw = ''http://10.0.0.2:8200''
      then Some \<lparr>pu_scheme = ''http'', pu_user = False, pu_host = ''10.0.0.2:8200'', pu_path = '''',
        pu_rawQuery = '''', pu_fragment = ''''\<rparr>
      else if raw = ''https://control''
      then Some \<lparr>pu_scheme = ''https'', pu_user = False, pu_host = ''control'', pu_path = '''',
        pu_rawQuery = '''', pu_fragment = ''''\<rparr>
      else None)"

text \<open>An upstream that answers everything with one document, of a healthy Vault and of one active host.\<close>

definition demo_document :: jv where
  "demo_document = JvObj [(''initialized'', JvBool True), (''sealed'', JvBool False),
     (''data'', JvArr [JvObj
       [(''uuid'', JvStr ''host''), (''state'', JvStr ''active''),
        (''info'', JvObj [(''hostKey'', JvObj [(''data'', JvStr ''pem'')])])]])]"

definition demo_reply :: "unit transport" where
  "demo_reply q w = (Some \<lparr>p_status = 200, p_data = json_encode True demo_document, p_broken = False\<rparr>, w)"

definition demo_host :: "unit host" where
  "demo_host =
     \<lparr>ho_getenv = demo_env,
      ho_files = \<lambda>_. \<lparr>sf_lstat = None, sf_opens = False, sf_stat = None, sf_data = '''', sf_broken = False\<rparr>,
      ho_parse_url = demo_parse_url, ho_lstat_ok = True, ho_read_ok = True, ho_os = demo_os,
      ho_send = demo_reply, ho_listen = \<lambda>_. True\<rparr>"

definition demo_parsed :: config where
  "demo_parsed =
     \<lparr>Listen = ''0.0.0.0:8080'', VaultURL = ''http://10.0.0.2:8200'', VaultToken = ''issuer'', VaultTokenFile = '''',
      VaultRole = ''bridge'', AllowedPolicies = [(''app'', ())], TokenTTL = 5 * minute, WrapTTL = minute,
      RenewInterval = 5 * minute, ControlPlaneURL = ''https://control'', AccessKey = ''ak'', SecretKey = ''sk'',
      StatePath = ''/var/lib/pasturestack/vault-secrets-bridge/leases.json'', RequestTimeout = 10 * second,
      MaxRequestBytes = 65536, MaxResponseBytes = 2097152, NonceTTL = 5 * minute, MaxRememberedNonce = 10000\<rparr>"

lemma demo_initial: "initial_settings demo_env = (demo_parsed\<lparr>AllowedPolicies := []\<rparr>, ''app'')"
  by (simp add: initial_settings_def demo_parsed_def demo_env_def demo_settings_def envOr_def durationEnv_def
      DefaultListen_def DefaultStatePath_def DefaultMaxRequestBytes_def DefaultMaxResponse_def
      compatibilityControlPlaneURL_def compatibilityAccessKey_def compatibilityEnvironmentAccessKey_def
      compatibilitySecretKey_def compatibilityEnvironmentSecretKey_def)

lemma demo_policies: "parsePolicyAllowlist ''app'' = Inr [(''app'', ())]"
proof -
  have "trim_space ''app'' = ''app''"
    by (rule trim_space_id) (simp_all add: ascii_space_def)
  then show ?thesis
    using demo_names(3) by (simp add: parsePolicyAllowlist_def gm_set_def gm_del_def Let_def)
qed

lemma demo_private_host: "privateHost (url_hostname ''10.0.0.2:8200'')"
proof -
  have "url_hostname ''10.0.0.2:8200'' = ''10.0.0.2''"
    by code_simp
  moreover have "parse_ip ''10.0.0.2'' = Some (replicate 10 0 @ [255, 255, 10, 0, 0, 2])"
    by (simp add: parse_ip_def parse_ipv4_def ascii_digit_def)
  moreover have "internal_ip (replicate 10 0 @ [255, 255, 10, 0, 0, 2])"
    by code_simp
  ultimately show ?thesis unfolding privateHost_iff by simp
qed

lemma demo_urls:
  "service_url_ok demo_parse_url ''http://10.0.0.2:8200''" "service_url_ok demo_parse_url ''https://control''"
proof -
  have trim: "trim_space ''http://10.0.0.2:8200'' = ''http://10.0.0.2:8200''" "trim_space ''https://control'' = ''https://control''"
    by (rule trim_space_id; simp add: ascii_space_def)+
  show "service_url_ok demo_parse_url ''http://10.0.0.2:8200''"
    using demo_private_host unfolding service_url_ok_def trim by (simp add: demo_parse_url_def)
  show "service_url_ok demo_parse_url ''https://control''"
    unfolding service_url_ok_def trim by (simp add: demo_parse_url_def)
qed

lemma demo_started_path:
  "StatePath demo_parsed = abs_path (state_root @ [''vault-secrets-bridge'', ''leases.json''])"
  "list_all plain_elem [''vault-secrets-bridge'', ''leases.json'']" "\<not> has_suffix (StatePath demo_parsed) ''.tmp''"
  by (simp_all add: demo_parsed_def abs_path_def join_byte_def state_root_def plain_elem_def has_suffix_def)

lemma demo_listen: "split_host_port ''0.0.0.0:8080'' \<noteq> None"
  by code_simp

lemma demo_parsed_valid: "validate_config demo_parse_url demo_parsed = Inr ()"
proof -
  have "validName ''bridge'' 128" "validOpaqueSecret ''issuer'' (64 * 1024)"
    "validOpaqueSecret ''ak'' (4 * 1024)" "validOpaqueSecret ''sk'' (4 * 1024)"
    by (simp_all add: validName_iff validOpaqueSecret_iff name_byte_def name_rune_def secret_byte_def secret_rune_def)
  moreover have "validStatePath (StatePath demo_parsed) = Inr ()"
    unfolding validStatePath_elems using demo_started_path by blast
  moreover have "validLimits demo_parsed"
    by (simp add: validLimits_def demo_parsed_def duration_defs)
  ultimately show ?thesis
    using demo_urls demo_listen unfolding validate_config_iff service_url_iff by (simp add: demo_parsed_def)
qed

lemma demo_parse: "ParseConfig demo_env files demo_parse_url [] = Inr demo_parsed"
proof -
  have "demo_parsed\<lparr>VaultToken := ''issuer'', AllowedPolicies := [(''app'', ())]\<rparr> = demo_parsed"
    "VaultToken demo_parsed = ''issuer''" "VaultTokenFile demo_parsed = ''''"
    by (simp_all add: demo_parsed_def)
  then show ?thesis
    by (simp add: ParseConfig_def demo_initial demo_policies demo_parsed_valid)
qed

theorem config_accepted_witness:
  "service_url_ok demo_parse_url (VaultURL demo_parsed) \<and> token_source_ok (ho_files demo_host) demo_parsed \<and> limits_ok demo_parsed"
  using config_accepted [OF demo_parse] by blast

lemma demo_document_length: "length (json_encode True demo_document) \<le> 2000"
proof -
  have "jv_ascii demo_document" by (simp add: demo_document_def)
  from length_json_encode [OF this] have "length (json_encode True demo_document) \<le> jv_size demo_document" .
  also have "\<dots> \<le> 2000" by (simp add: demo_document_def)
  finally show ?thesis .
qed

lemma demo_document_decodes: "json_document (json_encode True demo_document) = Some demo_document"
  by (rule json_document_encode) (simp_all add: demo_document_def max_nesting_def)

text \<open>Names of ASCII letters that differ in length are no case variants of each other.\<close>

lemma fold_name_ascii: "ascii s \<Longrightarrow> fold_name s = map upper_byte s"
  by (induction s rule: fold_name.induct) (auto simp: has_prefix_iff)

lemma find_field_other:
  "list_all ascii (k # names) \<Longrightarrow> list_all (\<lambda>n. length n \<noteq> length k) names \<Longrightarrow> find_field names k = None"
  by (auto simp: find_field_def find_None_iff fold_name_ascii list_all_iff dest!: map_eq_imp_length_eq)

lemma demo_upstream:
  "0 \<le> v_maxResponseBytes c - 2000 \<Longrightarrow> vault_healthy demo_reply c () = (True, ()) \<and> vault_renew demo_reply c () = (Inr (), ())"
proof -
  assume big: "0 \<le> v_maxResponseBytes c - 2000"
  have reply: "vault_do demo_reply c meth target body wrap () = (Inr (json_encode True demo_document, 200), ())"
    for meth target body wrap
    using big demo_document_length by (subst vault_do_iff) (simp_all add: demo_reply_def)
  have "find_field [''initialized'', ''sealed''] ''data'' = None" by (rule find_field_other) simp_all
  then have "unmarshal health_fields (json_encode True demo_document) \<lparr>h_initialized = False, h_sealed = False\<rparr> =
      Some \<lparr>h_initialized = True, h_sealed = False\<rparr>"
    unfolding unmarshal_def demo_document_decodes
    by (simp add: demo_document_def decode_struct_def health_fields_def set_bool_def)
  moreover have "json_encode True demo_document \<noteq> []" by (simp add: demo_document_def)
  ultimately show ?thesis
    by (simp add: vault_healthy_def vault_renew_def reply del: json_encode.simps)
qed

lemma demo_start:
  "\<exists>r. start_serve demo_host [] () = (Inr r, ()) \<and> ru_config r = demo_parsed\<lparr>VaultToken := []\<rparr> \<and>
     ru_leases r = (\<lparr>s_path = StatePath demo_parsed, s_leases = []\<rparr>, demo_os) \<and>
     f_maxResponseBytes (ru_platform r) = 2097152"
proof -
  have load: "loadStateStore True True (StatePath demo_parsed) demo_os = Inr \<lparr>s_path = StatePath demo_parsed, s_leases = []\<rparr>"
    by (simp add: loadStateStore_def demo_os_def)
  obtain u where u: "validateServiceURL demo_parse_url (VaultURL demo_parsed) = Inr u"
    using demo_urls(1) unfolding service_url_iff [symmetric] by (auto simp: demo_parsed_def)
  obtain p where p: "validateServiceURL demo_parse_url (ControlPlaneURL demo_parsed) = Inr p"
    using demo_urls(2) unfolding service_url_iff [symmetric] by (auto simp: demo_parsed_def)
  have "0 \<le> v_maxResponseBytes (newVaultClient demo_parsed (base_url u)) - 2000"
    by (simp add: newVaultClient_def demo_parsed_def)
  from demo_upstream [OF this] show ?thesis
    by (simp add: start_serve_def demo_host_def demo_parse load openVaultClient_def openPlatformClient_def u p)
      (simp add: newPlatformClient_def demo_parsed_def)
qed

theorem upstreams_confined_witness:
  "\<exists>r. start_serve demo_host [] () = (Inr r, ()) \<and> confined (u_scheme (v_baseURL (ru_vault r))) (snd (ru_http r))"
  using demo_start upstreams_confined by metis

end
