(* ===== verification/Concurrent.thy ===== *)
theory Concurrent
  imports Bridge
begin

text \<open>
  Requests in flight together (\<^verbatim>\<open>internal/broker/server.go\<close>). \<^verbatim>\<open>net/http\<close> serves every request in
  its own goroutine; what they share is behind mutexes. A request therefore goes through the
  points at which it touches shared state: reading and validating at one clock reading, the lookup
  of the host's key, the second clock reading, the nonce cache (under its mutex), and the work under
  \<^verbatim>\<open>operationMu\<close>. Between two of them any other request or the renewal loop may run.
\<close>

section \<open>One request\<close>

datatype lease_op = IssueOp issueRequest | RevokeOp revokeRequest

fun op_host :: "lease_op \<Rightarrow> bytes" where
  "op_host (IssueOp q) = i_hostUUID q"
| "op_host (RevokeOp q) = r_hostUUID q"

fun op_nonce :: "lease_op \<Rightarrow> bytes" where
  "op_nonce (IssueOp q) = i_nonce q"
| "op_nonce (RevokeOp q) = r_nonce q"

datatype flight = Waiting inbound | Checked inbound lease_op | Verified lease_op rsa_key
  | Timed lease_op rsa_key nanos | Admitted lease_op rsa_key | Finished outbound

definition check_request ::
  "(bytes \<Rightarrow> 'q option) \<Rightarrow> ('q \<Rightarrow> config \<Rightarrow> nanos \<Rightarrow> unit result) \<Rightarrow> ('q \<Rightarrow> lease_op) \<Rightarrow>
     'w deps \<Rightarrow> inbound \<Rightarrow> 'w server \<Rightarrow> flight \<times> 'w server" where
  "check_request dec val mk d req s =
     (case validRequestEnvelope d req of
        Some status \<Rightarrow> (Finished (writeError status), s)
      | None \<Rightarrow>
          (case readRequest (d_config d) req of
             None \<Rightarrow> (Finished (writeError 400), s)
           | Some body \<Rightarrow>
               (case dec body of
                  None \<Rightarrow> (Finished (writeError 400), s)
                | Some input \<Rightarrow>
                    (let (now, s1) = read_clock s
                     in if \<not> is_ok (val input (d_config d) now) then (Finished (writeError 400), s1)
                        else (Checked req (mk input), s1)))))"

text \<open>The step a request can take next; \<open>None\<close> when it has been answered.\<close>

fun flight_step :: "'w deps \<Rightarrow> flight \<Rightarrow> 'w server \<Rightarrow> (flight \<times> 'w server) option" where
  "flight_step d (Waiting req) s = Some
     (if h_path req = ''/v1/leases'' then check_request decode_issue validate_issue IssueOp d req s
      else if h_path req = ''/v1/leases/revoke'' then check_request decode_revoke validate_revoke RevokeOp d req s
      else (let (resp, s1) = ServeHTTP d req s in (Finished resp, s1)))"
| "flight_step d (Checked req op) s = Some
     (case call_host d (op_host op) s of
        (Inl _, s1) \<Rightarrow> (Finished (writeError 401), s1)
      | (Inr key, s1) \<Rightarrow> (if signed_by d req (h_data req) key then Verified op key else Finished (writeError 401), s1))"
| "flight_step d (Verified op key) s = Some (let (now, s1) = read_clock s in (Timed op key now, s1))"
| "flight_step d (Timed op key now) s = Some
     (let (fresh_nonce, cache) = use_nonce (st_nonces s) (op_host op) (op_nonce op) now
      in (if fresh_nonce then Admitted op key else Finished (writeError 401), s\<lparr>st_nonces := cache\<rparr>))"
| "flight_step d (Admitted (IssueOp q) key) s = Some
     (let (resp, s1) = issue_locked d key q s in (Finished resp, s1))"
| "flight_step d (Admitted (RevokeOp q) key) s = Some
     (let (resp, s1) = revoke_locked d q s in (Finished resp, s1))"
| "flight_step d (Finished resp) s = None"

fun fly :: "'w deps \<Rightarrow> nat \<Rightarrow> flight \<Rightarrow> 'w server \<Rightarrow> flight \<times> 'w server" where
  "fly d 0 f s = (f, s)"
| "fly d (Suc n) f s = (case flight_step d f s of None \<Rightarrow> (f, s) | Some (f', s') \<Rightarrow> fly d n f' s')"

lemma fly_finished [simp]: "fly d n (Finished resp) s = (Finished resp, s)"
  by (cases n) simp_all

text \<open>A request alone takes five steps and is then answered as its handler answers it.\<close>

lemma check_admit:
  assumes "\<And>q. op_host (mk q) = host q" "\<And>q. op_nonce (mk q) = nonce q"
  shows "(case check_request dec val mk d req s of (f, s1) \<Rightarrow> fly d (Suc (Suc (Suc n))) f s1) =
     (case admit dec val host nonce d req s of
        (Inl resp, s1) \<Rightarrow> (Finished resp, s1)
      | (Inr (q, key), s1) \<Rightarrow> fly d n (Admitted (mk q) key) s1)"
proof -
  have "fly d (Suc (Suc (Suc n))) (Checked req (mk q)) s1 =
      (case verifyHostRequest d req (h_data req) (host q) (nonce q) s1 of
         (None, s2) \<Rightarrow> (Finished (writeError 401), s2)
       | (Some key, s2) \<Rightarrow> fly d n (Admitted (mk q) key) s2)" for q s1
    by (auto simp: verifyHostRequest_def signed_by_def Let_def assms read_clock_def
        split: prod.splits sum.splits option.splits)
  then show ?thesis
    by (auto simp: check_request_def admit_def Let_def dest!: readRequest_data split: prod.splits option.splits)
qed

lemma fly_serves:
  "fly d 5 (Waiting req) s = (case ServeHTTP d req s of (resp, s') \<Rightarrow> (Finished resp, s'))"
proof -
  have five: "(5 :: nat) = Suc (Suc (Suc (Suc (Suc 0))))" by simp
  have issue: "(case check_request decode_issue validate_issue IssueOp d req s of (f, s1) \<Rightarrow> fly d (Suc (Suc (Suc (Suc 0)))) f s1)
      = (case handleIssue d req s of (resp, s') \<Rightarrow> (Finished resp, s'))"
    by (subst check_admit [where host = i_hostUUID and nonce = i_nonce])
      (auto simp: handleIssue_admit split: prod.splits sum.splits)
  have revoke: "(case check_request decode_revoke validate_revoke RevokeOp d req s of (f, s1) \<Rightarrow> fly d (Suc (Suc (Suc (Suc 0)))) f s1)
      = (case handleRevoke d req s of (resp, s') \<Rightarrow> (Finished resp, s'))"
    by (subst check_admit [where host = r_hostUUID and nonce = r_nonce])
      (auto simp: handleRevoke_admit split: prod.splits sum.splits)
  show ?thesis
    unfolding five using issue revoke
    by (simp only: fly.simps(2) flight_step.simps option.case) (auto simp: ServeHTTP_def split: prod.splits)
qed

text \<open>
  C18: the steps a request takes are its handler. Run without another request between them, five
  steps answer every request, with the response \<^verbatim>\<open>ServeHTTP\<close> gives and in the state it leaves.
\<close>

theorem flight_alone:
  "fly d 5 (Waiting req) s = (case ServeHTTP d req s of (resp, s') \<Rightarrow> (Finished resp, s'))"
  by (rule fly_serves)

subsection \<open>The steps one by one\<close>

fun op_valid :: "config \<Rightarrow> bytes \<Rightarrow> nanos \<Rightarrow> lease_op \<Rightarrow> bool" where
  "op_valid config body t (IssueOp q) = (decode_issue body = Some q \<and> validate_issue q config t = Inr ())"
| "op_valid config body t (RevokeOp q) = (decode_revoke body = Some q \<and> validate_revoke q config t = Inr ())"

definition ticked :: "'w server \<Rightarrow> 'w server" where
  "ticked s = s\<lparr>st_ticks := Suc (st_ticks s)\<rparr>"

lemma ticked_simps [simp]:
  "st_clock (ticked s) = st_clock s" "st_ticks (ticked s) = Suc (st_ticks s)" "st_nonces (ticked s) = st_nonces s"
  "st_leases (ticked s) = st_leases s" "st_log (ticked s) = st_log s"
  by (simp_all add: ticked_def)

lemma check_request_cases:
  assumes "check_request dec val mk d req s = (f, s')"
  shows "s' \<in> {s, ticked s} \<and> (\<exists>r. f = Finished r) \<or>
     s' = ticked s \<and> well_formed d req \<and>
     (\<exists>q. f = Checked req (mk q) \<and> dec (h_data req) = Some q \<and> val q (d_config d) (st_clock s (st_ticks s)) = Inr ())"
proof -
  have val: "is_ok r \<longleftrightarrow> r = Inr ()" for r :: "unit result" by (cases r) auto
  show ?thesis
    using assms readRequest_data [of "d_config d" req]
    by (fastforce simp: check_request_def well_formed_iff read_clock_def val ticked_def Let_def
        split: option.splits if_splits)
qed

text \<open>What each step does, by the point the request has reached.\<close>

lemma flight_stepE:
  assumes "flight_step d f s = Some (f', s')"
  obtains
    (rejected) req r where "f = Waiting req" "f' = Finished r" "s' \<in> {s, ticked s}"
  | (checked) req op where "f = Waiting req" "f' = Checked req op" "s' = ticked s"
      "well_formed d req" "op_valid (d_config d) (h_data req) (st_clock s (st_ticks s)) op"
  | (other) req r where "f = Waiting req" "f' = Finished r" "ServeHTTP d req s = (r, s')"
      "h_path req \<noteq> ''/v1/leases''" "h_path req \<noteq> ''/v1/leases/revoke''"
  | (looked_up) req op r where "f = Checked req op" "call_host d (op_host op) s = (r, s')"
      "(\<exists>resp. f' = Finished resp) \<or> (\<exists>key. f' = Verified op key \<and> r = Inr key \<and> signed_by d req (h_data req) key)"
  | (timed) op key where "f = Verified op key" "f' = Timed op key (st_clock s (st_ticks s))" "s' = ticked s"
  | (spent) op key t ok cache where "f = Timed op key t" "use_nonce (st_nonces s) (op_host op) (op_nonce op) t = (ok, cache)"
      "f' = (if ok then Admitted op key else Finished (writeError 401))" "s' = s\<lparr>st_nonces := cache\<rparr>"
  | (issued) q key r where "f = Admitted (IssueOp q) key" "f' = Finished r" "issue_locked d key q s = (r, s')"
  | (revoked) q key r where "f = Admitted (RevokeOp q) key" "f' = Finished r" "revoke_locked d q s = (r, s')"
  using assms
proof (cases "(d, f, s)" rule: flight_step.cases)
  case (1 d' req s'')
  show ?thesis
  proof (cases "h_path req \<in> {''/v1/leases'', ''/v1/leases/revoke''}")
    case True
    then have "check_request decode_issue validate_issue IssueOp d req s = (f', s') \<or>
        check_request decode_revoke validate_revoke RevokeOp d req s = (f', s')"
      using assms 1 by (auto split: if_splits)
    then show ?thesis
      using 1 rejected checked by (elim disjE; force dest!: check_request_cases)
  next
    case False
    then show ?thesis using assms 1 other by (auto simp: Let_def split: prod.splits)
  qed
next
  case (2 d' req op s'')
  obtain r s1 where c: "call_host d (op_host op) s = (r, s1)" by (cases "call_host d (op_host op) s")
  then have "s1 = s'" "(\<exists>resp. f' = Finished resp) \<or> (\<exists>key. f' = Verified op key \<and> r = Inr key \<and> signed_by d req (h_data req) key)"
    using assms 2 by (auto simp del: call_simps split: sum.splits if_splits)
  then show ?thesis using 2 c looked_up by simp
next
  case (3 d' op key s'')
  then show ?thesis using assms timed by (simp add: read_clock_def ticked_def)
next
  case (4 d' op key t s'')
  then show ?thesis using assms spent by (auto simp: Let_def split: prod.splits)
next
  case (5 d' q key s'')
  then show ?thesis using assms issued by (auto simp: Let_def split: prod.splits)
next
  case (6 d' q key s'')
  then show ?thesis using assms revoked by (auto simp: Let_def split: prod.splits)
qed simp

section \<open>Requests together\<close>

text \<open>
  A use of the nonce cache, with the clock reading it is made at and its answer. A step of the
  service advances one request, lets one more arrive, or renews the issuer token; the label lists
  the uses it makes.
\<close>

type_synonym nonce_use = "bytes \<times> bytes \<times> nanos \<times> bool"

definition uses_of :: "flight \<Rightarrow> 'w server \<Rightarrow> nonce_use list" where
  "uses_of f s =
     (case f of
        Timed op key now \<Rightarrow>
          [(op_host op, op_nonce op, now, fst (use_nonce (st_nonces s) (op_host op) (op_nonce op) now))]
      | _ \<Rightarrow> [])"

type_synonym 'w service = "flight list \<times> 'w server"

inductive conc_step :: "'w deps \<Rightarrow> 'w service \<Rightarrow> nonce_use list \<Rightarrow> 'w service \<Rightarrow> bool" for d where
  advance: "i < length fs \<Longrightarrow> flight_step d (fs ! i) s = Some (f', s') \<Longrightarrow>
    conc_step d (fs, s) (uses_of (fs ! i) s) (fs[i := f'], s')"
| arrive: "conc_step d (fs, s) [] (fs @ [Waiting req], s)"
| renewal: "conc_step d (fs, s) [] (fs, renewal_tick d s)"

inductive_cases conc_stepE: "conc_step d c us c'"

inductive conc_run :: "'w deps \<Rightarrow> 'w service \<Rightarrow> nonce_use list \<Rightarrow> 'w service \<Rightarrow> bool" for d where
  idle: "conc_run d c [] c"
| more: "conc_run d c us c' \<Longrightarrow> conc_step d c' vs c'' \<Longrightarrow> conc_run d c (us @ vs) c''"

lemma conc_run_append: "conc_run d c2 vs c3 \<Longrightarrow> conc_run d c1 us c2 \<Longrightarrow> conc_run d c1 (us @ vs) c3"
  by (induction rule: conc_run.induct) (auto intro: more simp flip: append_assoc)

text \<open>A request that is served without others is a run of the service.\<close>

lemma fly_run: "fly d n f s = (f', s') \<Longrightarrow> \<exists>us. conc_run d ([f], s) us ([f'], s')"
proof (induction n arbitrary: f s)
  case (Suc n)
  show ?case
  proof (cases "flight_step d f s")
    case None
    then show ?thesis using Suc.prems idle by auto
  next
    case (Some fs1)
    then obtain f1 s1 where step: "flight_step d f s = Some (f1, s1)" by (cases fs1) auto
    obtain us where "conc_run d ([f1], s1) us ([f'], s')"
      using Suc.IH [of f1 s1] Suc.prems step by auto
    moreover have "conc_run d ([f], s) ([] @ uses_of f s) ([f1], s1)"
      using more [OF idle advance [of 0 "[f]" d s f1 s1]] step by simp
    ultimately show ?thesis using conc_run_append by blast
  qed
qed (auto intro: idle)

subsection \<open>The nonce cache\<close>

definition plain_use :: "nonce_use \<Rightarrow> bytes \<times> bytes \<times> nanos" where
  "plain_use u = (case u of (h, n, t, ok) \<Rightarrow> (h, n, t))"

text \<open>Every reading a request holds, and every use so far, is a past reading of the clock.\<close>

definition past :: "'w server \<Rightarrow> nanos \<Rightarrow> bool" where
  "past s t = (\<exists>i < st_ticks s. t = st_clock s i)"

definition timed_past :: "'w service \<Rightarrow> bool" where
  "timed_past c = (\<forall>op key t. Timed op key t \<in> set (fst c) \<longrightarrow> past (snd c) t)"

definition later :: "'w server \<Rightarrow> 'w server \<Rightarrow> bool" where
  "later s s' = (st_clock s' = st_clock s \<and> st_ticks s \<le> st_ticks s')"

lemma later_past: "later s s' \<Longrightarrow> past s t \<Longrightarrow> past s' t"
  unfolding later_def past_def by (metis less_le_trans)

lemma later_trans: "later s s' \<Longrightarrow> later s' s'' \<Longrightarrow> later s s''"
  by (auto simp: later_def)

lemma later_elapsed: "elapsed s s' \<Longrightarrow> later s s'"
  by (simp add: elapsed_def later_def)

lemma same_clock_later: "same_clock s s' \<Longrightarrow> later s s' \<and> st_nonces s' = st_nonces s"
  by (simp add: same_clock_def later_def)

lemma ServeHTTP_other:
  assumes "h_path req \<noteq> ''/v1/leases''" "h_path req \<noteq> ''/v1/leases/revoke''"
  shows "same_clock s (snd (ServeHTTP d req s))"
  using assms ready_clock [of s d req] by (simp add: ServeHTTP_def)

text \<open>What one step does to the clock, the cache and the readings held.\<close>

lemma flight_step_clock:
  assumes "flight_step d f s = Some (f', s')"
  shows "later s s'"
    and "st_nonces s' = use_all use_nonce (st_nonces s) (map plain_use (uses_of f s))"
    and "f' = Timed op key t \<Longrightarrow> past s' t"
proof -
  have "later s s' \<and> st_nonces s' = use_all use_nonce (st_nonces s) (map plain_use (uses_of f s)) \<and>
      (f' = Timed op key t \<longrightarrow> past s' t)"
    using assms
  proof (cases rule: flight_stepE)
    case (other req r)
    then show ?thesis
      using same_clock_later [OF ServeHTTP_other [of req s d]] by (simp add: uses_of_def)
  next
    case (looked_up req op' r)
    then show ?thesis by (auto simp: uses_of_def later_def)
  next
    case (issued q key' r)
    then show ?thesis
      using same_clock_later [OF issue_locked_clock [of s d key' q]] by (simp add: uses_of_def)
  next
    case (revoked q key' r)
    then show ?thesis
      using same_clock_later [OF revoke_locked_clock [of s d q]] by (simp add: uses_of_def)
  qed (auto simp: uses_of_def later_def past_def plain_use_def split: if_splits)
  then show "later s s'" "st_nonces s' = use_all use_nonce (st_nonces s) (map plain_use (uses_of f s))"
    "f' = Timed op key t \<Longrightarrow> past s' t" by blast+
qed

text \<open>The answers recorded in the labels are those of the cache.\<close>

fun answered :: "nonce_cache \<Rightarrow> nonce_use list \<Rightarrow> bool" where
  "answered cache [] = True"
| "answered cache ((h, n, t, ok) # us) =
     (ok = fst (use_nonce cache h n t) \<and> answered (snd (use_nonce cache h n t)) us)"

lemma answered_append:
  "answered cache (us @ vs) \<longleftrightarrow> answered cache us \<and> answered (use_all use_nonce cache (map plain_use us)) vs"
  by (induction cache us rule: answered.induct) (auto simp: plain_use_def)

definition faithful :: "'w service \<Rightarrow> nonce_use list \<Rightarrow> 'w service \<Rightarrow> bool" where
  "faithful c us c' \<longleftrightarrow>
     later (snd c) (snd c') \<and> timed_past c' \<and>
     st_nonces (snd c') = use_all use_nonce (st_nonces (snd c)) (map plain_use us) \<and>
     answered (st_nonces (snd c)) us \<and> (\<forall>(h, n, t, ok) \<in> set us. past (snd c') t)"

lemma conc_step_faithful:
  assumes "conc_step d c us c'" and held: "timed_past c"
  shows "faithful c us c'"
  using assms(1)
proof cases
  case (advance i fs s f' s')
  note clock = flight_step_clock [OF advance(5)]
  have "past s' t" if "Timed op key t \<in> set (fs[i := f'])" for op key t
  proof -
    have "Timed op key t = f' \<or> Timed op key t \<in> set fs"
      using that set_update_subset_insert by fastforce
    then show ?thesis
      using clock(1,3) held advance(1) by (auto simp: timed_past_def intro: later_past)
  qed
  moreover have "past s' t" if u: "(h, n, t, ok) \<in> set us" for h n t ok
  proof -
    obtain op key where "fs ! i = Timed op key t"
      using u advance(2) by (cases "fs ! i") (auto simp: uses_of_def)
    then have "Timed op key t \<in> set fs" using advance(4) by (metis nth_mem)
    then show ?thesis using held advance(1) clock(1) by (auto simp: timed_past_def intro: later_past)
  qed
  moreover have "answered (st_nonces s) (uses_of (fs ! i) s)"
    by (auto simp: uses_of_def split: flight.splits)
  ultimately show ?thesis
    using advance clock(1,2) by (auto simp: faithful_def timed_past_def)
next
  case (arrive fs s req)
  then show ?thesis using held by (auto simp: faithful_def timed_past_def later_def)
next
  case (renewal fs s)
  have "later s (renewal_tick d s)" "st_nonces (renewal_tick d s) = st_nonces s"
    using same_clock_later [OF tick_clock] by blast+
  then show ?thesis
    using renewal held by (auto simp: faithful_def timed_past_def intro: later_past)
qed

lemma conc_run_faithful: "conc_run d c us c' \<Longrightarrow> timed_past c \<Longrightarrow> faithful c us c'"
proof (induction rule: conc_run.induct)
  case (idle c)
  then show ?case by (simp add: faithful_def later_def)
next
  case (more c us c' vs c'')
  then have first: "faithful c us c'" by blast
  then have second: "faithful c' vs c''"
    using more.hyps(2) by (intro conc_step_faithful) (simp_all add: faithful_def)
  have "past (snd c'') t" if "(h, n, t, ok) \<in> set us" for h n t ok
    using that first second by (auto simp: faithful_def intro: later_past)
  with first second show ?case
    by (auto simp: faithful_def use_all_append answered_append intro: later_trans)
qed

section \<open>The server's invariant\<close>

context bridge
begin

lemma flight_step_inv:
  assumes step: "flight_step d f s = Some (f', s')" and inv: "server_inv s \<and> accounted es0 lost s"
  shows "server_inv s' \<and> accounted es0 lost s'"
proof -
  have n: "nonce_inv (st_nonces s')"
    using flight_step_clock(2) [OF step] inv nonces.uses_inv by (simp add: server_inv_def)
  have quiet: "server_inv s' \<and> accounted es0 lost s'"
    if "st_leases s' = st_leases s" "st_log s' = st_log s @ es" "list_all silent es" for es
    using that n inv accounted_silent [of es0 lost s s' es] by (simp add: server_inv_def)
  from step show ?thesis
  proof (cases rule: flight_stepE)
    case (other req r)
    then show ?thesis using step_inv [OF serve] inv by blast
  next
    case (looked_up req op r)
    then show ?thesis by (intro quiet [of "[HostKey (op_host op) r]"]) auto
  next
    case (issued q key r)
    then show ?thesis
      using issue_locked_effect(1) [OF refl] issue_locked_accounted [OF refl] n inv by (auto simp: server_inv_def)
  next
    case (revoked q key r)
    then show ?thesis
      using revoke_locked_effect(1) revoke_locked_accounted n inv by (auto simp: server_inv_def)
  qed (use quiet [of "[]"] in auto)
qed

lemma conc_step_inv:
  "conc_step d c us c' \<Longrightarrow> server_inv (snd c) \<and> accounted es0 lost (snd c) \<Longrightarrow>
     server_inv (snd c') \<and> accounted es0 lost (snd c')"
proof (induction rule: conc_step.induct)
  case (advance i fs s f' s')
  then show ?case using flight_step_inv [OF advance(2), of es0 lost] by simp
next
  case (renewal fs s)
  then show ?case using tick_effect [of s es0 lost] by simp
qed simp

lemma conc_run_inv:
  "conc_run d c us c' \<Longrightarrow> server_inv (snd c) \<and> accounted es0 lost (snd c) \<Longrightarrow>
     server_inv (snd c') \<and> accounted es0 lost (snd c')"
proof (induction rule: conc_run.induct)
  case (more c us c' vs c'')
  from conc_step_inv [OF more.hyps(2) more.IH [OF more.prems]] show ?case .
qed

end

end
