(* ===== verification/Crash.thy ===== *)
theory Crash
  imports Concurrent
begin

text \<open>
  What a crash leaves (\<^verbatim>\<open>internal/broker/server.go\<close>, \<^verbatim>\<open>state.go\<close>): the moments of one step at which
  the process may die, each with the events that have happened and the file system as it then is,
  what the next start recovers from it, and the custody of the tokens at every moment.
\<close>

section \<open>The moments of a step\<close>

text \<open>
  Only the calls of the lease store touch the file system: the states it goes through lie between
  the event before such a call and the call's own event.
\<close>

type_synonym disk = "(bytes, node) gomap"

fun store_call :: "event \<Rightarrow> bool" where
  "store_call (SetLease k a r) = True"
| "store_call (RemoveLease k r) = True"
| "store_call e = False"

fun moments :: "event list \<Rightarrow> event list \<Rightarrow> disk \<Rightarrow> disk list \<Rightarrow> disk \<Rightarrow> (event list \<times> disk) list" where
  "moments past_es [] ns js ns' = [(past_es, ns)]"
| "moments past_es (e # es) ns js ns' =
     (past_es, ns) #
     (if store_call e then map (Pair past_es) js @ moments (past_es @ [e]) es ns' [] ns'
      else moments (past_es @ [e]) es ns js ns')"

text \<open>The states that the file system went through between two states of the store.\<close>

definition written :: "lease_state \<Rightarrow> lease_state \<Rightarrow> disk list" where
  "written l l' = drop (length (journal (snd l))) (journal (snd l'))"

definition crash_moments :: "'w server \<Rightarrow> 'w server \<Rightarrow> (event list \<times> disk) list" where
  "crash_moments s s' =
     moments (st_log s) (drop (length (st_log s)) (st_log s')) (nodes (snd (st_leases s)))
       (written (st_leases s) (st_leases s')) (nodes (snd (st_leases s')))"

lemma silent_no_call: "silent e \<Longrightarrow> \<not> store_call e"
  by (cases e) simp_all

lemma moments_quiet:
  assumes "list_all (\<lambda>e. \<not> store_call e) es" and "(fs, x) \<in> set (moments past_es es ns js ns')"
  shows "x = ns \<and> (\<exists>gs. prefix gs es \<and> fs = past_es @ gs)"
  using assms
proof (induction es arbitrary: past_es)
  case (Cons e es)
  show ?case
  proof (cases "fs = past_es \<and> x = ns")
    case False
    then have "(fs, x) \<in> set (moments (past_es @ [e]) es ns js ns')" using Cons.prems by auto
    then obtain gs where "x = ns" "prefix gs es" "fs = (past_es @ [e]) @ gs"
      using Cons.IH [of "past_es @ [e]"] Cons.prems(1) by auto
    then show ?thesis by (auto intro: exI [of _ "e # gs"])
  qed auto
qed simp

text \<open>A step with one call of the store: before it, in it, and after it.\<close>

lemma moments_call:
  assumes "list_all (\<lambda>e. \<not> store_call e) es" and "store_call e" and "list_all (\<lambda>e. \<not> store_call e) es'"
    and "(fs, x) \<in> set (moments past_es (es @ e # es') ns js ns')"
  obtains (before) gs where "x = ns" "prefix gs es" "fs = past_es @ gs"
  | (within) "x \<in> set js" "fs = past_es @ es"
  | (after) gs where "x = ns'" "prefix gs es'" "fs = past_es @ es @ e # gs"
proof -
  have "x = ns \<and> (\<exists>gs. prefix gs es \<and> fs = past_es @ gs) \<or> x \<in> set js \<and> fs = past_es @ es \<or>
      x = ns' \<and> (\<exists>gs. prefix gs es' \<and> fs = past_es @ es @ e # gs)"
    using assms(1,4)
  proof (induction es arbitrary: past_es)
    case Nil
    then have "(fs, x) = (past_es, ns) \<or> fs = past_es \<and> x \<in> set js \<or>
        (fs, x) \<in> set (moments (past_es @ [e]) es' ns' [] ns')"
      using assms(2) by auto
    then show ?case using moments_quiet [OF assms(3), of fs x "past_es @ [e]"] by auto
  next
    case (Cons c es)
    then have "(fs, x) = (past_es, ns) \<or> (fs, x) \<in> set (moments (past_es @ [c]) (es @ e # es') ns js ns')"
      by auto
    then show ?case
    proof
      assume "(fs, x) \<in> set (moments (past_es @ [c]) (es @ e # es') ns js ns')"
      from Cons.IH [OF _ this] Cons.prems(1)
      have "x = ns \<and> (\<exists>gs. prefix gs es \<and> fs = (past_es @ [c]) @ gs) \<or> x \<in> set js \<and> fs = (past_es @ [c]) @ es \<or>
          x = ns' \<and> (\<exists>gs. prefix gs es' \<and> fs = (past_es @ [c]) @ es @ e # gs)"
        by simp
      then show ?thesis by (auto intro: exI [of _ "c # gs" for gs])
    qed auto
  qed
  then show thesis using that by blast
qed

section \<open>What a start recovers\<close>

text \<open>The next start finds a file system that works; the script of an older one is of no account.\<close>

definition at_rest :: "disk \<Rightarrow> os" where
  "at_rest ns = \<lparr>nodes = ns, journal = [], calls = 0,
     script = \<lambda>_. \<lparr>mkdir_fault = None, chdir_ok = True, temp_tries = [''0''], chmod_ok = True, write_fault = None,
       sync_ok = True, close_ok = True, rename_ok = True, remove_ok = True\<rparr>\<rparr>"

definition recovered :: "bytes \<Rightarrow> disk \<Rightarrow> (bytes \<Rightarrow> bytes option) option" where
  "recovered p ns =
     (case reload p (at_rest ns) of Inl _ \<Rightarrow> None | Inr store \<Rightarrow> Some (gm_get (s_leases store)))"

lemma recovered_cong: "gm_get ns p = gm_get ns' p \<Longrightarrow> recovered p ns = recovered p ns'"
  using reload_cong [of "at_rest ns" p "at_rest ns'"] by (simp add: recovered_def at_rest_def)

lemma recovered_restarted: "recovered (s_path (fst l)) (nodes (snd l)) = restarted l"
  using reload_cong [of "at_rest (nodes (snd l))" "s_path (fst l)" "snd l"]
  by (simp add: recovered_def restarted_def at_rest_def)

lemma recovered_held:
  "lease_state_inv l \<Longrightarrow> recovered (s_path (fst l)) (nodes (snd l)) = Some m \<Longrightarrow> m = held l"
  unfolding recovered_restarted by (auto simp: lease_state_inv_def)

lemma recovered_persisted:
  assumes "gm_inv m" and "list_all lease_wf m" and "gm_get ns p = Some (Regular 384 (encode_leases m) b)"
    and "recovered p ns = Some f"
  shows "f = gm_get m"
proof -
  have disk: "gm_get (nodes (at_rest ns)) p = Some (Regular 384 (encode_leases m) b)"
    using assms(3) by (simp add: at_rest_def)
  show ?thesis
  proof (cases "length (encode_leases m) \<le> 4194304")
    case True
    from load_persisted [OF assms(1,2) this disk] show ?thesis
      using assms(4) by (auto simp: recovered_def)
  next
    case False
    then have "recovered p ns = None"
      using disk by (simp add: recovered_def reload_def loadStateStore_def)
    then show ?thesis using assms(4) by simp
  qed
qed

lemma persist_recovers:
  assumes "lease_state_inv (store, s)" and "persistLocked (s_path store) m s = (r, s')"
    and "gm_inv m" and "list_all lease_wf m"
    and "ns \<in> set (written (store, s) (store', s'))" and "recovered (s_path store) ns = Some f"
  shows "f = held (store, s) \<or> f = gm_get m"
proof -
  have "state_file (s_path store)"
    using assms(1) by (simp add: lease_state_inv_def store_inv_def)
  from persistLocked_effect(1) [OF assms(2) this]
  have "gm_get ns (s_path store) = gm_get (nodes s) (s_path store) \<or>
      gm_get ns (s_path store) = Some (Regular 384 (encode_leases m) True)"
    using assms(5) by (auto simp: evolves_def written_def)
  then show ?thesis
    using recovered_cong [of ns "s_path store" "nodes s"] recovered_held [OF assms(1)] assms(6)
      recovered_persisted [OF assms(3,4)] by auto
qed

lemma put_lease_recovers:
  assumes inv: "lease_state_inv l" and "lease_key_ok k" and "valid_utf8 a" and run: "put_lease k a l = (r, l')"
    and "ns \<in> set (written l l')" and "recovered (s_path (fst l)) ns = Some m"
  shows "m = held l \<or> m = (held l)(k \<mapsto> a)"
proof (cases "validOpaqueSecret a 4096")
  case False
  then have "l' = l" using run by (simp add: put_lease_def store_set_def)
  then show ?thesis using assms(5) by (simp add: written_def)
next
  case True
  obtain store s where l: "l = (store, s)" by (cases l)
  let ?m = "gm_set k a (s_leases store)"
  obtain r' s' where p: "persistLocked (s_path store) ?m s = (r', s')"
    by (cases "persistLocked (s_path store) ?m s")
  then have "snd l' = s'"
    using run True by (auto simp: put_lease_def store_set_def l Let_def split: sum.splits option.splits)
  moreover have "list_all lease_wf ?m" "gm_inv ?m"
    using inv True assms(2,3)
    by (auto simp: l lease_state_inv_def store_inv_def lease_wf_def lease_entry_ok_def lease_key_ok_def
        intro: list_all_gm_set)
  ultimately have "m = held l \<or> m = gm_get ?m"
    using persist_recovers [of store s ?m r' s' ns "fst l'" m] inv p assms(5,6) by (simp add: l written_def)
  then show ?thesis by (auto simp: held_def l fun_eq_iff)
qed

lemma drop_lease_recovers:
  assumes inv: "lease_state_inv l" and run: "drop_lease k l = (r, l')"
    and "ns \<in> set (written l l')" and "recovered (s_path (fst l)) ns = Some m"
  shows "m = held l \<or> m = (held l)(k := None)"
proof -
  obtain store s where l: "l = (store, s)" by (cases l)
  show ?thesis
  proof (cases "gm_get (s_leases store) k")
    case None
    then have "l' = l" using run by (simp add: drop_lease_def store_remove_def l)
    then show ?thesis using assms(3) by (simp add: written_def)
  next
    case (Some v)
    let ?m = "gm_del k (s_leases store)"
    obtain r' s' where p: "persistLocked (s_path store) ?m s = (r', s')"
      by (cases "persistLocked (s_path store) ?m s")
    then have "snd l' = s'"
      using run Some by (auto simp: drop_lease_def store_remove_def l Let_def split: sum.splits)
    moreover have "list_all lease_wf ?m" "gm_inv ?m"
      using inv by (auto simp: l lease_state_inv_def store_inv_def intro: list_all_gm_del)
    ultimately have "m = held l \<or> m = gm_get ?m"
      using persist_recovers [of store s ?m r' s' ns "fst l'" m] inv p assms(3,4) by (simp add: l written_def)
    then show ?thesis by (auto simp: held_def l fun_eq_iff)
  qed
qed

section \<open>The custody at every moment\<close>

text \<open>
  Whatever the next start recovers, every token is in custody, save at most the one that Vault had
  just issued: its accessor may be lost, and the token, not yet delivered, with it.
\<close>

definition safe_moment :: "event list \<Rightarrow> bytes set \<Rightarrow> bytes \<Rightarrow> event list \<times> disk \<Rightarrow> bool" where
  "safe_moment es0 lost p x \<longleftrightarrow>
     (\<forall>m. recovered p (snd x) = Some m \<longrightarrow> (\<exists>a. custody (es0 @ fst x) (insert a lost) (ran m)))"

text \<open>Events that keep the custody from the accessors \<open>kept\<close> to \<open>kept'\<close>, but for the accessor \<open>a\<close>.\<close>

definition keeps :: "bytes set \<Rightarrow> event list \<Rightarrow> bytes \<Rightarrow> bytes set \<Rightarrow> bool" where
  "keeps kept fs a kept' \<longleftrightarrow>
     (\<forall>out und. out \<subseteq> kept \<union> und \<longrightarrow> foldl outstanding_step out fs \<subseteq> kept' \<union> foldl undelivered_step und fs) \<and>
     (\<forall>und. foldl undelivered_step und fs \<subseteq> und \<union> given_up fs \<union> {a})"

lemma safe_momentI:
  assumes "accounted es0 lost s"
    and "\<And>m. recovered p ns = Some m \<Longrightarrow> \<exists>a. keeps (ran (leases_of s)) fs a (ran m)"
  shows "safe_moment es0 lost p (st_log s @ fs, ns)"
  unfolding safe_moment_def fst_conv snd_conv
proof (intro allI impI)
  fix m assume "recovered p ns = Some m"
  then obtain a where a: "keeps (ran (leases_of s)) fs a (ran m)"
    using assms(2) by blast
  have "custody ((es0 @ st_log s) @ fs) (lost \<union> {a}) (ran m)"
    using assms(1) a unfolding accounted_def keeps_def by (intro custody_extend [of _ _ "ran (leases_of s)"]) blast+
  then show "\<exists>a. custody (es0 @ st_log s @ fs) (insert a lost) (ran m)" by auto
qed

lemma silent_keeps: "list_all silent es \<Longrightarrow> prefix fs es \<Longrightarrow> \<exists>a. keeps kept fs a kept"
  by (auto simp: keeps_def prefix_def silent_folds)

lemma log_prefix_simps [simp]:
  "prefix gs [e] \<longleftrightarrow> gs = [] \<or> gs = [e]"
  "prefix gs [e, e'] \<longleftrightarrow> gs = [] \<or> gs = [e] \<or> gs = [e, e']"
  by (auto simp: prefix_Cons)

lemma drop_lease_path: "drop_lease k l = (r, l') \<Longrightarrow> s_path (fst l') = s_path (fst l)"
  by (auto simp: drop_lease_def store_remove_def Let_def split: option.splits prod.splits sum.splits)

lemma put_lease_path: "put_lease k a l = (r, l') \<Longrightarrow> s_path (fst l') = s_path (fst l)"
  by (auto simp: put_lease_def store_set_def Let_def split: option.splits prod.splits sum.splits if_splits)

section \<open>What a crash leaves of an operation\<close>

text \<open>The moments of a step without a call of the store, and of one with one call.\<close>

lemma quiet_moment:
  assumes "lease_state_inv (st_leases s)" and "st_leases s' = st_leases s"
    and "st_log s' = st_log s @ es" and "list_all (\<lambda>e. \<not> store_call e) es"
    and "(gs, ns) \<in> set (crash_moments s s')" and "recovered (s_path (fst (st_leases s))) ns = Some m"
  obtains fs where "gs = st_log s @ fs" "prefix fs es" "m = leases_of s"
proof -
  obtain fs where "ns = nodes (snd (st_leases s))" "prefix fs es" "gs = st_log s @ fs"
    using moments_quiet [OF assms(4)] assms(2,3,5) by (fastforce simp: crash_moments_def)
  then show thesis using that recovered_held [OF assms(1)] assms(6) by blast
qed

lemma call_moment:
  assumes inv: "lease_state_inv (st_leases s)" and log: "st_log s' = st_log s @ es @ e # es'"
    and calls: "list_all (\<lambda>e. \<not> store_call e) es" "store_call e" "list_all (\<lambda>e. \<not> store_call e) es'"
    and final: "lease_state_inv (st_leases s')" "s_path (fst (st_leases s')) = s_path (fst (st_leases s))"
    and moment: "(gs, ns) \<in> set (crash_moments s s')" "recovered (s_path (fst (st_leases s))) ns = Some m"
  obtains (before) fs where "gs = st_log s @ fs" "prefix fs es" "m = leases_of s"
  | (within) "gs = st_log s @ es" "ns \<in> set (written (st_leases s) (st_leases s'))"
  | (after) fs where "gs = st_log s @ es @ e # fs" "prefix fs es'" "m = leases_of s'"
proof -
  have "(gs, ns) \<in> set (moments (st_log s) (es @ e # es') (nodes (snd (st_leases s)))
      (written (st_leases s) (st_leases s')) (nodes (snd (st_leases s'))))"
    using moment(1) by (simp add: crash_moments_def log)
  then show thesis
  proof (rule moments_call [OF calls])
    fix fs assume "ns = nodes (snd (st_leases s))" "prefix fs es" "gs = st_log s @ fs"
    then show thesis using before recovered_held [OF inv] moment(2) by blast
  next
    fix fs assume "ns = nodes (snd (st_leases s'))" "prefix fs es'" "gs = st_log s @ es @ e # fs"
    then show thesis using after recovered_held [OF final(1)] moment(2) final(2) by simp
  qed (use within in blast)
qed

text \<open>
  What a crash may leave of a revocation: the events that have happened, and the leases that the
  next start recovers, from the ones \<open>m\<close> held before; \<open>acc\<close> is the accessor on record.
\<close>

inductive cut_revoke :: "bytes \<Rightarrow> bytes \<Rightarrow> (bytes \<Rightarrow> bytes option) \<Rightarrow> event list \<Rightarrow> (bytes \<Rightarrow> bytes option) \<Rightarrow> bool"
  for acc key m where
  begun: "cut_revoke acc key m [] m"
| asked: "acc \<noteq> '''' \<Longrightarrow> cut_revoke acc key m [Revoke acc r] m"
| removing: "acc \<noteq> '''' \<Longrightarrow> cut_revoke acc key m [Revoke acc (Inr ())] (m(key := None))"
| removed: "acc \<noteq> '''' \<Longrightarrow> m' = (if is_ok r then m(key := None) else m) \<Longrightarrow>
    cut_revoke acc key m [Revoke acc (Inr ()), RemoveLease key r] m'"

text \<open>What a crash may leave of an issue; \<open>prev\<close> is the accessor on record, and \<open>pre\<close> its revocation.\<close>

inductive cut_issue ::
  "bytes \<Rightarrow> bytes \<Rightarrow> bytes list \<Rightarrow> (bytes \<Rightarrow> bytes option) \<Rightarrow> event list \<Rightarrow> (bytes \<Rightarrow> bytes option) \<Rightarrow> bool"
  for prev key ps m where
  begun: "cut_issue prev key ps m [] m"
| asked: "prev \<noteq> '''' \<Longrightarrow> cut_issue prev key ps m [Revoke prev r] m"
| denied: "pre = (if prev = '''' then [] else [Revoke prev (Inr ())]) \<Longrightarrow>
    cut_issue prev key ps m (pre @ [Issue ps (Inl e)]) m"
| issued: "pre = (if prev = '''' then [] else [Revoke prev (Inr ())]) \<Longrightarrow> m' \<in> {m, m(key \<mapsto> a)} \<Longrightarrow>
    cut_issue prev key ps m (pre @ [Issue ps (Inr (t, a))]) m'"
| unsealed: "pre = (if prev = '''' then [] else [Revoke prev (Inr ())]) \<Longrightarrow>
    cut_issue prev key ps m (pre @ [Issue ps (Inr (t, a)), Revoke a r]) m"
| stored: "pre = (if prev = '''' then [] else [Revoke prev (Inr ())]) \<Longrightarrow> m' = (if is_ok r then m(key \<mapsto> a) else m) \<Longrightarrow>
    cut_issue prev key ps m (pre @ [Issue ps (Inr (t, a)), SetLease key a r]) m'"
| unsaved: "pre = (if prev = '''' then [] else [Revoke prev (Inr ())]) \<Longrightarrow>
    cut_issue prev key ps m (pre @ [Issue ps (Inr (t, a)), SetLease key a (Inl e), Revoke a r]) m"

lemma removal_cut:
  assumes inv: "lease_state_inv (st_leases s)" and acc: "acc \<noteq> ''''"
    and log: "st_log s' = st_log s @ [Revoke acc (Inr ())] @ RemoveLease key r # []"
    and drop: "drop_lease key (st_leases s) = (r, st_leases s')"
    and moment: "(gs, ns) \<in> set (crash_moments s s')" "recovered (s_path (fst (st_leases s))) ns = Some m"
  shows "\<exists>fs. gs = st_log s @ fs \<and> cut_revoke acc key (leases_of s) fs m"
proof (rule call_moment [OF inv log _ _ _ _ _ moment])
  fix fs assume "gs = st_log s @ fs" "prefix fs [Revoke acc (Inr ())]" "m = leases_of s"
  then show ?thesis using acc by (auto intro: cut_revoke.begun cut_revoke.asked)
next
  assume "gs = st_log s @ [Revoke acc (Inr ())]" "ns \<in> set (written (st_leases s) (st_leases s'))"
  then show ?thesis
    using drop_lease_recovers [OF inv drop _ moment(2)] acc by (auto intro: cut_revoke.asked cut_revoke.removing)
next
  fix fs :: "event list" assume "gs = st_log s @ [Revoke acc (Inr ())] @ RemoveLease key r # fs" "prefix fs []" "m = leases_of s'"
  then show ?thesis
    using drop_lease_held(2) [OF inv drop] acc by (auto intro: cut_revoke.removed)
qed (use drop_lease_held(1) [OF inv drop] drop_lease_path [OF drop] in simp_all)

lemma revoke_cut:
  fixes q s
  defines "key \<equiv> leaseStateKey (r_hostUUID q) (r_volumeName q)"
  assumes inv: "lease_state_inv (st_leases s)" and run: "revoke_locked d q s = (resp, s')"
    and moment: "(gs, ns) \<in> set (crash_moments s s')" "recovered (s_path (fst (st_leases s))) ns = Some m"
  shows "\<exists>fs. gs = st_log s @ fs \<and> cut_revoke (store_accessor (fst (st_leases s)) key) key (leases_of s) fs m"
  using run
proof (cases rule: revoke_locked_cases)
  case absent
  then show ?thesis
    using quiet_moment [OF inv _ _ _ moment, of "[]"] cut_revoke.begun by fastforce
next
  case (stuck e)
  let ?acc = "store_accessor (fst (st_leases s)) key"
  from quiet_moment [OF inv stuck(3,4) _ moment] obtain fs where
    "gs = st_log s @ fs" "prefix fs [Revoke ?acc (Inl e)]" "m = leases_of s"
    by (auto simp: key_def)
  then show ?thesis
    using stuck(1) by (auto simp: key_def intro: cut_revoke.begun cut_revoke.asked)
next
  case (unsaved e)
  then show ?thesis using removal_cut [OF inv _ _ _ moment] by (simp add: key_def)
next
  case dropped
  then show ?thesis using removal_cut [OF inv _ _ _ moment] by (simp add: key_def)
qed

text \<open>An issue that got as far as the store.\<close>

lemma storing_cut:
  assumes inv: "lease_state_inv (st_leases s)" and key: "lease_key_ok key" "valid_utf8 a"
    and pre: "pre = (if prev = '''' then [] else [Revoke prev (Inr ())])"
    and put: "put_lease key a (st_leases s) = (r, st_leases s')"
    and log: "st_log s' = st_log s @ (pre @ [Issue ps (Inr (t, a))]) @ SetLease key a r # es'"
    and rest: "es' = [] \<and> is_ok r \<or> (\<exists>r' e. es' = [Revoke a r'] \<and> r = Inl e)"
    and moment: "(gs, ns) \<in> set (crash_moments s s')" "recovered (s_path (fst (st_leases s))) ns = Some m"
  shows "\<exists>fs. gs = st_log s @ fs \<and> cut_issue prev key ps (leases_of s) fs m"
proof -
  have held': "lease_state_inv (st_leases s')" "leases_of s' = (if is_ok r then (leases_of s)(key \<mapsto> a) else leases_of s)"
    using put_lease_effect [OF inv key put] by (auto split: sum.splits)
  note cut_issue.intros [intro]
  show ?thesis
  proof (rule call_moment [OF inv log _ _ _ held'(1) put_lease_path [OF put] moment])
    fix fs assume fs: "gs = st_log s @ fs" "prefix fs (pre @ [Issue ps (Inr (t, a))])" "m = leases_of s"
    then have "fs = [] \<or> prev \<noteq> '''' \<and> fs = [Revoke prev (Inr ())] \<or> fs = pre @ [Issue ps (Inr (t, a))]"
      by (auto simp: pre split: if_splits)
    then show ?thesis using fs(1,3) pre by auto
  next
    assume "gs = st_log s @ pre @ [Issue ps (Inr (t, a))]" "ns \<in> set (written (st_leases s) (st_leases s'))"
    then show ?thesis
      using put_lease_recovers [OF inv key put _ moment(2)] cut_issue.issued [OF pre] by blast
  next
    fix fs assume fs: "gs = st_log s @ (pre @ [Issue ps (Inr (t, a))]) @ SetLease key a r # fs" "prefix fs es'" "m = leases_of s'"
    then have "fs = [] \<or> (\<exists>r' e. fs = [Revoke a r'] \<and> r = Inl e)" using rest by auto
    then show ?thesis
      using fs held'(2) cut_issue.stored [OF pre, of m r "leases_of s" key a] cut_issue.unsaved [OF pre] by auto
  qed (use rest pre in auto)
qed

lemma prefix_revoked:
  assumes "prefix fs (pre @ es)" and "pre = (if prev = '''' then [] else [Revoke prev (Inr ())])"
  obtains "fs = []" | "prev \<noteq> ''''" "fs = [Revoke prev (Inr ())]" | gs where "gs \<noteq> []" "prefix gs es" "fs = pre @ gs"
  using assms by (cases fs) (auto simp: prefix_Cons split: if_splits)

context vault_contract
begin

lemma issue_cut:
  fixes q s
  defines "key \<equiv> leaseStateKey (i_hostUUID q) (i_volumeName q)"
  assumes d: "d_vault d = vault" and inv: "lease_state_inv (st_leases s)" and run: "issue_locked d pk q s = (resp, s')"
    and moment: "(gs, ns) \<in> set (crash_moments s s')" "recovered (s_path (fst (st_leases s))) ns = Some m"
  shows "\<exists>fs. gs = st_log s @ fs \<and>
     cut_issue (store_accessor (fst (st_leases s)) key) key (i_policies q) (leases_of s) fs m"
proof -
  note cut_issue.intros [intro]
  have quiet: ?thesis
    if "st_leases s' = st_leases s" "st_log s' = st_log s @ es" "list_all (\<lambda>e. \<not> store_call e) es"
      and "\<And>fs. prefix fs es \<Longrightarrow> cut_issue (store_accessor (fst (st_leases s)) key) key (i_policies q) (leases_of s) fs (leases_of s)"
    for es
    using quiet_moment [OF inv that(1-3) moment] that(4) by blast
  from run show ?thesis
  proof (cases rule: issue_locked_cases)
    case (stuck e)
    then show ?thesis by (intro quiet [OF stuck(3,4)]) (auto simp: key_def)
  next
    case (refused e pre)
    show ?thesis
    proof (rule quiet [OF refused(3,4)])
      fix fs assume "prefix fs (pre @ [Issue (i_policies q) (Inl e)])"
      from prefix_revoked [OF this refused(1)]
      show "cut_issue (store_accessor (fst (st_leases s)) key) key (i_policies q) (leases_of s) fs (leases_of s)"
        using cut_issue.denied [OF refused(1)] by cases (auto simp: key_def)
    qed (use refused(1) in auto)
  next
    case (unsealed pre t a r w w')
    show ?thesis
    proof (rule quiet [OF unsealed(4,5)])
      fix fs assume "prefix fs (pre @ [Issue (i_policies q) (Inr (t, a)), Revoke a r])"
      from prefix_revoked [OF this unsealed(1)]
      show "cut_issue (store_accessor (fst (st_leases s)) key) key (i_policies q) (leases_of s) fs (leases_of s)"
        using cut_issue.issued [OF unsealed(1)] cut_issue.unsealed [OF unsealed(1)] by cases (auto simp: key_def)
    qed (use unsealed(1) in auto)
  next
    case (unsaved pre t a e r w w')
    have "valid_utf8 a" using issue_wf unsaved(2) d by blast
    from storing_cut [OF inv lease_key_ok_state this unsaved(1,3), of "i_policies q" t "[Revoke a r]"] show ?thesis
      using unsaved(5) moment by (simp add: key_def)
  next
    case (granted pre t a rec w w')
    have "valid_utf8 a" using issue_wf granted(2) d by blast
    from storing_cut [OF inv lease_key_ok_state this granted(1,3), of "i_policies q" t "[]"] show ?thesis
      using granted(6) moment by (simp add: key_def)
  qed
qed

end

section \<open>The custody at every moment of an operation\<close>

lemma revoke_keeps:
  assumes "cut_revoke acc key m fs m'" and "set_option (m key) = (if acc = '''' then {} else {acc})"
  shows "\<exists>a. keeps (ran m) fs a (ran m')"
  using assms(1)
proof cases
  case removing
  then show ?thesis
    using ran_upd_key [of m key None] assms(2) by (auto simp: keeps_def split: if_splits)
next
  case (removed r)
  then show ?thesis
    using ran_upd_key [of m key None] assms(2) by (auto simp: keeps_def split: if_splits)
qed (auto simp: keeps_def)

lemma issue_keeps:
  assumes "cut_issue prev key ps m fs m'" and "set_option (m key) = (if prev = '''' then {} else {prev})"
  shows "\<exists>a. keeps (ran m) fs a (ran m')"
proof -
  have upd: "ran m \<subseteq> (if prev = '''' then {} else {prev}) \<union> ran (m(key \<mapsto> a))" "a \<in> ran (m(key \<mapsto> a))" for a
    using ran_upd_key [of m key "Some a"] assms(2) by (auto simp: ran_def split: if_splits)
  from assms(1) show ?thesis
  proof cases
    case (issued pre a t)
    then show ?thesis using upd [of a] by (intro exI [of _ a]) (auto simp: keeps_def split: if_splits)
  next
    case (unsealed pre t a r)
    then show ?thesis by (intro exI [of _ a]) (auto simp: keeps_def split: if_splits)
  next
    case (stored pre r a t)
    then show ?thesis using upd [of a] by (intro exI [of _ a]) (auto simp: keeps_def split: if_splits)
  next
    case (unsaved pre t a e r)
    then show ?thesis by (intro exI [of _ a]) (auto simp: keeps_def split: if_splits)
  qed (auto simp: keeps_def split: if_splits)
qed

lemma safe_momentsI:
  assumes "accounted es0 lost s"
    and "\<And>gs ns m. (gs, ns) \<in> set (crash_moments s s') \<Longrightarrow> recovered p ns = Some m \<Longrightarrow>
      \<exists>fs. gs = st_log s @ fs \<and> (\<exists>a. keeps (ran (leases_of s)) fs a (ran m))"
  shows "list_all (safe_moment es0 lost p) (crash_moments s s')"
proof -
  have "safe_moment es0 lost p (gs, ns)" if moment: "(gs, ns) \<in> set (crash_moments s s')" for gs ns
  proof (cases "recovered p ns")
    case None
    then show ?thesis by (simp add: safe_moment_def)
  next
    case (Some m)
    then obtain fs where "gs = st_log s @ fs" "\<exists>a. keeps (ran (leases_of s)) fs a (ran m)"
      using assms(2) [OF moment] by blast
    then show ?thesis using safe_momentI [OF assms(1), of p ns fs] Some by simp
  qed
  then show ?thesis by (auto simp: list_all_iff)
qed

section \<open>The service\<close>

lemma issue_locked_path:
  "issue_locked d pk q s = (resp, s') \<Longrightarrow> s_path (fst (st_leases s')) = s_path (fst (st_leases s))"
  by (cases rule: issue_locked_cases) (auto dest: put_lease_path)

lemma revoke_locked_path:
  "revoke_locked d q s = (resp, s') \<Longrightarrow> s_path (fst (st_leases s')) = s_path (fst (st_leases s))"
  by (cases rule: revoke_locked_cases) (auto dest: drop_lease_path)

lemma other_quiet:
  assumes "h_path req \<noteq> ''/v1/leases''" "h_path req \<noteq> ''/v1/leases/revoke''" "ServeHTTP d req s = (resp, s')"
  shows "st_leases s' = st_leases s \<and> (\<exists>es. st_log s' = st_log s @ es \<and> list_all silent es)"
  using assms by (auto simp: ServeHTTP_def handleReady_def logged_def Let_def split: prod.splits if_splits)

lemma tick_quiet:
  "st_leases (renewal_tick d s) = st_leases s \<and> (\<exists>r. st_log (renewal_tick d s) = st_log s @ [Renew r])"
  by (auto simp: renewal_tick_def logged_def Let_def split: prod.splits)

text \<open>A step either leaves the leases and reports nothing of a token, or is one of the two locked sections.\<close>

lemma conc_step_kinds:
  assumes "conc_step d (fs, s) us (fs', s')"
  obtains (quiet) es where "st_leases s' = st_leases s" "st_log s' = st_log s @ es" "list_all silent es"
      "\<And>i op key. i < length fs \<Longrightarrow> fs ! i = Admitted op key \<Longrightarrow> fs' ! i = fs ! i"
  | (issue) i q key resp where "i < length fs" "fs ! i = Admitted (IssueOp q) key" "fs' = fs[i := Finished resp]"
      "issue_locked d key q s = (resp, s')"
  | (revoke) i q key resp where "i < length fs" "fs ! i = Admitted (RevokeOp q) key" "fs' = fs[i := Finished resp]"
      "revoke_locked d q s = (resp, s')"
  using assms
proof cases
  case (advance i f')
  have still: "fs' ! j = fs ! j" if "\<nexists>op key. fs ! i = Admitted op key" "fs ! j = Admitted op' key'" for j op' key'
    using that advance(2) by (cases "j = i") auto
  from advance(4) show thesis
  proof (cases rule: flight_stepE)
    case (other req r)
    then obtain es where "st_leases s' = st_leases s" "st_log s' = st_log s @ es" "list_all silent es"
      using other_quiet by metis
    then show ?thesis using quiet still other(1) by simp
  next
    case (looked_up req op r)
    then show ?thesis using quiet [of "[HostKey (op_host op) r]"] still by auto
  qed (use quiet [of "[]"] issue revoke advance still in auto)
next
  case renewal
  then show thesis using tick_quiet [of d s] quiet by auto
qed (use quiet [of "[]"] in \<open>auto simp: nth_append\<close>)

lemma conc_step_path: "conc_step d (fs, s) us (fs', s') \<Longrightarrow> s_path (fst (st_leases s')) = s_path (fst (st_leases s))"
  by (cases rule: conc_step_kinds) (auto dest: issue_locked_path revoke_locked_path)

lemma conc_run_path: "conc_run d c us c' \<Longrightarrow> s_path (fst (st_leases (snd c'))) = s_path (fst (st_leases (snd c)))"
proof (induction rule: conc_run.induct)
  case (more c us c' vs c'')
  then show ?case using conc_step_path [of d "fst c'" "snd c'" vs "fst c''" "snd c''"] by simp
qed simp

context bridge
begin

lemma conc_step_moments:
  assumes "conc_step d (fs, s) us (fs', s')" and "server_inv s" and acc: "accounted es0 lost s"
  shows "list_all (safe_moment es0 lost (s_path (fst (st_leases s)))) (crash_moments s s')"
proof (rule safe_momentsI [OF acc])
  fix gs ns m assume moment: "(gs, ns) \<in> set (crash_moments s s')" "recovered (s_path (fst (st_leases s))) ns = Some m"
  have inv: "lease_state_inv (st_leases s)" using assms(2) by (simp add: server_inv_def)
  from assms(1) show "\<exists>fs. gs = st_log s @ fs \<and> (\<exists>a. keeps (ran (leases_of s)) fs a (ran m))"
  proof (cases rule: conc_step_kinds)
    case (quiet es)
    then have "list_all (\<lambda>e. \<not> store_call e) es" using silent_no_call by (auto simp: list_all_iff)
    then obtain fs where fs: "gs = st_log s @ fs" "prefix fs es" "m = leases_of s"
      by (rule quiet_moment [OF inv quiet(1,2) _ moment])
    from silent_keeps [OF quiet(3) fs(2), of "ran m"] show ?thesis
      using fs(1,3) by blast
  next
    case (issue i q key resp)
    obtain fs where "gs = st_log s @ fs" and cut: "cut_issue (store_accessor (fst (st_leases s)) (leaseStateKey (i_hostUUID q) (i_volumeName q)))
        (leaseStateKey (i_hostUUID q) (i_volumeName q)) (i_policies q) (leases_of s) fs m"
      using issue_cut [OF refl inv issue(4) moment] by blast
    with issue_keeps [OF cut previous_held [OF inv]] show ?thesis by blast
  next
    case (revoke i q key resp)
    obtain fs where "gs = st_log s @ fs" and cut: "cut_revoke (store_accessor (fst (st_leases s)) (leaseStateKey (r_hostUUID q) (r_volumeName q)))
        (leaseStateKey (r_hostUUID q) (r_volumeName q)) (leases_of s) fs m"
      using revoke_cut [OF inv revoke(4) moment] by blast
    with revoke_keeps [OF cut previous_held [OF inv]] show ?thesis by blast
  qed
qed

end

end
