(* ===== verification/Authority.thy ===== *)
theory Authority
  imports Crash
begin

text \<open>
  On whose authority the bridge acts (\<^verbatim>\<open>internal/broker/server.go\<close>): what every request in flight
  has shown at the point it has reached, and that everything the bridge does with Vault and the
  lease store, in any interleaving, is the own work of an operation whose request has shown all of it.
\<close>

section \<open>What a request shows\<close>

definition checked_at_past :: "'w deps \<Rightarrow> 'w server \<Rightarrow> inbound \<Rightarrow> lease_op \<Rightarrow> bool" where
  "checked_at_past d s req op \<longleftrightarrow>
     well_formed d req \<and> (\<exists>t. past s t \<and> op_valid (d_config d) (h_data req) t op)"

definition key_signed :: "'w deps \<Rightarrow> inbound \<Rightarrow> lease_op \<Rightarrow> rsa_key \<Rightarrow> bool" where
  "key_signed d req op key \<longleftrightarrow>
     (\<exists>w w'. d_platform d (op_host op) w = (Inr key, w')) \<and> signed_by d req (h_data req) key"

definition shown :: "'w deps \<Rightarrow> 'w server \<Rightarrow> lease_op \<Rightarrow> rsa_key \<Rightarrow> bool" where
  "shown d s op key \<longleftrightarrow> (\<exists>req. checked_at_past d s req op \<and> key_signed d req op key)"

text \<open>A nonce of the operation was accepted at a reading of the clock; \<open>us\<close> are the cache's answers.\<close>

definition nonce_spent :: "nonce_use list \<Rightarrow> lease_op \<Rightarrow> bool" where
  "nonce_spent us op \<longleftrightarrow> (\<exists>t. (op_host op, op_nonce op, t, True) \<in> set us)"

fun vouched :: "'w deps \<Rightarrow> 'w server \<Rightarrow> nonce_use list \<Rightarrow> flight \<Rightarrow> bool" where
  "vouched d s us (Checked req op) = checked_at_past d s req op"
| "vouched d s us (Verified op key) = shown d s op key"
| "vouched d s us (Timed op key t) = shown d s op key"
| "vouched d s us (Admitted op key) = (shown d s op key \<and> nonce_spent us op)"
| "vouched d s us f = True"

lemma shown_later: "later s s' \<Longrightarrow> shown d s op key \<Longrightarrow> shown d s' op key"
  unfolding shown_def checked_at_past_def using later_past by blast

lemma vouched_later: "later s s' \<Longrightarrow> set us \<subseteq> set us' \<Longrightarrow> vouched d s us f \<Longrightarrow> vouched d s' us' f"
  by (cases f) (auto simp: checked_at_past_def nonce_spent_def intro: later_past shown_later)

lemma flight_step_vouched:
  assumes "flight_step d f s = Some (f', s')" and "vouched d s us f"
  shows "vouched d s' (us @ uses_of f s) f'"
proof -
  note later = flight_step_clock(1) [OF assms(1)]
  from assms(1) show ?thesis
  proof (cases rule: flight_stepE)
    case (checked req op)
    then show ?thesis by (auto simp: checked_at_past_def past_def)
  next
    case (looked_up req op r)
    then have "checked_at_past d s' req op"
      using assms(2) vouched_later [OF later order_refl, of d us "Checked req op"] by simp
    moreover have "\<exists>w. d_platform d (op_host op) (st_world s) = (r, w)"
      using looked_up(2) by (auto split: prod.splits)
    ultimately show ?thesis
      using looked_up(3) by (fastforce simp: shown_def key_signed_def)
  next
    case (timed op key)
    then show ?thesis using assms(2) shown_later [OF later] by simp
  next
    case (spent op key t ok cache)
    then have "shown d s' op key" using assms(2) shown_later [OF later] by simp
    then show ?thesis using spent by (auto simp: uses_of_def nonce_spent_def)
  qed simp_all
qed

section \<open>What is done on it\<close>

fun op_key :: "lease_op \<Rightarrow> bytes" where
  "op_key (IssueOp q) = leaseStateKey (i_hostUUID q) (i_volumeName q)"
| "op_key (RevokeOp q) = leaseStateKey (r_hostUUID q) (r_volumeName q)"

fun lease_work :: "event \<Rightarrow> bool" where
  "lease_work (Issue ps r) = True"
| "lease_work (SetLease k a r) = True"
| "lease_work (RemoveLease k r) = True"
| "lease_work (Revoke a r) = True"
| "lease_work e = False"

text \<open>The accessors on record after some events, from the ones \<open>m\<close> on record before them.\<close>

fun recorded_step :: "(bytes \<Rightarrow> bytes option) \<Rightarrow> event \<Rightarrow> bytes \<Rightarrow> bytes option" where
  "recorded_step m (SetLease k a r) = (if is_ok r then m(k \<mapsto> a) else m)"
| "recorded_step m (RemoveLease k r) = (if is_ok r then m(k := None) else m)"
| "recorded_step m e = m"

definition recorded :: "(bytes \<Rightarrow> bytes option) \<Rightarrow> event list \<Rightarrow> bytes \<Rightarrow> bytes option" where
  "recorded m es = foldl recorded_step m es"

text \<open>
  The work of an operation, after the lease work \<open>ws\<close> and with the accessors \<open>m\<close> on record. An
  issue asks Vault for exactly its policies and records, for its own volume, the accessor it has at
  hand: the one just issued to it, that could not be recorded yet. A revocation removes its own
  volume's lease, after Vault has confirmed that its accessor is revoked. The accessor that an
  operation has revoked is the one on record for its own volume, or the one it has at hand.
\<close>

fun at_hand :: "lease_op \<Rightarrow> bytes \<Rightarrow> event list \<Rightarrow> bool" where
  "at_hand (IssueOp q) a (Issue ps (Inr (t, a')) # ws) = (ps = i_policies q \<and> a' = a)"
| "at_hand (IssueOp q) a (SetLease k a' (Inl err) # ws) = (k = op_key (IssueOp q) \<and> a' = a \<and> at_hand (IssueOp q) a ws)"
| "at_hand op a ws = False"

definition own_work :: "(bytes \<Rightarrow> bytes option) \<Rightarrow> event list \<Rightarrow> lease_op \<Rightarrow> event \<Rightarrow> bool" where
  "own_work m ws op e =
     (case e of
        Issue ps r \<Rightarrow> (\<exists>q. op = IssueOp q \<and> ps = i_policies q)
      | SetLease k a r \<Rightarrow> k = op_key op \<and> at_hand op a (rev ws)
      | RemoveLease k r \<Rightarrow> k = op_key op \<and> (\<exists>q a vs. op = RevokeOp q \<and> rev ws = Revoke a (Inr ()) # vs \<and> m k = Some a)
      | Revoke a r \<Rightarrow> m (op_key op) = Some a \<or> at_hand op a (rev ws)
      | _ \<Rightarrow> False)"

text \<open>What holds of every event of a log and of the events before it.\<close>

fun each :: "(event list \<Rightarrow> event \<Rightarrow> bool) \<Rightarrow> event list \<Rightarrow> event list \<Rightarrow> bool" where
  "each P before [] = True"
| "each P before (e # es) = (P before e \<and> each P (before @ [e]) es)"

lemma each_append [simp]: "each P before (es @ fs) \<longleftrightarrow> each P before es \<and> each P (before @ es) fs"
  by (induction P before es rule: each.induct) auto

lemma each_mono: "each P before es \<Longrightarrow> (\<And>xs e. P xs e \<Longrightarrow> Q xs e) \<Longrightarrow> each Q before es"
  by (induction P before es rule: each.induct) auto

lemma each_of: "list_all (\<lambda>e. \<forall>xs. P xs e) es \<Longrightarrow> each P before es"
  by (induction P before es rule: each.induct) auto

lemma recorded_append [simp]: "recorded m (es @ fs) = foldl recorded_step (recorded m es) fs"
  by (simp add: recorded_def)

lemma recorded_idle: "list_all (\<lambda>e. \<not> lease_work e) es \<Longrightarrow> foldl recorded_step m es = m"
proof (induction es)
  case (Cons e es)
  then show ?case by (cases e) auto
qed simp

text \<open>The lease store after a call, also when it was rolled back.\<close>

lemma put_lease_record: "put_lease k a l = (r, l') \<Longrightarrow> held l' = (if is_ok r then (held l)(k \<mapsto> a) else held l)"
  by (auto simp: put_lease_def store_set_def held_def fun_eq_iff Let_def split: prod.splits sum.splits option.splits if_splits)

lemma drop_lease_record: "drop_lease k l = (r, l') \<Longrightarrow> held l' = (if is_ok r then (held l)(k := None) else held l)"
  by (auto simp: drop_lease_def store_remove_def held_def fun_eq_iff Let_def split: prod.splits sum.splits option.splits if_splits)

lemma accessor_held: "store_accessor (fst l) k \<noteq> '''' \<Longrightarrow> held l k = Some (store_accessor (fst l) k)"
  by (auto simp: store_accessor_def held_def split: option.splits)

text \<open>An event of the log is own work of the operation, if it is lease work at all.\<close>

definition owned :: "(bytes \<Rightarrow> bytes option) \<Rightarrow> lease_op \<Rightarrow> event list \<Rightarrow> event \<Rightarrow> bool" where
  "owned m0 op es e = (lease_work e \<longrightarrow> own_work (recorded m0 es) (filter lease_work es) op e)"

text \<open>The log tells what is on record, and a locked section adds to it own work only.\<close>

lemma issue_locked_owned:
  assumes run: "issue_locked d pk q s = (resp, s')" and rec: "recorded m0 (st_log s) = leases_of s"
  shows "\<exists>es. st_log s' = st_log s @ es \<and> each (owned m0 (IssueOp q)) (st_log s) es \<and>
     recorded m0 (st_log s') = leases_of s'"
  using run
proof (cases rule: issue_locked_cases)
  case (stuck e)
  then show ?thesis using rec accessor_held by (auto simp: owned_def own_work_def)
next
  case (refused e pre)
  then show ?thesis using rec accessor_held by (auto simp: owned_def own_work_def)
next
  case (unsealed pre t a r w w')
  then show ?thesis using rec accessor_held by (auto simp: owned_def own_work_def)
next
  case (unsaved pre t a e r w w')
  then show ?thesis
    using rec accessor_held put_lease_record [OF unsaved(3)] by (auto simp: owned_def own_work_def)
next
  case (granted pre t a rec w w')
  then show ?thesis
    using rec accessor_held put_lease_record [OF granted(3)] by (auto simp: owned_def own_work_def)
qed

lemma revoke_locked_owned:
  assumes run: "revoke_locked d q s = (resp, s')" and rec: "recorded m0 (st_log s) = leases_of s"
  shows "\<exists>es. st_log s' = st_log s @ es \<and> each (owned m0 (RevokeOp q)) (st_log s) es \<and>
     recorded m0 (st_log s') = leases_of s'"
  using run
proof (cases rule: revoke_locked_cases)
  case (unsaved e)
  then show ?thesis
    using rec accessor_held drop_lease_record [OF unsaved(3)] by (auto simp: owned_def own_work_def)
next
  case dropped
  then show ?thesis
    using rec accessor_held drop_lease_record [OF dropped(3)] by (auto simp: owned_def own_work_def)
qed (use rec accessor_held in \<open>auto simp: owned_def own_work_def\<close>)

lemma silent_idle: "list_all silent es \<Longrightarrow> list_all (\<lambda>e. \<not> lease_work e) es"
proof (induction es)
  case (Cons e es)
  then show ?case by (cases e) auto
qed simp

text \<open>A step adds lease work to the log only for an admitted operation, and then its own.\<close>

lemma flight_step_owned:
  assumes "flight_step d f s = Some (f', s')" and rec: "recorded m0 (st_log s) = leases_of s"
  shows "\<exists>es. st_log s' = st_log s @ es \<and> recorded m0 (st_log s') = leases_of s' \<and>
     (list_all (\<lambda>e. \<not> lease_work e) es \<or> (\<exists>op key. f = Admitted op key \<and> each (owned m0 op) (st_log s) es))"
  using assms(1)
proof (cases rule: flight_stepE)
  case (other req r)
  then obtain es where "st_leases s' = st_leases s" "st_log s' = st_log s @ es" "list_all (\<lambda>e. \<not> lease_work e) es"
    using other_quiet silent_idle by metis
  then show ?thesis using rec by (auto simp: recorded_idle)
next
  case (looked_up req op r)
  then show ?thesis using rec by auto
next
  case (issued q key r)
  from issue_locked_owned [OF issued(3) rec] obtain es where
    "st_log s' = st_log s @ es" "each (owned m0 (IssueOp q)) (st_log s) es" "recorded m0 (st_log s') = leases_of s'"
    by blast
  then show ?thesis using issued(1) by blast
next
  case (revoked q key r)
  from revoke_locked_owned [OF revoked(3) rec] obtain es where
    "st_log s' = st_log s @ es" "each (owned m0 (RevokeOp q)) (st_log s) es" "recorded m0 (st_log s') = leases_of s'"
    by blast
  then show ?thesis using revoked(1) by blast
qed (use rec in auto)

section \<open>Every run\<close>

definition authorised ::
  "(bytes \<Rightarrow> bytes option) \<Rightarrow> 'w deps \<Rightarrow> 'w server \<Rightarrow> nonce_use list \<Rightarrow> event list \<Rightarrow> event \<Rightarrow> bool" where
  "authorised m0 d s us es e \<longleftrightarrow>
     (lease_work e \<longrightarrow> (\<exists>op key. owned m0 op es e \<and> shown d s op key \<and> nonce_spent us op))"

lemma authorised_later: "later s s' \<Longrightarrow> set us \<subseteq> set us' \<Longrightarrow> authorised m0 d s us es e \<Longrightarrow> authorised m0 d s' us' es e"
  unfolding authorised_def nonce_spent_def using shown_later by blast

definition backed :: "(bytes \<Rightarrow> bytes option) \<Rightarrow> 'w deps \<Rightarrow> nonce_use list \<Rightarrow> 'w service \<Rightarrow> bool" where
  "backed m0 d us c \<longleftrightarrow>
     list_all (vouched d (snd c) us) (fst c) \<and> recorded m0 (st_log (snd c)) = leases_of (snd c) \<and>
     each (authorised m0 d (snd c) us) [] (st_log (snd c))"

lemma conc_step_backed:
  assumes "conc_step d c vs c'" and "backed m0 d us c"
  shows "backed m0 d (us @ vs) c'"
  using assms(1)
proof cases
  case (advance i fs s f' s')
  note later = flight_step_clock(1) [OF advance(5)]
  have old: "list_all (vouched d s us) fs" "recorded m0 (st_log s) = leases_of s"
      "each (authorised m0 d s us) [] (st_log s)"
    using assms(2) advance(1) by (simp_all add: backed_def)
  have f: "vouched d s us (fs ! i)" using old(1) advance(4) by (simp add: list_all_length)
  have "list_all (vouched d s' (us @ vs)) fs"
    using old(1) vouched_later [OF later, of us "us @ vs"] by (auto simp: list_all_iff)
  moreover have "vouched d s' (us @ vs) f'"
    using flight_step_vouched [OF advance(5) f] advance(2) by simp
  ultimately have flights: "list_all (vouched d s' (us @ vs)) (fs[i := f'])"
    using set_update_subset_insert [of fs i f'] by (auto simp: list_all_iff)
  obtain es where es: "st_log s' = st_log s @ es" "recorded m0 (st_log s') = leases_of s'"
      and new: "list_all (\<lambda>e. \<not> lease_work e) es \<or>
        (\<exists>op key. fs ! i = Admitted op key \<and> each (owned m0 op) (st_log s) es)"
    using flight_step_owned [OF advance(5) old(2)] by blast
  from new have "each (authorised m0 d s us) (st_log s) es"
  proof
    assume "\<exists>op key. fs ! i = Admitted op key \<and> each (owned m0 op) (st_log s) es"
    then obtain op key where op: "fs ! i = Admitted op key" "each (owned m0 op) (st_log s) es"
      by blast
    then have "shown d s op key" "nonce_spent us op" using f by simp_all
    then show ?thesis
      using each_mono [OF op(2), of "authorised m0 d s us"] by (auto simp: authorised_def)
  qed (auto simp: authorised_def list_all_iff intro: each_of)
  then have "each (authorised m0 d s us) [] (st_log s')"
    using old(3) es(1) by simp
  then have "each (authorised m0 d s' (us @ vs)) [] (st_log s')"
    by (rule each_mono) (rule authorised_later [OF later]; simp)
  then show ?thesis using flights es(2) advance(3) by (simp add: backed_def)
next
  case (arrive fs s req)
  then show ?thesis using assms(2) by (simp add: backed_def)
next
  case (renewal fs s)
  have later: "later s (renewal_tick d s)"
    using same_clock_later [OF tick_clock] by blast
  obtain r where tick: "st_leases (renewal_tick d s) = st_leases s" "st_log (renewal_tick d s) = st_log s @ [Renew r]"
    using tick_quiet by blast
  have "each (authorised m0 d s us) [] (st_log (renewal_tick d s))"
    using assms(2) renewal(1) tick(2) by (simp add: backed_def authorised_def)
  then have "each (authorised m0 d (renewal_tick d s) us) [] (st_log (renewal_tick d s))"
    by (rule each_mono) (rule authorised_later [OF later order_refl])
  then show ?thesis
    using assms(2) renewal tick vouched_later [OF later order_refl] by (auto simp: backed_def list_all_iff)
qed

lemma conc_run_backed: "conc_run d c us c' \<Longrightarrow> backed m0 d vs c \<Longrightarrow> backed m0 d (vs @ us) c'"
proof (induction rule: conc_run.induct)
  case (more c us c' ws c'')
  then show ?case using conc_step_backed [of d c' ws c'' m0 "vs @ us"] by simp
qed simp

end
