(* ===== verification/ConcurrentProps.thy ===== *)
theory ConcurrentProps
  imports StartProps Authority
begin

text \<open>
  The properties of the bridge with requests interleaved: no token is lost, and copies of a request
  in flight together are not both admitted.
\<close>

section \<open>Nothing is done without authority\<close>

text \<open>
  C5: whatever the interleaving, everything a new server has had Vault or the lease store do for a
  lease was done for one operation and was that operation's own work: a token issued for exactly
  its policies, the accessor just issued to it recorded for its own volume, its own volume's lease
  removed once Vault had confirmed the revocation, or an accessor revoked that was on record for its
  own volume or just issued to it and not recorded. That operation had arrived in a well-formed
  request, valid at a reading of the clock, signed with the key the control plane gave for its host,
  and with a nonce that the cache had accepted. What the log says is on record is what is held.
\<close>

theorem work_authorised:
  assumes "conc_run d ([], s) us (fs, s')" and "st_log s = []"
    and "st_log s' = before @ e # after" and "lease_work e"
  shows "(\<exists>op key req t. own_work (recorded (held (st_leases s)) before) (filter lease_work before) op e \<and>
       well_formed d req \<and> past s' t \<and> op_valid (d_config d) (h_data req) t op \<and>
       key_signed d req op key \<and> nonce_spent us op) \<and>
     recorded (held (st_leases s)) (st_log s') = held (st_leases s')"
proof -
  let ?m = "held (st_leases s)"
  have "backed ?m d [] ([], s)" using assms(2) by (simp add: backed_def recorded_def)
  from conc_run_backed [OF assms(1) this]
  have "each (authorised ?m d s' us) [] (before @ e # after)" "recorded ?m (st_log s') = held (st_leases s')"
    by (simp_all add: backed_def assms(3))
  then show ?thesis
    using assms(4) unfolding authorised_def owned_def shown_def checked_at_past_def by simp blast
qed

lemma demo_flight_run:
  "\<exists>us. conc_run demo_deps ([], demo_server) us
     ([Finished (fst (handleIssue demo_deps demo_inbound demo_server))], snd (handleIssue demo_deps demo_inbound demo_server))"
proof -
  have "h_path demo_inbound = ''/v1/leases''" by (simp add: demo_inbound_def)
  then have "fly demo_deps 5 (Waiting demo_inbound) demo_server =
      (Finished (fst (handleIssue demo_deps demo_inbound demo_server)), snd (handleIssue demo_deps demo_inbound demo_server))"
    unfolding fly_serves by (simp add: ServeHTTP_def split: prod.splits)
  from fly_run [OF this] obtain us where us: "conc_run demo_deps ([Waiting demo_inbound], demo_server) us
      ([Finished (fst (handleIssue demo_deps demo_inbound demo_server))], snd (handleIssue demo_deps demo_inbound demo_server))"
    by blast
  have "conc_run demo_deps ([], demo_server) ([] @ []) ([Waiting demo_inbound], demo_server)"
    using more [OF idle arrive, of demo_deps "[]" demo_server demo_inbound] by simp
  from conc_run_append [OF us this] show ?thesis by blast
qed

lemma demo_log:
  obtains t a where "st_log (snd (handleIssue demo_deps demo_inbound demo_server)) =
      [HostKey ''host'' (Inr demo_key), Issue [''app''] (Inr (t, a)), SetLease (leaseStateKey ''host'' ''vol'') a (Inr ())]"
proof -
  obtain resp s' where l: "issue_locked demo_deps demo_key demo_issue demo_admitted = (resp, s')"
    by (cases "issue_locked demo_deps demo_key demo_issue demo_admitted")
  then have h: "handleIssue demo_deps demo_inbound demo_server = (resp, s')"
    using demo_admit by (simp add: handleIssue_admit)
  then have ok: "o_status resp = 200" using demo_granted by simp
  have log: "st_log demo_admitted = [HostKey ''host'' (Inr demo_key)]"
  proof -
    obtain w n k where eq: "demo_admitted = demo_server\<lparr>st_world := w,
        st_log := st_log demo_server @ [HostKey (i_hostUUID demo_issue) (Inr demo_key)], st_ticks := n, st_nonces := k\<rparr>"
      using demo_admit unfolding admit_ok by blast
    show ?thesis unfolding eq by (simp add: demo_server_parts demo_issue_def)
  qed
  from l show thesis
  proof (cases rule: issue_locked_cases)
    case (granted pre t a rec w w')
    moreover have "store_accessor (fst (st_leases demo_admitted)) k = ''''" for k
      by (simp add: demo_admitted_parts demo_store_def store_accessor_def)
    ultimately show thesis
      using that [of t a] log h by (simp add: demo_issue_def)
  qed (use ok in \<open>simp_all add: writeError_def writeJSON_def\<close>)
qed

text \<open>The demonstration request is granted; what recorded its lease was its own work.\<close>

theorem work_authorised_witness:
  "\<exists>us op key req t a. own_work (\<lambda>_. None) [Issue [''app''] (Inr (t, a))] op (SetLease (leaseStateKey ''host'' ''vol'') a (Inr ())) \<and>
     well_formed demo_deps req \<and> key_signed demo_deps req op key \<and> nonce_spent us op"
proof -
  obtain us where us: "conc_run demo_deps ([], demo_server) us
      ([Finished (fst (handleIssue demo_deps demo_inbound demo_server))], snd (handleIssue demo_deps demo_inbound demo_server))"
    using demo_flight_run by blast
  obtain t a where "st_log (snd (handleIssue demo_deps demo_inbound demo_server)) =
      [HostKey ''host'' (Inr demo_key), Issue [''app''] (Inr (t, a))] @ SetLease (leaseStateKey ''host'' ''vol'') a (Inr ()) # []"
    using demo_log by auto
  note work_authorised [OF us demo_server_parts(3) this]
  moreover have "held (st_leases demo_server) = (\<lambda>_. None)"
    by (simp add: demo_server_parts demo_store_def held_def fun_eq_iff)
  ultimately show ?thesis by (fastforce simp: recorded_def)
qed

section \<open>Replays in flight\<close>

text \<open>
  C7: however requests interleave, two of them with the same host and nonce are admitted only if the
  clock, at a reading taken before the second is, had reached the expiry of the first one's entry:
  copies of a request in flight together are never both admitted. This holds for any clock and from
  any state, as long as the readings that requests in flight hold are readings of the past.
\<close>

theorem no_double_admission:
  assumes "nonce_inv (st_nonces s)" and "timed_past (fs0, s)" and "conc_run d (fs0, s) us (fs, s')"
    and "us = as @ (h, n, t, True) # bs @ [(h, n, t', True)]"
  shows "\<exists>i < st_ticks s'. t + ttl (st_nonces s) \<le> st_clock s' i"
proof (rule ccontr)
  assume "\<not> ?thesis"
  then have early: "past s' u \<Longrightarrow> u < t + ttl (st_nonces s)" for u
    by (auto simp: past_def not_le)
  have "faithful (fs0, s) us (fs, s')"
    using assms(3,2) by (rule conc_run_faithful)
  then have ans: "answered (st_nonces s) us" and past: "\<forall>(h, n, t, ok) \<in> set us. past s' t"
    by (simp_all add: faithful_def)
  let ?c = "use_all use_nonce (st_nonces s) (map plain_use as)"
  have life: "ttl (use_all use_nonce c vs) = ttl c" for c vs
    by (induction vs arbitrary: c) (auto simp: use_nonce_frame)
  have "fst (use_nonce ?c h n t)"
      and second: "fst (use_nonce (use_all use_nonce (snd (use_nonce ?c h n t)) (map plain_use bs)) h n t')"
    using ans unfolding assms(4) by (simp_all add: answered_append plain_use_def)
  moreover have "\<forall>(h', n', u) \<in> set (map plain_use bs). u < t + ttl ?c"
    using past early unfolding assms(4) life by (fastforce simp: plain_use_def)
  moreover have "t' < t + ttl ?c"
    using past early unfolding assms(4) life by simp
  ultimately show False
    using nonces.replay_refused [OF nonces.uses_inv [OF assms(1)]] by blast
qed

definition demo_op :: lease_op where
  "demo_op = IssueOp demo_issue"

definition demo_cache :: "nanos \<Rightarrow> nonce_cache" where
  "demo_cache expires =
     (newNonceCache (NonceTTL demo_config) (MaxRememberedNonce demo_config))\<lparr>entries :=
        [(nonce_key (op_host demo_op) (op_nonce demo_op), expires)]\<rparr>"

text \<open>A server whose clock has been read at zero and at the end of the window, by two copies in flight.\<close>

definition demo_window :: "unit server" where
  "demo_window =
     (newServer demo_config demo_store () (\<lambda>i. NonceTTL demo_config * int i) (\<lambda>_. demo_entropy))\<lparr>st_ticks := 2\<rparr>"

definition demo_copies :: "flight list" where
  "demo_copies = [Timed demo_op demo_key 0, Timed demo_op demo_key (NonceTTL demo_config)]"

lemma demo_copies_run:
  "conc_run demo_deps (demo_copies, demo_window)
     [(op_host demo_op, op_nonce demo_op, 0, True), (op_host demo_op, op_nonce demo_op, NonceTTL demo_config, True)]
     ([Admitted demo_op demo_key, Admitted demo_op demo_key],
      demo_window\<lparr>st_nonces := demo_cache (2 * NonceTTL demo_config)\<rparr>)"
proof -
  let ?T = "NonceTTL demo_config" and ?h = "op_host demo_op" and ?n = "op_nonce demo_op"
  let ?s1 = "demo_window\<lparr>st_nonces := demo_cache ?T\<rparr>"
  have use: "use_nonce (st_nonces demo_window) ?h ?n 0 = (True, demo_cache ?T)"
    "use_nonce (demo_cache ?T) ?h ?n ?T = (True, demo_cache (2 * ?T))"
    by (simp_all add: use_nonce_def demo_window_def newServer_def newNonceCache_def demo_cache_def purge_def
        gm_set_def gm_del_def gm_get_def Let_def demo_config_def)
  have "conc_step demo_deps (demo_copies, demo_window) [(?h, ?n, 0, True)]
      ([Admitted demo_op demo_key, Timed demo_op demo_key ?T], ?s1)"
    using advance [of 0 demo_copies demo_deps demo_window "Admitted demo_op demo_key" ?s1] use(1)
    by (simp add: uses_of_def demo_copies_def)
  moreover have "conc_step demo_deps ([Admitted demo_op demo_key, Timed demo_op demo_key ?T], ?s1) [(?h, ?n, ?T, True)]
      ([Admitted demo_op demo_key, Admitted demo_op demo_key], demo_window\<lparr>st_nonces := demo_cache (2 * ?T)\<rparr>)"
    using advance [of 1 "[Admitted demo_op demo_key, Timed demo_op demo_key ?T]" demo_deps ?s1
        "Admitted demo_op demo_key" "demo_window\<lparr>st_nonces := demo_cache (2 * ?T)\<rparr>"] use(2)
    by (simp add: uses_of_def)
  ultimately have "conc_run demo_deps (demo_copies, demo_window) (([] @ [(?h, ?n, 0, True)]) @ [(?h, ?n, ?T, True)])
      ([Admitted demo_op demo_key, Admitted demo_op demo_key], demo_window\<lparr>st_nonces := demo_cache (2 * ?T)\<rparr>)"
    by (rule more [OF more [OF idle]])
  then show ?thesis by simp
qed

theorem no_double_admission_witness:
  "\<exists>i < st_ticks demo_window. NonceTTL demo_config \<le> st_clock demo_window i"
proof -
  have "nonce_inv (st_nonces demo_window)" "ttl (st_nonces demo_window) = NonceTTL demo_config"
    by (simp_all add: demo_window_def newServer_def nonce_inv_new) (simp add: newNonceCache_def)
  moreover have "timed_past (demo_copies, demo_window)"
    by (auto simp: timed_past_def past_def demo_copies_def demo_window_def newServer_def intro: exI [of _ 0] exI [of _ 1])
  ultimately show ?thesis
    using no_double_admission [OF _ _ demo_copies_run, of "[]" _ _ 0 "[]"] by simp
qed

section \<open>No token is lost\<close>

text \<open>
  C3: no token is lost track of, however requests interleave. From the start of \<^verbatim>\<open>RunServe\<close> on,
  with any requests in flight together, renewals between their steps, any Vault and control
  plane, every accessor that Vault has issued and not confirmed as revoked is held in the lease
  store, unless its token was delivered to nobody and Vault failed to revoke it when asked; the
  nonce cache is within its limit; and a restart that loads the state file at all loads exactly the
  leases held, which it does if the state fits the loader's limit of 4 MiB. The state path must not
  end in \<^verbatim>\<open>.tmp\<close>.
\<close>

theorem interleaved_no_orphans:
  assumes "start_serve h args w = (Inr r, w')" and "\<not> has_suffix (StatePath (ru_config r)) ''.tmp''"
    and "conc_run (live_deps (ho_send h) parsers crypto pss media (ru_config r) (ru_vault r) (ru_platform r))
           ([], newServer (ru_config r) (ru_leases r) w' clock rnd) us (fs, s)"
  shows "outstanding (st_log s) \<subseteq> ran (held (st_leases s)) \<union> (undelivered (st_log s) \<inter> given_up (st_log s)) \<and>
     length (entries (st_nonces s)) \<le> nat (maximum (st_nonces s)) \<and>
     (restarted (st_leases s) = None \<or> restarted (st_leases s) = Some (held (st_leases s))) \<and>
     (state_fits (st_leases s) \<longrightarrow> restarted (st_leases s) = Some (held (st_leases s)))"
proof -
  obtain config state where parsed: "ParseConfig (ho_getenv h) (ho_files h) (ho_parse_url h) args = Inr config"
    and conf: "ru_config r = config\<lparr>VaultToken := ''''\<rparr>"
    and load: "loadStateStore (ho_lstat_ok h) (ho_read_ok h) (StatePath config) (ho_os h) = Inr state"
    and leases: "ru_leases r = (state, ho_os h)"
    using start_serve_running [OF assms(1)] by blast
  have "validStatePath (StatePath config) = Inr ()"
    using ParseConfig_valid [OF parsed] by (simp add: validate_config_iff)
  then have inv: "lease_state_inv (ru_leases r)"
    using load_inv [OF state_path_file load] assms(2) conf leases by simp
  have "server_inv s \<and> accounted [] {} s"
    by (rule live.conc_run_inv [OF assms(3), unfolded snd_conv, OF newServer_inv [OF inv]]) simp_all
  then show ?thesis
    by (auto simp: server_inv_def accounted_def custody_def lease_state_inv_def nonce_inv_def)
qed

text \<open>The service started on the demonstration host, with one request arrived and the issuer renewed.\<close>

definition demo_service :: "running \<Rightarrow> unit deps" where
  "demo_service r = live_deps demo_reply
     \<lparr>pem_decode = \<lambda>c. None, parse_pkcs1 = \<lambda>d. None, parse_pkix = \<lambda>d. None, parse_certificate = \<lambda>d. None\<rparr>
     demo_crypto (\<lambda>k d s. False) (\<lambda>m. Some m) (ru_config r) (ru_vault r) (ru_platform r)"

definition demo_started :: "running \<Rightarrow> unit server" where
  "demo_started r = newServer (ru_config r) (ru_leases r) () (\<lambda>_. demo_now) (\<lambda>_. demo_entropy)"

lemma demo_service_run:
  "conc_run (demo_service r) ([], demo_started r) (([] @ []) @ [])
     ([Waiting demo_inbound], renewal_tick (demo_service r) (demo_started r))"
  using more [OF more [OF idle arrive] renewal, of "demo_service r" "[]" "demo_started r" demo_inbound] by simp

theorem interleaved_no_orphans_witness:
  "\<exists>r. start_serve demo_host [] () = (Inr r, ()) \<and>
     (let s = renewal_tick (demo_service r) (demo_started r)
      in outstanding (st_log s) \<subseteq> ran (held (st_leases s)) \<union> (undelivered (st_log s) \<inter> given_up (st_log s)) \<and> length (entries (st_nonces s)) \<le> nat (maximum (st_nonces s)))"
proof -
  obtain r where r: "start_serve demo_host [] () = (Inr r, ())" "StatePath (ru_config r) = StatePath demo_parsed"
    using demo_start by fastforce
  have "ho_send demo_host = demo_reply" by (simp add: demo_host_def)
  with interleaved_no_orphans [OF r(1), unfolded r(2), OF demo_started_path(3)] demo_service_run [of r]
  show ?thesis unfolding Let_def demo_service_def demo_started_def using r(1) by metis
qed

end
