(* ===== verification/Ledger.thy ===== *)
theory Ledger
  imports Authority
begin

text \<open>
  What the bridge promises its clients: an abstract ledger of leases, whose operations are atomic,
  one for each answer (\<^verbatim>\<open>handleIssue\<close>, \<^verbatim>\<open>handleRevoke\<close> in \<^verbatim>\<open>internal/broker/server.go\<close>) and one for an
  operation that a crash interrupts. The service with its interleaved requests, its cache, clock,
  file and upstreams is a run of the ledger.
\<close>

section \<open>The ledger\<close>

text \<open>The accessor on record for each volume, and the accessors of the tokens in force.\<close>

record ledger =
  on_record :: "bytes \<Rightarrow> bytes option"
  in_force :: "bytes set"

text \<open>What becomes of an operation: it is answered with a status, or the process dies in it.\<close>

datatype outcome = Answered lease_op nat | Interrupted lease_op

text \<open>The tokens in force without the one of the operation's volume.\<close>

definition without :: "lease_op \<Rightarrow> ledger \<Rightarrow> bytes set" where
  "without op l = in_force l - set_option (on_record l (op_key op))"

text \<open>
  An operation and its answer. A lease is granted: the new token takes the place of the volume's
  earlier one, on record and in force. It is refused by Vault: nothing is recorded, the earlier token
  may be out of force. It is abandoned: a token was issued but not delivered, and may be in force. It
  is released: it is off the record and out of force. It is not released: Vault did not confirm, and
  nothing changes, or the record could not be written.

  An operation that is not answered, for a crash, may have had no effect but that the volume's
  earlier token is out of force; an issue may have left an unrecorded token, or all of its effect;
  and a revocation all of its effect.
\<close>

inductive ledger_step :: "ledger \<Rightarrow> outcome \<Rightarrow> ledger \<Rightarrow> bool" where
  granted: "ledger_step l (Answered (IssueOp q) 200)
      \<lparr>on_record = (on_record l)(op_key (IssueOp q) \<mapsto> a), in_force = insert a (without (IssueOp q) l)\<rparr>"
| refused: "tokens \<in> {in_force l, without (IssueOp q) l} \<Longrightarrow>
    ledger_step l (Answered (IssueOp q) 502) (l\<lparr>in_force := tokens\<rparr>)"
| abandoned: "tokens \<in> {insert a (without (IssueOp q) l), without (IssueOp q) l - {a}} \<Longrightarrow>
    ledger_step l (Answered (IssueOp q) 500) (l\<lparr>in_force := tokens\<rparr>)"
| released: "ledger_step l (Answered (RevokeOp q) 204)
      \<lparr>on_record = (on_record l)(op_key (RevokeOp q) := None), in_force = without (RevokeOp q) l\<rparr>"
| unconfirmed: "ledger_step l (Answered (RevokeOp q) 502) l"
| unrecorded: "ledger_step l (Answered (RevokeOp q) 500) (l\<lparr>in_force := without (RevokeOp q) l\<rparr>)"
| cut_before: "tokens \<in> {in_force l, without op l} \<Longrightarrow> ledger_step l (Interrupted op) (l\<lparr>in_force := tokens\<rparr>)"
| cut_unrecorded: "tokens \<in> {insert a (without (IssueOp q) l), without (IssueOp q) l - {a}} \<Longrightarrow>
    ledger_step l (Interrupted (IssueOp q)) (l\<lparr>in_force := tokens\<rparr>)"
| cut_granted: "ledger_step l (Interrupted (IssueOp q))
      \<lparr>on_record = (on_record l)(op_key (IssueOp q) \<mapsto> a), in_force = insert a (without (IssueOp q) l)\<rparr>"
| cut_released: "ledger_step l (Interrupted (RevokeOp q))
      \<lparr>on_record = (on_record l)(op_key (RevokeOp q) := None), in_force = without (RevokeOp q) l\<rparr>"

inductive ledger_run :: "ledger \<Rightarrow> outcome list \<Rightarrow> ledger \<Rightarrow> bool" where
  none: "ledger_run l [] l"
| some: "ledger_run l os l' \<Longrightarrow> ledger_step l' x l'' \<Longrightarrow> ledger_run l (os @ [x]) l''"

lemma ledger_run_append: "ledger_run l2 os' l3 \<Longrightarrow> ledger_run l1 os l2 \<Longrightarrow> ledger_run l1 (os @ os') l3"
  by (induction rule: ledger_run.induct) (auto intro: some simp flip: append_assoc)

lemma ledger_run_one: "ledger_step l x l' \<Longrightarrow> ledger_run l [x] l'"
  using some [OF none] by fastforce

text \<open>
  Whether there is a lease on record for a volume: what may be, given what may have been before.
  An answer that granted or released a lease of the volume decides it; an interrupted operation on
  the volume leaves it open. The outcomes that bear on a volume are the decisive ones and these.
\<close>

fun may_hold :: "bytes \<Rightarrow> bool set \<Rightarrow> outcome \<Rightarrow> bool set" where
  "may_hold key bs (Answered op status) =
     (if op_key op = key \<and> status = 200 then {True} else if op_key op = key \<and> status = 204 then {False} else bs)"
| "may_hold key bs (Interrupted (IssueOp q)) = (if op_key (IssueOp q) = key then insert True bs else bs)"
| "may_hold key bs (Interrupted (RevokeOp q)) = (if op_key (RevokeOp q) = key then insert False bs else bs)"

fun bears_on :: "bytes \<Rightarrow> outcome \<Rightarrow> bool" where
  "bears_on key (Answered op status) = (op_key op = key \<and> status \<in> {200, 204})"
| "bears_on key (Interrupted op) = (op_key op = key)"

definition bearing :: "bytes \<Rightarrow> outcome list \<Rightarrow> outcome list" where
  "bearing key os = filter (bears_on key) os"

lemma bearing_simps [simp]: "bearing key [] = []" "bearing key (os @ os') = bearing key os @ bearing key os'"
  by (simp_all add: bearing_def)

lemma may_hold_cut: "b \<in> bs \<Longrightarrow> b \<in> may_hold key bs (Interrupted op)"
  by (cases op) simp_all

lemma ledger_step_holds:
  assumes "ledger_step l x l'"
  shows "(on_record l key \<noteq> None) \<in> bs \<Longrightarrow> (on_record l' key \<noteq> None) \<in> may_hold key bs x"
    and "\<not> bears_on key x \<Longrightarrow> on_record l' key = on_record l key"
    and "bears_on key (Answered op status) \<Longrightarrow> x = Answered op status \<Longrightarrow> (on_record l' key \<noteq> None) = (status = 200)"
  using assms by (induction rule: ledger_step.induct) (auto intro: may_hold_cut split: if_splits)

text \<open>What a run of the ledger says of a volume's lease.\<close>

lemma ledger_run_holds:
  "ledger_run l os l' \<Longrightarrow>
     (bearing key os = [] \<longrightarrow> on_record l' key = on_record l key) \<and>
     (\<forall>os' op status. bearing key os = os' @ [Answered op status] \<longrightarrow> (on_record l' key \<noteq> None) = (status = 200)) \<and>
     (on_record l' key \<noteq> None) \<in> foldl (may_hold key) {on_record l key \<noteq> None} os"
proof (induction rule: ledger_run.induct)
  case (some l os l' x l'')
  note step = ledger_step_holds [OF some.hyps(2), of key]
  show ?case
  proof (cases "bears_on key x")
    case True
    then show ?thesis using some.IH step(1,3) by (auto simp: bearing_def)
  next
    case False
    then show ?thesis using some.IH step(1,2) by (auto simp: bearing_def)
  qed
qed simp

section \<open>One locked section\<close>

text \<open>The ledger that a server implements, after the events \<open>past_es\<close> of earlier sessions.\<close>

definition ledger_of :: "event list \<Rightarrow> 'w server \<Rightarrow> ledger" where
  "ledger_of past_es s = \<lparr>on_record = leases_of s, in_force = outstanding (past_es @ st_log s)\<rparr>"

lemma ledger_of_log:
  "st_log s' = st_log s @ es \<Longrightarrow>
     ledger_of past_es s' = \<lparr>on_record = leases_of s', in_force = foldl outstanding_step (in_force (ledger_of past_es s)) es\<rparr>"
  by (simp add: ledger_of_def outstanding_append)

lemma status_simps [simp]: "o_status (writeError n) = n" "o_status (writeJSON n b) = n" "o_status no_content = 204"
  by (simp_all add: writeError_def writeJSON_def no_content_def)

lemma outstanding_pre:
  assumes "lease_state_inv (st_leases s)" and "key = op_key op"
    and "pre = (if store_accessor (fst (st_leases s)) key = '''' then []
      else [Revoke (store_accessor (fst (st_leases s)) key) (Inr ())])"
  shows "foldl outstanding_step (in_force (ledger_of past_es s)) pre = without op (ledger_of past_es s)"
  using previous_held [OF assms(1), of key] assms(2,3) by (auto simp: without_def ledger_of_def)

lemma revoke_locked_ledger:
  assumes inv: "lease_state_inv (st_leases s)" and run: "revoke_locked d q s = (resp, s')"
  shows "ledger_step (ledger_of past_es s) (Answered (RevokeOp q) (o_status resp)) (ledger_of past_es s')"
  using run
proof (cases rule: revoke_locked_cases)
  case absent
  then have "leases_of s (op_key (RevokeOp q)) = None"
    using store_accessor_held(1) [OF inv] by simp
  then have "ledger_of past_es s = \<lparr>on_record = (on_record (ledger_of past_es s))(op_key (RevokeOp q) := None),
      in_force = without (RevokeOp q) (ledger_of past_es s)\<rparr>"
    by (simp add: ledger_of_def without_def fun_upd_idem)
  with released [of "ledger_of past_es s" q] show ?thesis using absent by simp
next
  case (stuck e)
  then have "ledger_of past_es s' = ledger_of past_es s" by (simp add: ledger_of_def outstanding_append)
  then show ?thesis using stuck unconfirmed by simp
next
  case (unsaved e)
  then have "ledger_of past_es s' = (ledger_of past_es s)\<lparr>in_force := without (RevokeOp q) (ledger_of past_es s)\<rparr>"
    using outstanding_pre [OF inv refl refl, where op = "RevokeOp q" and past_es = past_es] drop_lease_held(2) [OF inv unsaved(3)]
    by (simp add: ledger_of_def outstanding_append)
  then show ?thesis using unsaved unrecorded by simp
next
  case dropped
  then have "ledger_of past_es s' = \<lparr>on_record = (on_record (ledger_of past_es s))(op_key (RevokeOp q) := None),
      in_force = without (RevokeOp q) (ledger_of past_es s)\<rparr>"
    using outstanding_pre [OF inv refl refl, where op = "RevokeOp q" and past_es = past_es] drop_lease_held(2) [OF inv dropped(3)]
    by (simp add: ledger_of_def outstanding_append)
  then show ?thesis using dropped released by simp
qed

context vault_contract
begin

lemma issue_locked_ledger:
  assumes d: "d_vault d = vault" and inv: "lease_state_inv (st_leases s)"
    and run: "issue_locked d pk q s = (resp, s')"
  shows "ledger_step (ledger_of past_es s) (Answered (IssueOp q) (o_status resp)) (ledger_of past_es s')"
proof -
  have same: "st_leases s' = st_leases s \<Longrightarrow> st_log s' = st_log s @ es \<Longrightarrow>
      ledger_of past_es s' = (ledger_of past_es s)\<lparr>in_force := foldl outstanding_step (in_force (ledger_of past_es s)) es\<rparr>" for es
    using ledger_of_log [of s' s es past_es] by (simp add: ledger_of_def)
  note pre = outstanding_pre [OF inv, where op = "IssueOp q" and past_es = past_es, OF refl, unfolded op_key.simps]
  from run show ?thesis
  proof (cases rule: issue_locked_cases)
    case (stuck e)
    then have "ledger_of past_es s' = (ledger_of past_es s)\<lparr>in_force := in_force (ledger_of past_es s)\<rparr>"
      by (simp add: ledger_of_def outstanding_append)
    then show ?thesis using stuck(2) refused [of "in_force (ledger_of past_es s)" "ledger_of past_es s" q] by simp
  next
    case (refused e pre)
    then show ?thesis using same [OF refused(3,4)] pre [OF refused(1)] ledger_step.refused by simp
  next
    case (unsealed pre t a r w w')
    then show ?thesis
      using same [OF unsealed(4,5)] pre [OF unsealed(1)] abandoned [of _ a q "ledger_of past_es s"] by simp
  next
    case (unsaved pre t a e r w w')
    have "leases_of s' = leases_of s"
      using issue_locked_effect(2) [OF d inv run] unsaved(4) by simp
    then have "ledger_of past_es s' = (ledger_of past_es s)\<lparr>in_force := in_force (ledger_of past_es s')\<rparr>"
      by (simp add: ledger_of_def)
    then show ?thesis
      using unsaved pre [OF unsaved(1)] abandoned [of "in_force (ledger_of past_es s')" a q "ledger_of past_es s"]
      by (simp add: ledger_of_def outstanding_append)
  next
    case (granted pre t a rec w w')
    have "valid_utf8 a" using issue_wf granted(2) d by blast
    then have "leases_of s' = (leases_of s)(op_key (IssueOp q) \<mapsto> a)"
      using put_lease_effect [OF inv lease_key_ok_state _ granted(3)] by simp
    then have "ledger_of past_es s' = \<lparr>on_record = (on_record (ledger_of past_es s))(op_key (IssueOp q) \<mapsto> a),
        in_force = insert a (without (IssueOp q) (ledger_of past_es s))\<rparr>"
      using granted(6) pre [OF granted(1)] by (simp add: ledger_of_def outstanding_append)
    then show ?thesis using granted(5) ledger_step.granted by simp
  qed
qed

end

section \<open>The service\<close>

text \<open>
  The answers given in a step, read off the requests in flight before and after it, and the runs of
  the service with the answers they give.
\<close>

definition answer_of :: "flight \<Rightarrow> flight \<Rightarrow> outcome list" where
  "answer_of f f' =
     (case (f, f') of (Admitted op key, Finished resp) \<Rightarrow> [Answered op (o_status resp)] | _ \<Rightarrow> [])"

definition answers :: "flight list \<Rightarrow> flight list \<Rightarrow> outcome list" where
  "answers fs fs' = concat (map2 answer_of fs fs')"

inductive service_run :: "'w deps \<Rightarrow> 'w service \<Rightarrow> outcome list \<Rightarrow> 'w service \<Rightarrow> bool" for d where
  rest: "service_run d c [] c"
| step: "service_run d c os c' \<Longrightarrow> conc_step d c' us c'' \<Longrightarrow> service_run d c (os @ answers (fst c') (fst c'')) c''"

lemma service_run_conc: "service_run d c os c' \<Longrightarrow> \<exists>us. conc_run d c us c'"
  by (induction rule: service_run.induct) (blast intro: idle more)+

lemma service_run_append: "service_run d c2 os' c3 \<Longrightarrow> service_run d c1 os c2 \<Longrightarrow> service_run d c1 (os @ os') c3"
  by (induction rule: service_run.induct) (auto intro: step simp flip: append_assoc)

lemma service_step: "conc_step d c us c' \<Longrightarrow> service_run d c (answers (fst c) (fst c')) c'"
  using step [OF rest] by fastforce

text \<open>A request alone gives no answer before it is answered.\<close>

lemma fly_unanswered:
  "fly d n f s = (f', s') \<Longrightarrow> \<nexists>resp. f' = Finished resp \<Longrightarrow> service_run d ([f], s) [] ([f'], s')"
proof (induction n arbitrary: f s)
  case (Suc n)
  show ?case
  proof (cases "flight_step d f s")
    case None
    then show ?thesis using Suc.prems rest by auto
  next
    case (Some fs1)
    then obtain f1 s1 where step1: "flight_step d f s = Some (f1, s1)" by (cases fs1) auto
    then have f1: "fly d n f1 s1 = (f', s')" using Suc.prems(1) by simp
    then have "\<nexists>resp. f1 = Finished resp" using Suc.prems(2) by auto
    then have "answers [f] [f1] = []"
      by (cases f; cases f1) (simp_all add: answers_def answer_of_def)
    then have "service_run d ([f], s) [] ([f1], s1)"
      using service_step [OF advance [of 0 "[f]" d s f1 s1]] step1 by simp
    from service_run_append [OF Suc.IH [OF f1 Suc.prems(2)] this] show ?thesis by simp
  qed
qed (auto intro: rest)

lemma answer_of_same [simp]: "answer_of f f = []"
  by (cases f) (simp_all add: answer_of_def)

lemma answers_none: "\<forall>i < length fs. i < length fs' \<longrightarrow> answer_of (fs ! i) (fs' ! i) = [] \<Longrightarrow> answers fs fs' = []"
proof (induction fs arbitrary: fs')
  case (Cons f fs)
  show ?case
  proof (cases fs')
    case (Cons f' gs)
    with Cons.prems have "answer_of f f' = []" and "\<forall>i < length fs. i < length gs \<longrightarrow> answer_of (fs ! i) (gs ! i) = []"
      by (fastforce dest: spec [of _ 0], fastforce dest: spec [of _ "Suc _"])
    with Cons Cons.IH [of gs] show ?thesis by (simp add: answers_def)
  qed (simp add: answers_def)
qed (simp add: answers_def)

lemma answers_update: "i < length fs \<Longrightarrow> answers fs (fs[i := f']) = answer_of (fs ! i) f'"
proof (induction fs arbitrary: i)
  case (Cons f fs)
  have "answers fs fs = []" by (rule answers_none) simp
  then show ?case using Cons by (cases i) (simp_all add: answers_def)
qed simp

lemma answer_of_kept: "(\<And>op key. f = Admitted op key \<Longrightarrow> f' = f) \<Longrightarrow> answer_of f f' = []"
  by (cases f) (auto simp: answer_of_def)

context bridge
begin

lemma conc_step_ledger:
  assumes "conc_step d (fs, s) us (fs', s')" and "lease_state_inv (st_leases s)"
  shows "ledger_run (ledger_of past_es s) (answers fs fs') (ledger_of past_es s')"
  using assms(1)
proof (cases rule: conc_step_kinds)
  case (quiet es)
  then have "answers fs fs' = []" by (intro answers_none allI impI answer_of_kept) blast
  moreover have "ledger_of past_es s' = ledger_of past_es s"
    using quiet(1,2) silent_folds(1) [OF quiet(3)] by (simp add: ledger_of_def outstanding_append)
  ultimately show ?thesis using none by simp
next
  case (issue i q key resp)
  then have "answers fs fs' = [] @ [Answered (IssueOp q) (o_status resp)]"
    by (simp add: answers_update answer_of_def)
  then show ?thesis
    using some [OF none issue_locked_ledger [OF refl assms(2) issue(4)]] by simp
next
  case (revoke i q key resp)
  then have "answers fs fs' = [] @ [Answered (RevokeOp q) (o_status resp)]"
    by (simp add: answers_update answer_of_def)
  then show ?thesis
    using some [OF none revoke_locked_ledger [OF assms(2) revoke(4)]] by simp
qed

end

context bridge
begin

lemma service_run_ledger:
  assumes "service_run d c os c'" and "server_inv (snd c) \<and> accounted past_es lost (snd c)"
  shows "ledger_run (ledger_of past_es (snd c)) os (ledger_of past_es (snd c'))"
  using assms
proof (induction rule: service_run.induct)
  case (step c os c' us c'')
  obtain vs where "conc_run d c vs c'" using service_run_conc [OF step.hyps(1)] by blast
  from conc_run_inv [OF this step.prems] have "lease_state_inv (st_leases (snd c'))"
    by (simp add: server_inv_def)
  then have "ledger_run (ledger_of past_es (snd c')) (answers (fst c') (fst c'')) (ledger_of past_es (snd c''))"
    using conc_step_ledger [of "fst c'" "snd c'" us "fst c''" "snd c''"] step.hyps(2) by simp
  with ledger_run_append step.IH [OF step.prems] show ?case by blast
qed (simp add: none)

end

text \<open>
  A step that a crash interrupts: the answer it would have given is not given, and what the next
  start recovers is on record in a state of the ledger after the interrupted operation.
\<close>

fun cut_off :: "outcome \<Rightarrow> outcome" where
  "cut_off (Answered op status) = Interrupted op"
| "cut_off (Interrupted op) = Interrupted op"

lemma with_tokens: "l\<lparr>in_force := tokens\<rparr> = \<lparr>on_record = on_record l, in_force = tokens\<rparr>"
  by (rule ledger.equality) simp_all

lemma cut_tokens:
  assumes "tokens \<in> {in_force l, without op l}"
  shows "ledger_step l (Interrupted op) \<lparr>on_record = on_record l, in_force = tokens\<rparr>"
  using cut_before [OF assms] unfolding with_tokens .

lemma cut_revoke_ledger:
  assumes "cut_revoke acc (op_key (RevokeOp q)) (on_record l) fs m"
    and acc: "set_option (on_record l (op_key (RevokeOp q))) = (if acc = '''' then {} else {acc})"
  shows "ledger_step l (Interrupted (RevokeOp q)) \<lparr>on_record = m, in_force = foldl outstanding_step (in_force l) fs\<rparr>"
  using assms(1)
proof cases
  case begun
  then show ?thesis using cut_tokens by simp
next
  case (asked r)
  then show ?thesis
    using acc cut_tokens [of "if is_ok r then in_force l - {acc} else in_force l" l "RevokeOp q"] by (simp add: without_def)
next
  case removing
  then show ?thesis using acc cut_released [of l q] by (simp add: without_def)
next
  case (removed r)
  then show ?thesis
    using acc cut_released [of l q] cut_tokens [of "in_force l - {acc}" l "RevokeOp q"] by (simp add: without_def)
qed

lemma cut_issue_ledger:
  assumes "cut_issue prev (op_key (IssueOp q)) ps (on_record l) fs m"
    and prev: "set_option (on_record l (op_key (IssueOp q))) = (if prev = '''' then {} else {prev})"
  shows "ledger_step l (Interrupted (IssueOp q)) \<lparr>on_record = m, in_force = foldl outstanding_step (in_force l) fs\<rparr>"
proof -
  let ?w = "without (IssueOp q) l"
  have pre: "foldl outstanding_step (in_force l) pre = ?w" if "pre = (if prev = '''' then [] else [Revoke prev (Inr ())])" for pre
    using prev that by (simp add: without_def)
  have unrecorded: "ledger_step l (Interrupted (IssueOp q)) \<lparr>on_record = on_record l, in_force = tokens\<rparr>"
    if "tokens \<in> {insert a ?w, ?w - {a}}" for a tokens
    using cut_unrecorded [OF that] unfolding with_tokens .
  have fresh: "(if is_ok r then insert a ?w - {a} else insert a ?w) \<in> {insert a ?w, ?w - {a}}" for a and r :: "unit result"
    by auto
  from assms(1) show ?thesis
  proof cases
    case begun
    then show ?thesis using cut_tokens by simp
  next
    case (asked r)
    then show ?thesis
      using prev cut_tokens [of "if is_ok r then in_force l - {prev} else in_force l" l "IssueOp q"] by (simp add: without_def)
  next
    case (denied pre e)
    then show ?thesis using pre [OF denied(3)] cut_tokens by simp
  next
    case (issued pre a t)
    then show ?thesis using pre [OF issued(2)] unrecorded [of "insert a ?w" a] cut_granted [of l q a] by auto
  next
    case (unsealed pre t a r)
    then show ?thesis using pre [OF unsealed(3)] unrecorded [OF fresh] by simp
  next
    case (stored pre r a t)
    then show ?thesis using pre [OF stored(2)] unrecorded [of "insert a ?w" a] cut_granted [of l q a] by auto
  next
    case (unsaved pre t a e r)
    then show ?thesis using pre [OF unsaved(3)] unrecorded [OF fresh] by simp
  qed
qed

context bridge
begin

lemma conc_step_cut:
  assumes "conc_step d (fs, s) us (fs', s')" and inv: "lease_state_inv (st_leases s)"
    and moment: "(gs, ns) \<in> set (crash_moments s s')" "recovered (s_path (fst (st_leases s))) ns = Some m"
  shows "ledger_run (ledger_of past_es s) (map cut_off (answers fs fs'))
     \<lparr>on_record = m, in_force = outstanding (past_es @ gs)\<rparr>"
  using assms(1)
proof (cases rule: conc_step_kinds)
  case (quiet es)
  have "answers fs fs' = []" using quiet(4) by (intro answers_none allI impI answer_of_kept) blast
  moreover have "list_all (\<lambda>e. \<not> store_call e) es" using quiet(3) silent_no_call by (auto simp: list_all_iff)
  then obtain hs where "gs = st_log s @ hs" "prefix hs es" "m = leases_of s"
    by (rule quiet_moment [OF inv quiet(1,2) _ moment])
  then have "\<lparr>on_record = m, in_force = outstanding (past_es @ gs)\<rparr> = ledger_of past_es s"
    using quiet(3) silent_folds(1) [of hs] by (auto simp: ledger_of_def prefix_def outstanding_append)
  ultimately show ?thesis using none by simp
next
  case (issue i q key resp)
  have ans: "map cut_off (answers fs fs') = [Interrupted (IssueOp q)]"
    using issue by (simp add: answers_update answer_of_def)
  obtain hs where log: "gs = st_log s @ hs" and cut: "cut_issue (store_accessor (fst (st_leases s)) (op_key (IssueOp q)))
      (op_key (IssueOp q)) (i_policies q) (on_record (ledger_of past_es s)) hs m"
    using issue_cut [OF refl inv issue(4) moment] by (auto simp: ledger_of_def)
  have "set_option (on_record (ledger_of past_es s) k) = (if store_accessor (fst (st_leases s)) k = '''' then {} else {store_accessor (fst (st_leases s)) k})" for k
    using previous_held [OF inv] by (simp add: ledger_of_def)
  from ledger_run_one [OF cut_issue_ledger [OF cut this]] show ?thesis
    unfolding ans log by (simp add: ledger_of_def outstanding_append)
next
  case (revoke i q key resp)
  have ans: "map cut_off (answers fs fs') = [Interrupted (RevokeOp q)]"
    using revoke by (simp add: answers_update answer_of_def)
  obtain hs where log: "gs = st_log s @ hs" and cut: "cut_revoke (store_accessor (fst (st_leases s)) (op_key (RevokeOp q)))
      (op_key (RevokeOp q)) (on_record (ledger_of past_es s)) hs m"
    using revoke_cut [OF inv revoke(4) moment] by (auto simp: ledger_of_def)
  have "set_option (on_record (ledger_of past_es s) k) = (if store_accessor (fst (st_leases s)) k = '''' then {} else {store_accessor (fst (st_leases s)) k})" for k
    using previous_held [OF inv] by (simp add: ledger_of_def)
  from ledger_run_one [OF cut_revoke_ledger [OF cut this]] show ?thesis
    unfolding ans log by (simp add: ledger_of_def outstanding_append)
qed

end

end
