(* ===== verification/SessionProps.thy ===== *)
theory SessionProps
  imports ConcurrentProps ClientProps Ledger
begin

text \<open>
  The life of a deployment: sessions of the bridge one after another on the same state file, each
  ended by a stop or by a crash at any moment (\<^verbatim>\<open>internal/broker/server.go\<close>, \<^verbatim>\<open>state.go\<close>), and
  what is known of the tokens when the bridge starts again.
\<close>

section \<open>Sessions\<close>

text \<open>
  A session on the disk \<open>ns\<close> with the state file \<open>p\<close>: \<^verbatim>\<open>RunServe\<close> started, with any upstreams,
  libraries, clock and randomness, and the service with the dependencies \<open>d\<close> gave the answers \<open>os\<close>
  and ran to \<open>c\<close>.
\<close>

definition session :: "bytes \<Rightarrow> disk \<Rightarrow> 'w deps \<Rightarrow> outcome list \<Rightarrow> 'w service \<Rightarrow> bool" where
  "session p ns d os c \<longleftrightarrow>
     (\<exists>h args w r w' parsers crypto pss media clock rnd.
        start_serve h args w = (Inr r, w') \<and> nodes (ho_os h) = ns \<and> StatePath (ru_config r) = p \<and>
        d = live_deps (ho_send h) parsers crypto pss media (ru_config r) (ru_vault r) (ru_platform r) \<and>
        service_run d ([], newServer (ru_config r) (ru_leases r) w' clock rnd) os c)"

text \<open>The events of all the sessions so far, the disk they left, and how many of them crashed.\<close>

inductive lifetime :: "bytes \<Rightarrow> 'w itself \<Rightarrow> event list \<Rightarrow> disk \<Rightarrow> nat \<Rightarrow> bool" for p w where
  deployed: "lifetime p w [] ns 0"
| stopped: "lifetime p w es ns n \<Longrightarrow> session p ns (d :: 'w deps) os (fs, s) \<Longrightarrow>
    lifetime p w (es @ st_log s) (nodes (snd (st_leases s))) n"
| crashed: "lifetime p w es ns n \<Longrightarrow> session p ns (d :: 'w deps) os (fs, s) \<Longrightarrow> conc_step d (fs, s) us (fs', s') \<Longrightarrow>
    (es', ns') \<in> set (crash_moments s s') \<Longrightarrow> lifetime p w (es @ es') ns' (Suc n)"

lemma load_recovered:
  assumes "loadStateStore lst rd p s = Inr store"
  shows "recovered p (nodes s) = Some (gm_get (s_leases store))"
proof -
  have "reload p s = Inr store"
    using assms by (auto simp: reload_def loadStateStore_def split: option.splits node.splits if_splits)
  moreover have "reload p (at_rest (nodes s)) = reload p s"
    by (rule reload_cong) (simp add: at_rest_def)
  ultimately show ?thesis by (simp add: recovered_def)
qed

text \<open>A started service holds what it recovers, in a well-formed store.\<close>

lemma start_recovered:
  assumes "start_serve h args w = (Inr r, w')"
  shows "recovered (StatePath (ru_config r)) (nodes (ho_os h)) = Some (held (ru_leases r))"
    and "s_path (fst (ru_leases r)) = StatePath (ru_config r)"
    and "\<not> has_suffix (StatePath (ru_config r)) ''.tmp'' \<Longrightarrow> lease_state_inv (ru_leases r)"
proof -
  obtain config state where parsed: "ParseConfig (ho_getenv h) (ho_files h) (ho_parse_url h) args = Inr config"
    and conf: "ru_config r = config\<lparr>VaultToken := ''''\<rparr>"
    and load: "loadStateStore (ho_lstat_ok h) (ho_read_ok h) (StatePath config) (ho_os h) = Inr state"
    and leases: "ru_leases r = (state, ho_os h)"
    using start_serve_running [OF assms(1)] by blast
  show "recovered (StatePath (ru_config r)) (nodes (ho_os h)) = Some (held (ru_leases r))"
    using load_recovered [OF load] conf leases by (simp add: held_def)
  show "s_path (fst (ru_leases r)) = StatePath (ru_config r)"
    using load conf leases
    by (auto simp: loadStateStore_def split: option.splits node.splits if_splits)
  have "validStatePath (StatePath config) = Inr ()"
    using ParseConfig_valid [OF parsed] by (simp add: validate_config_iff)
  then show "\<not> has_suffix (StatePath (ru_config r)) ''.tmp'' \<Longrightarrow> lease_state_inv (ru_leases r)"
    using load_inv [OF state_path_file load] conf leases by simp
qed

text \<open>A session keeps the custody that the disk had when it started.\<close>

lemma session_custody:
  assumes "session p ns d os (fs, s)" and "\<not> has_suffix p ''.tmp''"
    and "\<And>m. recovered p ns = Some m \<Longrightarrow> \<exists>lost. finite lost \<and> card lost \<le> n \<and> custody es lost (ran m)"
  shows "s_path (fst (st_leases s)) = p \<and> server_inv s \<and> (\<exists>lost. finite lost \<and> card lost \<le> n \<and> accounted es lost s)"
proof -
  obtain h args w r w' parsers crypto pss media clock rnd where
    start: "start_serve h args w = (Inr r, w')" and ns: "nodes (ho_os h) = ns" and p: "StatePath (ru_config r) = p"
    and d: "d = live_deps (ho_send h) parsers crypto pss media (ru_config r) (ru_vault r) (ru_platform r)"
    and "service_run d ([], newServer (ru_config r) (ru_leases r) w' clock rnd) os (fs, s)"
    using assms(1) unfolding session_def by blast
  then obtain us where run: "conc_run d ([], newServer (ru_config r) (ru_leases r) w' clock rnd) us (fs, s)"
    using service_run_conc by blast
  note start' = start_recovered [OF start, unfolded p ns]
  obtain lost where lost: "finite lost" "card lost \<le> n" "custody es lost (ran (held (ru_leases r)))"
    using assms(3) [OF start'(1)] by blast
  from newServer_inv [OF start'(3) [OF assms(2)] lost(3)]
  have "server_inv (snd (fs, s)) \<and> accounted es lost (snd (fs, s))"
    by (intro live.conc_run_inv [OF run [unfolded d]]) simp
  moreover have "s_path (fst (st_leases s)) = p"
    using conc_run_path [OF run] start'(2) by (simp add: newServer_def)
  ultimately show ?thesis using lost by auto
qed

lemma session_live: "session p ns d os c \<Longrightarrow> bridge d"
  unfolding session_def using live.bridge_axioms by blast

lemma lifetime_custody:
  assumes "lifetime p w es ns n" and "\<not> has_suffix p ''.tmp''" and "recovered p ns = Some m"
  shows "\<exists>lost. finite lost \<and> card lost \<le> n \<and> custody es lost (ran m)"
  using assms(1,3)
proof (induction arbitrary: m rule: lifetime.induct)
  case (deployed ns)
  then show ?case by (intro exI [of _ "{}"]) simp
next
  case (stopped es ns n d os fs s)
  from session_custody [OF stopped.hyps(2) assms(2) stopped.IH]
  have "s_path (fst (st_leases s)) = p" "server_inv s" "\<exists>lost. finite lost \<and> card lost \<le> n \<and> accounted es lost s"
    by auto
  then show ?case
    using recovered_held [of "st_leases s" m] stopped.prems by (auto simp: accounted_def server_inv_def)
next
  case (crashed es ns n d os fs s us fs' s' es' ns')
  from session_custody [OF crashed.hyps(2) assms(2) crashed.IH]
  obtain lost where s: "s_path (fst (st_leases s)) = p" "server_inv s" and lost: "finite lost" "card lost \<le> n"
      and acc: "accounted es lost s"
    by auto
  obtain a where "custody (es @ es') (insert a lost) (ran m)"
    using bridge.conc_step_moments [OF session_live [OF crashed.hyps(2)] crashed.hyps(3) s(2) acc] crashed.hyps(4) crashed.prems s(1)
    by (fastforce simp: list_all_iff safe_moment_def)
  moreover have "finite (insert a lost)" "card (insert a lost) \<le> Suc n"
    using lost by (simp_all add: card_insert_if)
  ultimately show ?case by blast
qed

section \<open>No token is lost but by a crash\<close>

text \<open>
  C4: over the whole life of a deployment, sessions that stop or crash at any moment and start again
  on the same state file, whose path does not end in \<^verbatim>\<open>.tmp\<close>, tokens are lost track of only by crashes, at most one by each. At every
  point of every session the accessors that Vault has issued in all the sessions so far and not
  confirmed as revoked are in the lease store, unless the token was delivered to nobody and Vault
  failed to revoke it when asked or it is the one that a crash lost.
\<close>

theorem sessions_keep_tokens:
  assumes "lifetime p w es ns n" and "\<not> has_suffix p ''.tmp''" and "session p ns d os (fs, s)"
  shows "\<exists>lost. finite lost \<and> card lost \<le> n \<and>
     outstanding (es @ st_log s) \<subseteq>
       ran (held (st_leases s)) \<union> (undelivered (es @ st_log s) \<inter> (given_up (es @ st_log s) \<union> lost))"
proof -
  obtain lost where lost: "finite lost" "card lost \<le> n" "accounted es lost s"
    using session_custody [OF assms(3,2) lifetime_custody [OF assms(1,2)]] by auto
  then have "outstanding (es @ st_log s) \<subseteq>
      ran (held (st_leases s)) \<union> (undelivered (es @ st_log s) \<inter> (given_up (es @ st_log s) \<union> lost))"
    by (auto simp: accounted_def custody_def)
  with lost show ?thesis by blast
qed

text \<open>A live bridge on the demonstration host; its libraries accept every key and signature.\<close>

definition demo_bridge :: "running \<Rightarrow> unit deps" where
  "demo_bridge r = live_deps demo_reply demo_parsers demo_crypto (\<lambda>k d s. True) (\<lambda>m. Some m)
     (ru_config r) (ru_vault r) (ru_platform r)"

definition demo_running :: "running \<Rightarrow> bool" where
  "demo_running r \<longleftrightarrow> start_serve demo_host [] () = (Inr r, ()) \<and> ru_config r = demo_parsed\<lparr>VaultToken := []\<rparr> \<and>
     ru_leases r = (\<lparr>s_path = StatePath demo_parsed, s_leases = []\<rparr>, demo_os) \<and> f_maxResponseBytes (ru_platform r) = 2097152"

lemma demo_runs: "\<exists>r. demo_running r"
  using demo_start by (auto simp: demo_running_def)

lemma demo_started_parts:
  assumes "demo_running r"
  shows "st_log (demo_started r) = []" "st_leases (demo_started r) = (\<lparr>s_path = StatePath demo_parsed, s_leases = []\<rparr>, demo_os)"
    "st_clock (demo_started r) = (\<lambda>_. demo_now)" "st_nonces (demo_started r) = newNonceCache (5 * minute) 10000"
  using assms by (simp_all add: demo_running_def demo_started_def newServer_def demo_parsed_def)

lemma demo_session:
  assumes "demo_running r" and "service_run (demo_bridge r) ([], demo_started r) os c"
  shows "session (StatePath demo_parsed) [] (demo_bridge r) os c"
proof -
  have "ho_send demo_host = demo_reply" "ho_os demo_host = demo_os" "nodes demo_os = []"
    by (simp_all add: demo_host_def demo_os_def)
  then show ?thesis
    using assms unfolding session_def demo_bridge_def demo_started_def demo_running_def by fastforce
qed

text \<open>A first session crashes while it renews the issuer token; a second one has started.\<close>

theorem sessions_keep_tokens_witness:
  "\<exists>r d (s :: unit server) lost. session (StatePath demo_parsed) [] d [] ([], s) \<and>
     lifetime (StatePath demo_parsed) TYPE(unit) [Renew r] [] 1 \<and> card lost \<le> 1 \<and>
     outstanding ([Renew r] @ st_log s) \<subseteq>
       ran (held (st_leases s)) \<union> (undelivered ([Renew r] @ st_log s) \<inter> (given_up ([Renew r] @ st_log s) \<union> lost))"
proof -
  obtain r where r: "demo_running r" using demo_runs by blast
  note session = demo_session [OF r rest]
  let ?s = "renewal_tick (demo_bridge r) (demo_started r)"
  obtain x where log: "st_leases ?s = st_leases (demo_started r)" "st_log ?s = st_log (demo_started r) @ [Renew x]"
    using tick_quiet by blast
  then have "([Renew x], []) \<in> set (crash_moments (demo_started r) ?s)"
    using demo_started_parts [OF r] by (simp add: crash_moments_def demo_os_def)
  from crashed [OF deployed session renewal this]
  have life: "lifetime (StatePath demo_parsed) TYPE(unit) [Renew x] [] 1" by simp
  from sessions_keep_tokens [OF life demo_started_path(3) session] life session show ?thesis by blast
qed

lemma nothing_recovered: "recovered p [] = Some (\<lambda>_. None)"
  by (simp add: recovered_def reload_def loadStateStore_def at_rest_def fun_eq_iff)

text \<open>
  The bound is met: between Vault's answer and the write of the state file there is a moment
  at which a crash loses a token that is live, was delivered to nobody and is on no record.
\<close>

lemma crash_loses_token:
  "\<exists>es ns m. (es, ns) \<in> set (crash_moments demo_server (snd (issue_locked demo_deps demo_key demo_issue demo_server))) \<and>
     recovered (StatePath demo_config) ns = Some m \<and> ''accessor'' \<in> outstanding es \<and> ''accessor'' \<notin> ran m \<union> given_up es"
proof -
  obtain resp s' where run: "issue_locked demo_deps demo_key demo_issue demo_server = (resp, s')"
    by (cases "issue_locked demo_deps demo_key demo_issue demo_server")
  have start: "st_log demo_server = []" "st_leases demo_server = demo_store" "nodes (snd demo_store) = []"
    by (simp_all add: demo_server_parts demo_store_def demo_os_def)
  have vault: "op_issue (d_vault demo_deps) ps w = (Inr (''token'', ''accessor''), w)" for ps w
    by (simp add: demo_deps_def demo_vault_def)
  let ?i = "Issue (i_policies demo_issue) (Inr (''token'', ''accessor''))"
  obtain r s2 where call: "call_issue demo_deps (i_policies demo_issue) demo_server = (r, s2)"
    by (cases "call_issue demo_deps (i_policies demo_issue) demo_server")
  with call_simps(3) have s2: "r = Inr (''token'', ''accessor'')" "st_log s2 = [Issue (i_policies demo_issue) r]"
    by (fastforce simp: vault start)+
  note s2 = call [unfolded s2(1)] s2(2) [unfolded s2(1)]
  have "keep_token demo_deps demo_key demo_issue (leaseStateKey (i_hostUUID demo_issue) (i_volumeName demo_issue))
      ''token'' ''accessor'' s2 = (resp, s')"
    using run by (simp add: issue_locked_stages start s2(1) store_accessor_def demo_store_def del: call_simps)
  then have "\<exists>es. st_log s' = ?i # es"
    by (cases rule: keep_token_cases) (simp_all add: s2(2))
  then have "([?i], []) \<in> set (crash_moments demo_server s')"
    by (cases "tl (st_log s')") (auto simp: crash_moments_def start)
  moreover note nothing_recovered [of "StatePath demo_config"]
  ultimately show ?thesis
    using run by (intro exI [of _ "[?i]"] exI [of _ "[]"] exI [of _ "\<lambda>_. None"]) (auto simp: outstanding_def)
qed

section \<open>The life of a deployment is a run of the ledger\<close>

text \<open>
  The whole life of a deployment, from the disk \<open>ns0\<close> on: sessions that stop or crash at any moment
  of any step, with the events, the disk left and what became of every operation. A stop may also be
  a crash: \<^verbatim>\<open>RunServe\<close> gives the requests in flight five seconds and then the process ends, within
  an operation if it is still running.
\<close>

inductive served :: "bytes \<Rightarrow> 'w itself \<Rightarrow> disk \<Rightarrow> event list \<Rightarrow> disk \<Rightarrow> outcome list \<Rightarrow> bool" for p w ns0 where
  fresh: "served p w ns0 [] ns0 []"
| ended: "served p w ns0 es ns os \<Longrightarrow> session p ns (d :: 'w deps) os' (fs, s) \<Longrightarrow>
    served p w ns0 (es @ st_log s) (nodes (snd (st_leases s))) (os @ os')"
| died: "served p w ns0 es ns os \<Longrightarrow> session p ns (d :: 'w deps) os' (fs, s) \<Longrightarrow> conc_step d (fs, s) us (fs', s') \<Longrightarrow>
    (es', ns') \<in> set (crash_moments s s') \<Longrightarrow>
    served p w ns0 (es @ es') ns' (os @ os' @ map cut_off (answers fs fs'))"

lemma served_lifetime: "served p w ns0 es ns os \<Longrightarrow> \<exists>n. lifetime p w es ns n"
  by (induction rule: served.induct) (blast intro: deployed stopped crashed)+

text \<open>A session is a run of the ledger, from what it recovered to what it holds.\<close>

lemma session_ledger:
  assumes "session p ns d os (fs, s)" and "\<not> has_suffix p ''.tmp''" and "lifetime p w es ns n"
  obtains m where "recovered p ns = Some m" "ledger_run \<lparr>on_record = m, in_force = outstanding es\<rparr> os (ledger_of es s)"
    "s_path (fst (st_leases s)) = p" "lease_state_inv (st_leases s)"
proof -
  obtain h args w r w' parsers crypto pss media clock rnd where
    start: "start_serve h args w = (Inr r, w')" and ns: "nodes (ho_os h) = ns" and p: "StatePath (ru_config r) = p"
    and d: "d = live_deps (ho_send h) parsers crypto pss media (ru_config r) (ru_vault r) (ru_platform r)"
    and run: "service_run d ([], newServer (ru_config r) (ru_leases r) w' clock rnd) os (fs, s)"
    using assms(1) unfolding session_def by blast
  note start' = start_recovered [OF start, unfolded p ns]
  obtain lost where "custody es lost (ran (held (ru_leases r)))"
    using lifetime_custody [OF assms(3,2) start'(1)] by blast
  from newServer_inv [OF start'(3) [OF assms(2)] this, of "ru_config r" w' clock rnd]
  have "ledger_run (ledger_of es (newServer (ru_config r) (ru_leases r) w' clock rnd)) os (ledger_of es s)"
    using live.service_run_ledger [OF run [unfolded d], where past_es = es and lost = lost] by simp
  moreover have "s_path (fst (st_leases s)) = p" "lease_state_inv (st_leases s)"
    using session_custody [OF assms(1,2) lifetime_custody [OF assms(3,2)]] by (auto simp: server_inv_def)
  ultimately show thesis using start'(1) that by (simp add: ledger_of_def newServer_def)
qed

lemma served_ledger:
  assumes "served p w ns0 es ns os" and "\<not> has_suffix p ''.tmp''"
    and "recovered p ns0 = Some m0" and "recovered p ns = Some m"
  shows "ledger_run \<lparr>on_record = m0, in_force = {}\<rparr> os \<lparr>on_record = m, in_force = outstanding es\<rparr>"
  using assms(1,4)
proof (induction arbitrary: m rule: served.induct)
  case fresh
  then show ?case using assms(3) none by (simp add: outstanding_def)
next
  case (ended es ns os d os' fs s)
  obtain n where "lifetime p w es ns n" using served_lifetime [OF ended.hyps(1)] by blast
  from session_ledger [OF ended.hyps(2) assms(2) this] obtain m1 where
    m1: "recovered p ns = Some m1" "ledger_run \<lparr>on_record = m1, in_force = outstanding es\<rparr> os' (ledger_of es s)"
    and s: "s_path (fst (st_leases s)) = p" "lease_state_inv (st_leases s)" .
  have "ledger_of es s = \<lparr>on_record = m, in_force = outstanding (es @ st_log s)\<rparr>"
    using recovered_held [OF s(2)] ended.prems s(1) by (simp add: ledger_of_def)
  then show ?case using ended.IH [OF m1(1)] ledger_run_append m1(2) by simp
next
  case (died es ns os d os' fs s us fs' s' es' ns')
  obtain n where "lifetime p w es ns n" using served_lifetime [OF died.hyps(1)] by blast
  from session_ledger [OF died.hyps(2) assms(2) this] obtain m1 where
    m1: "recovered p ns = Some m1" "ledger_run \<lparr>on_record = m1, in_force = outstanding es\<rparr> os' (ledger_of es s)"
    and s: "s_path (fst (st_leases s)) = p" "lease_state_inv (st_leases s)" .
  have "ledger_run (ledger_of es s) (map cut_off (answers fs fs')) \<lparr>on_record = m, in_force = outstanding (es @ es')\<rparr>"
    using bridge.conc_step_cut [OF session_live [OF died.hyps(2)] died.hyps(3) s(2) died.hyps(4)] died.prems s(1) by simp
  from ledger_run_append [OF this m1(2)] show ?case using ledger_run_append died.IH [OF m1(1)] by blast
qed

text \<open>
  C2: the service refines the ledger, over the whole life of a deployment whose state path does not
  end in \<^verbatim>\<open>.tmp\<close>. Whatever requests come, however they interleave, with any upstreams, clock and
  failing system calls, and across any number of sessions on the same state file that stop, or
  crash at any moment, also within an operation or a write of the file, what becomes of the
  operations is a run of the ledger: each answered operation takes effect at once and for all, as its
  answer says, and of an operation that a crash leaves unanswered there remains one of the few
  effects the ledger gives it. The run goes from the leases first recovered to the leases that the
  next start recovers (if it can load the state file), and its tokens in force are those that Vault
  has issued since and not confirmed as revoked.
\<close>

theorem service_refines_ledger:
  assumes "served p w ns0 es ns os" and "\<not> has_suffix p ''.tmp''"
    and "recovered p ns0 = Some m0" and "recovered p ns = Some m"
  shows "ledger_run \<lparr>on_record = m0, in_force = {}\<rparr> os \<lparr>on_record = m, in_force = outstanding es\<rparr>"
  by (rule served_ledger [OF assms])

text \<open>A signed request to revoke, answered by the live bridge.\<close>

lemma demo_key_found:
  assumes "demo_running r"
  shows "hostPublicKey demo_reply demo_parsers (ru_platform r) ''host'' w = (Inr demo_key, w)"
proof -
  have m: "0 \<le> f_maxResponseBytes (ru_platform r)" "int (length (json_encode True demo_document)) \<le> f_maxResponseBytes (ru_platform r)"
    using assms demo_document_length by (simp_all add: demo_running_def)
  have "find_field [''data''] ''initialized'' = None" "find_field [''data''] ''sealed'' = None"
    by (rule find_field_other; simp)+
  then have "decode_hosts (json_encode True demo_document) = Some [\<lparr>e_uuid = ''host'', e_state = ''active'', e_key_data = ''pem''\<rparr>]"
    unfolding decode_hosts_def demo_document_decodes
    by (simp add: demo_document_def decode_struct_def collection_fields_def set_hosts_def host_fields_def
        host_info_fields_def host_key_fields_def set_string_def no_host_def)
  then show ?thesis
    using m(2) demo_key_size(1) demo_names(1)
    unfolding hostPublicKey_answer [OF m(1)] host_answer_iff parseHostPublicKey_iff
    by (simp add: demo_reply_def demo_parsers_def parse_der_def trim_space_def trim_left_space_def)
qed

lemma demo_live_admitted:
  assumes "demo_running r"
  shows "\<exists>s. admit decode_revoke validate_revoke r_hostUUID r_nonce (demo_bridge r) demo_revoke_inbound (demo_started r) =
       (Inr (demo_revoke, demo_key), s) \<and> st_leases s = st_leases (demo_started r)"
proof -
  have cfg: "d_config (demo_bridge r) = demo_parsed\<lparr>VaultToken := []\<rparr>"
    using assms by (simp add: demo_bridge_def live_deps_def demo_running_def)
  have limits: "NonceTTL (d_config (demo_bridge r)) = NonceTTL demo_config" "MaxRequestBytes (d_config (demo_bridge r)) = 65536"
    by (simp_all add: cfg demo_parsed_def demo_config_def duration_defs)
  have "signed_by (demo_bridge r) demo_revoke_inbound (h_data demo_revoke_inbound) demo_key"
    using demo_signed
    by (simp add: signed_by_def demo_bridge_def live_deps_def demo_deps_def header_get_def header_values_def demo_revoke_inbound_def
        split: option.splits)
  moreover have "d_platform (demo_bridge r) (r_hostUUID demo_revoke) w = (Inr demo_key, w)" for w
    using demo_key_found [OF assms] by (simp add: demo_bridge_def live_deps_def demo_revoke_def)
  moreover have "well_formed (demo_bridge r) demo_revoke_inbound"
    using demo_revoke_well_formed limits(2)
    by (simp add: well_formed_def demo_deps_def demo_config_def) (simp add: demo_bridge_def live_deps_def)
  moreover have "validate_revoke demo_revoke (d_config (demo_bridge r)) = validate_revoke demo_revoke demo_config"
    by (simp add: validate_revoke_def limits fun_eq_iff)
  ultimately show ?thesis
    unfolding admit_ok using demo_revoke_decode demo_revoke_valid use_nonce_new [of 10000] demo_started_parts [OF assms] by simp
qed

lemma fly_admitted:
  assumes "admit decode_revoke validate_revoke r_hostUUID r_nonce d req s = (Inr (q, key), s1)"
    and "h_path req = ''/v1/leases/revoke''"
  shows "fly d (Suc (Suc (Suc (Suc 0)))) (Waiting req) s = (Admitted (RevokeOp q) key, s1)"
proof -
  have "fly d (Suc (Suc (Suc (Suc 0)))) (Waiting req) s =
      (case check_request decode_revoke validate_revoke RevokeOp d req s of (f, s1) \<Rightarrow> fly d (Suc (Suc (Suc 0))) f s1)"
    by (subst fly.simps(2)) (simp add: assms(2) del: fly.simps)
  also have "\<dots> = (Admitted (RevokeOp q) key, s1)"
    by (subst check_admit [where host = r_hostUUID and nonce = r_nonce]) (simp_all add: assms(1))
  finally show ?thesis .
qed

text \<open>A service with the request admitted, after no answer, and the step that answers it.\<close>

lemma demo_admitted_run:
  assumes "demo_running r"
  obtains s where "service_run (demo_bridge r) ([], demo_started r) [] ([Admitted (RevokeOp demo_revoke) demo_key], s)"
    "conc_step (demo_bridge r) ([Admitted (RevokeOp demo_revoke) demo_key], s) [] ([Finished no_content], s)"
    "nodes (snd (st_leases s)) = []"
proof -
  obtain s where s: "admit decode_revoke validate_revoke r_hostUUID r_nonce (demo_bridge r) demo_revoke_inbound (demo_started r) =
       (Inr (demo_revoke, demo_key), s)" "st_leases s = st_leases (demo_started r)"
    using demo_live_admitted [OF assms] by blast
  have "h_path demo_revoke_inbound = ''/v1/leases/revoke''" by (simp add: demo_revoke_inbound_def)
  from fly_unanswered [OF fly_admitted [OF s(1) this]]
  have "service_run (demo_bridge r) ([Waiting demo_revoke_inbound], demo_started r) [] ([Admitted (RevokeOp demo_revoke) demo_key], s)"
    by simp
  moreover have "service_run (demo_bridge r) ([], demo_started r) [] ([Waiting demo_revoke_inbound], demo_started r)"
    using service_step [OF arrive, of "demo_bridge r" "[]" "demo_started r" demo_revoke_inbound] by (simp add: answers_def)
  ultimately have run: "service_run (demo_bridge r) ([], demo_started r) [] ([Admitted (RevokeOp demo_revoke) demo_key], s)"
    using service_run_append by fastforce
  have "revoke_locked (demo_bridge r) demo_revoke s = (no_content, s)"
    using s(2) demo_started_parts(2) [OF assms] by (simp add: revoke_locked_def store_accessor_def)
  then have "conc_step (demo_bridge r) ([Admitted (RevokeOp demo_revoke) demo_key], s) [] ([Finished no_content], s)"
    using advance [of 0 "[Admitted (RevokeOp demo_revoke) demo_key]" "demo_bridge r" s] by (simp add: uses_of_def)
  then show thesis using that run s(2) demo_started_parts(2) [OF assms] by (simp add: demo_os_def)
qed

text \<open>
  Two sessions of the live bridge: one answers the revocation and stops, the next admits it and dies
  in the operation.
\<close>

definition demo_answer :: outcome where
  "demo_answer = Answered (RevokeOp demo_revoke) 204"

lemma demo_served:
  "\<exists>es. served (StatePath demo_parsed) TYPE(unit) [] es [] [demo_answer]"
  "\<exists>es. served (StatePath demo_parsed) TYPE(unit) [] es [] [demo_answer, Interrupted (RevokeOp demo_revoke)]"
proof -
  obtain r where r: "demo_running r" using demo_runs by blast
  obtain s where s: "service_run (demo_bridge r) ([], demo_started r) [] ([Admitted (RevokeOp demo_revoke) demo_key], s)"
      "conc_step (demo_bridge r) ([Admitted (RevokeOp demo_revoke) demo_key], s) [] ([Finished no_content], s)"
      "nodes (snd (st_leases s)) = []"
    using demo_admitted_run [OF r] .
  have ans: "answers [Admitted (RevokeOp demo_revoke) demo_key] [Finished no_content] = [demo_answer]"
    by (simp add: answers_def answer_of_def demo_answer_def)
  have "service_run (demo_bridge r) ([], demo_started r) [demo_answer] ([Finished no_content], s)"
    using step [OF s(1,2)] ans by simp
  from ended [OF fresh demo_session [OF r this]]
  have first: "served (StatePath demo_parsed) TYPE(unit) [] (st_log s) [] [demo_answer]" by (simp add: s(3))
  then show "\<exists>es. served (StatePath demo_parsed) TYPE(unit) [] es [] [demo_answer]" by blast
  have "(st_log s, []) \<in> set (crash_moments s s)" by (simp add: crash_moments_def s(3))
  from died [OF first demo_session [OF r s(1)] s(2) this]
  show "\<exists>es. served (StatePath demo_parsed) TYPE(unit) [] es [] [demo_answer, Interrupted (RevokeOp demo_revoke)]"
    by (auto simp: ans) (auto simp: demo_answer_def)
qed

theorem service_refines_ledger_witness:
  "\<exists>es. ledger_run \<lparr>on_record = \<lambda>_. None, in_force = {}\<rparr> [demo_answer, Interrupted (RevokeOp demo_revoke)]
     \<lparr>on_record = \<lambda>_. None, in_force = outstanding es\<rparr>"
  using service_refines_ledger [OF _ demo_started_path(3) nothing_recovered nothing_recovered] demo_served(2) by blast

text \<open>
  C14: what the bridge holds for a volume is what it last answered. Over the whole life of a
  deployment whose state path does not end in \<^verbatim>\<open>.tmp\<close> and whose state file can be loaded at its end,
  with any interleaving, failures and crashes, the last outcome that bears on the volume decides whether the next start recovers a lease of it: if
  it is an answer, there is one exactly when the answer granted one (200) rather than released it
  (204); if there is no such outcome, it recovers what there was at first. If the last one is an
  operation that a crash interrupted, an issue may have left a lease where there was none, and a
  revocation none where there was one, and nothing else can be.
\<close>

theorem last_answer_decides:
  assumes "served p w ns0 es ns os" and "\<not> has_suffix p ''.tmp''"
    and "recovered p ns0 = Some m0" and "recovered p ns = Some m"
  shows "(bearing (leaseStateKey h v) os = [] \<longrightarrow> m (leaseStateKey h v) = m0 (leaseStateKey h v)) \<and>
     (\<forall>os' op status. bearing (leaseStateKey h v) os = os' @ [Answered op status] \<longrightarrow>
        (m (leaseStateKey h v) \<noteq> None) = (status = 200)) \<and>
     (m (leaseStateKey h v) \<noteq> None) \<in> foldl (may_hold (leaseStateKey h v)) {m0 (leaseStateKey h v) \<noteq> None} os"
  using ledger_run_holds [OF served_ledger [OF assms], of "leaseStateKey h v"] by simp

theorem last_answer_decides_witness:
  "\<exists>es m. served (StatePath demo_parsed) TYPE(unit) [] es [] [demo_answer] \<and>
     recovered (StatePath demo_parsed) [] = Some m \<and> m (leaseStateKey ''host'' ''vol'') = None"
proof -
  obtain m where m: "recovered (StatePath demo_parsed) [] = Some m"
    using nothing_recovered by blast
  obtain es where life: "served (StatePath demo_parsed) TYPE(unit) [] es [] [demo_answer]"
    using demo_served(1) by blast
  have "bearing (leaseStateKey ''host'' ''vol'') [demo_answer] = [] @ [Answered (RevokeOp demo_revoke) 204]"
    by (simp add: bearing_def demo_answer_def demo_revoke_def)
  with last_answer_decides [OF life demo_started_path(3) m m, of "''host''" "''vol''"]
  have "m (leaseStateKey ''host'' ''vol'') = None" by fastforce
  with life m show ?thesis by blast
qed

end
