(* ===== verification/Program.thy ===== *)
theory Program
  imports Concurrent StartProps Cli
begin

text \<open>
  The process: the loop that renews the issuer token (\<^verbatim>\<open>server.go\<close>), \<^verbatim>\<open>main\<close>
  (\<^verbatim>\<open>cmd/vault-secrets-bridge/main.go\<close>) and its exit codes.
\<close>

section \<open>The renewal loop\<close>

text \<open>What the loop's \<^verbatim>\<open>select\<close> receives: ticks, until the context is done.\<close>

datatype loop_event = Tick | Done

fun renewalLoop :: "'w deps \<Rightarrow> loop_event list \<Rightarrow> 'w server \<Rightarrow> 'w server" where
  "renewalLoop d [] s = s"
| "renewalLoop d (Done # events) s = s"
| "renewalLoop d (Tick # events) s = renewalLoop d events (renewal_tick d s)"

text \<open>The loop's ticks are renewal steps of the service, whatever requests are in flight.\<close>

lemma renewalLoop_runs: "conc_run d (fs, s) [] (fs, renewalLoop d events s)"
proof (induction d events s rule: renewalLoop.induct)
  case (3 d events s)
  have "conc_run d (fs, s) ([] @ []) (fs, renewal_tick d s)"
    by (rule more [OF idle renewal])
  then show ?case using conc_run_append [OF 3] by simp
qed (simp_all add: idle)

section \<open>The process\<close>

datatype run_result = Served serve_result | Planned cli_result

fun exit_code :: "run_result \<Rightarrow> nat" where
  "exit_code (Served r) = sr_code r"
| "exit_code (Planned r) = cr_code r"

definition main ::
  "'w host \<Rightarrow> serve_end \<Rightarrow> 'w \<Rightarrow> input_reader \<Rightarrow> sink \<Rightarrow> sink \<Rightarrow> bytes list \<Rightarrow> run_result" where
  "main h stop w stdin stdout stderr args =
     (if length args > 0 \<and> args ! 0 = ''serve'' then Served (RunServe h (drop 1 args) stop w)
      else Planned (cli_run args stdin stdout stderr))"

section \<open>How the service ends\<close>

definition issuer_ready :: "'w host \<Rightarrow> config \<Rightarrow> 'w \<Rightarrow> bool" where
  "issuer_ready h config w =
     (case openVaultClient (ho_parse_url h) config of
        Inl _ \<Rightarrow> False
      | Inr (vault, _) \<Rightarrow>
          (case vault_healthy (ho_send h) vault w of
             (healthy, w1) \<Rightarrow> healthy \<and> fst (vault_renew (ho_send h) vault w1) = Inr ()))"

lemma clients_open:
  assumes "ParseConfig getenv files parse_url args = Inr config"
  shows "\<exists>v vh p ph. openVaultClient parse_url config = Inr (v, vh) \<and> openPlatformClient parse_url config = Inr (p, ph)"
  using ParseConfig_valid [OF assms] by (auto simp: validate_config_iff openVaultClient_def openPlatformClient_def)

lemma is_ok_unit: "is_ok r \<longleftrightarrow> r = Inr ()"
  by (cases r) auto

text \<open>
  C35: the process ends as its parts say: \<^verbatim>\<open>serve\<close> exits with 2 exactly when its configuration is not
  accepted, with 0 exactly when moreover the state file loads, Vault is healthy and renews the
  issuer token, the address can be listened on and serving does not fail, and else with 1 (an
  accepted configuration always gives both clients); any other command is the planner's. Whenever
  there was a Vault client, it is closed at the end, and holds the issuer token no longer.
\<close>

theorem main_exit_exact:
  "exit_code (main h stop w stdin stdout stderr (''serve'' # args)) =
     (case ParseConfig (ho_getenv h) (ho_files h) (ho_parse_url h) args of
        Inl _ \<Rightarrow> 2
      | Inr config \<Rightarrow>
          if is_ok (loadStateStore (ho_lstat_ok h) (ho_read_ok h) (StatePath config) (ho_os h)) \<and>
             issuer_ready h config w \<and> ho_listen h (Listen config) \<and> stop \<noteq> ServeFailed
          then 0 else 1) \<and>
   (case main h stop w stdin stdout stderr (''serve'' # args) of
      Planned _ \<Rightarrow> False
    | Served r \<Rightarrow> map_option v_token (sr_vault r) =
        (if is_ok (ParseConfig (ho_getenv h) (ho_files h) (ho_parse_url h) args) then Some [] else None)) \<and>
   {cmd. main h stop w stdin stdout stderr cmd \<noteq> Planned (cli_run cmd stdin stdout stderr)} = range (\<lambda>a. ''serve'' # a)"
proof -
  have serve: "main h stop w stdin stdout stderr (''serve'' # args) = Served (RunServe h args stop w)"
    by (simp add: main_def)
  have other: "{cmd. main h stop w stdin stdout stderr cmd \<noteq> Planned (cli_run cmd stdin stdout stderr)} = range (\<lambda>a. ''serve'' # a)"
    by (auto simp: main_def image_iff neq_Nil_conv split: if_splits)
  show ?thesis
  proof (cases "ParseConfig (ho_getenv h) (ho_files h) (ho_parse_url h) args")
    case (Inl e)
    then show ?thesis unfolding serve other by (simp add: RunServe_def start_serve_def)
  next
    case (Inr config)
    obtain v vh p ph where opened: "openVaultClient (ho_parse_url h) config = Inr (v, vh)"
        "openPlatformClient (ho_parse_url h) config = Inr (p, ph)"
      using clients_open [OF Inr] by blast
    obtain healthy w1 where 1: "vault_healthy (ho_send h) v w = (healthy, w1)" by (cases "vault_healthy (ho_send h) v w")
    obtain renewed w2 where 2: "vault_renew (ho_send h) v w1 = (renewed, w2)" by (cases "vault_renew (ho_send h) v w1")
    show ?thesis unfolding serve other
      by (cases "loadStateStore (ho_lstat_ok h) (ho_read_ok h) (StatePath config) (ho_os h)")
        (simp_all add: RunServe_def start_serve_def Inr opened 1 2 issuer_ready_def is_ok_unit vault_close_def)
  qed
qed

end
