(* ===== verification/Spec2Isabelle.thy ===== *)
theory Spec2Isabelle
  imports StoreProps ClientProps RequestProps PlanProps CliProps ScanProps LegalProps SessionProps Program
begin

text \<open>
  The Vault secrets bridge: root of the development. It models the Go module under
  \<^verbatim>\<open>src/\<close> and proves what makes its parts correct.

  The program has three parts. The bridge (\<^verbatim>\<open>internal/broker\<close>) is an HTTP service. A host of the
  control plane sends a signed request for a lease of a volume; the bridge looks up the host's
  public key, verifies the signature, refuses replays, has Vault issue a wrapped token, remembers
  the token's accessor under the key of host and volume, and answers with the token encrypted to the
  host's key. A second signed request revokes the lease. The accessors live in one file which is
  rewritten after every change and loaded at start. The planner (\<^verbatim>\<open>internal/strictjson\<close>,
  \<^verbatim>\<open>internal/model\<close>, \<^verbatim>\<open>internal/cli\<close>) reads a lease request and writes the plan it would follow,
  without any effect. The gate (\<^verbatim>\<open>internal/safety\<close>) scans a source tree for forbidden content and
  code and verifies the preserved legal artifacts.

  Go's library. \<^verbatim>\<open>Prelude\<close> (byte strings, association-list maps with one entry for a key),
  \<^verbatim>\<open>GoStrings\<close>, \<^verbatim>\<open>Utf8\<close>, \<^verbatim>\<open>Encodings\<close> (decimal, hex, base64), \<^verbatim>\<open>GoPath\<close>, \<^verbatim>\<open>GoTime\<close>, \<^verbatim>\<open>Sha256\<close>,
  \<^verbatim>\<open>GoJson\<close> (scanner, parser, struct decoding), \<^verbatim>\<open>GoJsonEncode\<close>, \<^verbatim>\<open>GoJsonUtf8\<close>, \<^verbatim>\<open>Ascii\<close>, \<^verbatim>\<open>GoFlag\<close>
  (\<^verbatim>\<open>flag.Parse\<close>), \<^verbatim>\<open>GoNumber\<close> (\<^verbatim>\<open>ParseInt\<close>, \<^verbatim>\<open>ParseDuration\<close>) and \<^verbatim>\<open>GoNet\<close> (textual addresses) model
  what the code uses of it, executably, and hold the lemmas about it, first of all that the parser
  inverts the encoder.

  The bridge, one theory for each component, in the order in which they call one another.
  \<^item> \<^verbatim>\<open>Names\<close>, \<^verbatim>\<open>Config\<close> and \<^verbatim>\<open>Settings\<close>: \<^verbatim>\<open>config.go\<close> and the syntactic checks of \<^verbatim>\<open>types.go\<close>; rune
    loops are shown to be byte conditions, paths are characterised by their elements; \<^verbatim>\<open>ParseConfig\<close>
    with its defaults, environment, flags and secret file.
  \<^item> \<^verbatim>\<open>Requests\<close>: \<^verbatim>\<open>types.go\<close>; strict decoding and the two validators.
  \<^item> \<^verbatim>\<open>Nonce\<close>: \<^verbatim>\<open>nonce.go\<close>; the contract is the locale \<open>replay_guard\<close>, interpreted on the cache.
  \<^item> \<^verbatim>\<open>StateStore\<close>: \<^verbatim>\<open>state.go\<close> over an explicit file system, in which every system call may fail
    and every intermediate state is journalled; \<^verbatim>\<open>LeaseStore\<close>: the same store as a finite map, by
    the locale \<open>lease_map\<close> interpreted on it.
  \<^item> \<^verbatim>\<open>Http\<close>, \<^verbatim>\<open>VaultClient\<close> (\<^verbatim>\<open>vault.go\<close>), \<^verbatim>\<open>Platform\<close> and \<^verbatim>\<open>Network\<close> (\<^verbatim>\<open>platform.go\<close>): the two
    upstream clients over a transport, and the dialer for unencrypted upstreams.
  \<^item> \<^verbatim>\<open>Envelope\<close>: \<^verbatim>\<open>envelope.go\<close>.
  \<^item> \<^verbatim>\<open>Server\<close>: \<^verbatim>\<open>server.go\<close>; each handler passes the server state on explicitly, and the calls
    it makes of Vault, the control plane and the store are also logged. \<^verbatim>\<open>ServerFlow\<close> splits the
    handlers into admission and the part under the operation lock; \<^verbatim>\<open>Replay\<close> is the step relation
    of a server that takes requests one by one, and what it does to the nonce cache; \<^verbatim>\<open>Bridge\<close>
    composes server, store, Vault and control plane through the locales \<open>vault_contract\<close>,
    \<open>host_contract\<close> and \<open>bridge\<close>, interpreted on the modelled clients.
  \<^item> \<^verbatim>\<open>Concurrent\<close>: requests in flight together, as steps between which others run; \<^verbatim>\<open>Authority\<close>:
    what a request has shown at each of them, and which work on Vault and the lease store is an
    operation's own; \<^verbatim>\<open>Crash\<close>: the moments of a step at which the process may die, with the file
    system as it then is and what the next start recovers from it; \<^verbatim>\<open>Ledger\<close>: the abstract ledger
    of leases that the service implements, with a step for every answer and for every operation
    that a crash leaves unanswered.
  \<^item> \<^verbatim>\<open>Startup\<close> and \<^verbatim>\<open>Program\<close>: the clients' connection settings, \<^verbatim>\<open>RunServe\<close>, the renewal loop and
    \<^verbatim>\<open>main\<close>.

  The planner. \<^verbatim>\<open>StrictJson\<close> is \<^verbatim>\<open>strictjson/value.go\<close> over the token machine of \<^verbatim>\<open>json.Decoder\<close>;
  \<^verbatim>\<open>LeasePlan\<close> and \<^verbatim>\<open>PlanBuild\<close> are \<^verbatim>\<open>model.go\<close> (counters are 64-bit words); \<^verbatim>\<open>Cli\<close> is \<^verbatim>\<open>cli.go\<close>.

  The gate. \<^verbatim>\<open>Content\<close> (file names, text and binaries) and \<^verbatim>\<open>TreeScan\<close> (Go files and the walk) are
  \<^verbatim>\<open>scanner.go\<close> and \<^verbatim>\<open>binary.go\<close>; \<^verbatim>\<open>Legal\<close> is \<^verbatim>\<open>legal.go\<close>.

  The properties. \<^verbatim>\<open>BridgeProps\<close>: what a granted and a refused request did, the replay window.
  \<^verbatim>\<open>ConcurrentProps\<close>: from a start on and with requests interleaved, no issued token is lost, nothing
  is done but an authentic request's own work, and no request is admitted twice at once.
  \<^verbatim>\<open>SessionProps\<close>: over any number of sessions on one state file that stop or crash at any moment, the
  service refines the ledger, what it holds for a volume is what it last answered (if no crash
  interrupted an operation on it since), and a crash loses at most one token, which was not
  delivered (and can lose that one).
  \<^verbatim>\<open>StartProps\<close>: what an accepted configuration and a started service guarantee. \<^verbatim>\<open>Program\<close>: exit
  codes. \<^verbatim>\<open>StoreProps\<close>: refinement of a map, crash atomicity, the loader and its limit, the nonce
  cache. \<^verbatim>\<open>ClientProps\<close>: the exchanges that make a client call succeed, the round trip of the
  encrypted record. \<^verbatim>\<open>RequestProps\<close>: decoding and validation. \<^verbatim>\<open>PlanProps\<close> and \<^verbatim>\<open>CliProps\<close>: which
  requests the planner accepts, exact transitions, the plan's identifier, the documents of a
  run. \<^verbatim>\<open>ContentProps\<close>, \<^verbatim>\<open>ScanProps\<close> and \<^verbatim>\<open>LegalProps\<close>: what the gate finds, for whole trees. \<^verbatim>\<open>Demo\<close> is a
  concrete bridge on which the witnesses run.

  Bounds. Byte strings are lists of 8-bit characters; \<^verbatim>\<open>int\<close> and \<^verbatim>\<open>time.Duration\<close> are integers
  with the saturation of \<^verbatim>\<open>Time.Sub\<close> written out, \<^verbatim>\<open>strconv\<close> checks its widths, and the planner's
  \<^verbatim>\<open>uint64\<close> counters are words whose additions are shown not to wrap. There is fuel in two
  places: \<open>trim_left_fuel\<close> has the length of the text, which each step shortens; \<open>parse_token\<close> has
  twice the number of tokens and two, which \<open>tree_reads\<close> shows to be enough for every tree that is
  accepted, as a step uses up a token at least every second time.

  Parameters. Code outside the repository and the parts of the language's libraries that the model
  does not define are arguments: the network (\<open>transport\<close>, name resolution, which dials succeed),
  AES-GCM and RSA-OAEP (\<open>lease_crypto\<close>), signature verification and media-type parsing (\<open>deps\<close>), PEM
  and X.509 parsing (\<open>key_parsers\<close>), \<^verbatim>\<open>url.Parse\<close> (\<open>url_parser\<close>), Go's parser (\<open>TreeScan\<close>), the random
  source, the clock, the environment and files, and which system calls fail.

  Concurrency. A nonce use, a store operation and the locked part of a handler are atomic, as
  under their mutexes; between the points at which a request touches shared state any other request
  or the renewal loop may step, and \<open>flight_alone\<close> shows that without them the steps are the handler.
  Calls of others that overlap a locked part change only the state of the network, which is
  arbitrary in the theorems.

  The clock is that of the wall and may be set back (\<^verbatim>\<open>time.Now().UTC()\<close> drops the monotonic
  reading): the theorems on replay speak of its readings, and where one needs a clock that is never
  set back it says so (\<open>clock_mono\<close>).

  Crashes. A crash is the end of the process: the file system keeps what the system calls so far
  have done. The end of \<^verbatim>\<open>RunServe\<close> is one for an operation that is still running when the five
  seconds of \<^verbatim>\<open>Shutdown\<close> are over. A token counts as issued when Vault's answer has reached the bridge; one whose answer
  is lost on the way is a failed call.

  Conditions. The theorems on the state file hold for a path that does not end in \<^verbatim>\<open>.tmp\<close>: such a
  name could be that of a temporary file. A restart recovers the leases if the file is within the
  loader's 4 MiB, which the store does not ensure (\<open>oversized_state_refused\<close>).

  Not modelled: the texts of flag errors and usage, log lines, the internals of TLS and of
  connections, the overwriting of secrets in memory, the time-outs of the HTTP server and of contexts (a call that times out is one the
  transport fails), the delivery of signals (a run ends by one of \<open>serve_end\<close>), and the loss of
  directory entries when the machine itself fails (the code synchronises the file, not the
  directory).
\<close>

end
